(* ===== verification/Cpp_Prelude.thy ===== *)
theory Cpp_Prelude
  imports Main "HOL-Library.Sublist" "HOL-Library.Char_ord" "HOL-Library.List_Lexorder"
    "HOL-Library.Word"
begin

text \<open>
  The part of C++ and its standard library that the server sources use, as executable
  definitions: \<open>std::string\<close> searching and slicing with \<open>npos\<close> as the value None, the
  64-bit wrap-around of \<open>size_t\<close> arithmetic on \<open>npos\<close>, \<open>std::out_of_range\<close> and
  undefined behaviour as values of a sum type, \<open>std::map\<close> as an ordered association
  list behind a locale, and the decimal and hexadecimal conversions of \<open>sprintf\<close>,
  \<open>strtoul\<close>, \<open>strtoull\<close> and \<open>strtol\<close>.
\<close>

named_theorems str_simps \<open>rewriting of string searches over concatenations\<close>
named_theorems fault_simps \<open>unfolding of fault propagation\<close>

section \<open>Faults: thrown exceptions and undefined behaviour\<close>

datatype fault =
    OutOfRange \<comment> \<open>\<open>std::out_of_range\<close>, thrown by \<open>substr\<close>/\<open>erase\<close> past the end\<close>
  | NullString \<comment> \<open>a \<open>std::string\<close> built from a null pointer\<close>
  | BufferOverflow \<comment> \<open>\<open>sprintf\<close>/\<open>strcpy\<close> past the end of a stack buffer\<close>
  | DanglingIterator \<comment> \<open>use of a map iterator after its element was erased\<close>
  | Hangs \<comment> \<open>a loop that does not end\<close>

type_synonym 'a res = "fault + 'a"

definition bind_res :: "'a res \<Rightarrow> ('a \<Rightarrow> 'b res) \<Rightarrow> 'b res" where
  "bind_res m f = (case m of Inl e \<Rightarrow> Inl e | Inr x \<Rightarrow> f x)"

lemma bind_res_simps [simp, fault_simps]:
  "bind_res (Inl e) f = Inl e"
  "bind_res (Inr x) f = f x"
  by (simp_all add: bind_res_def)

lemma bind_res_Inr_iff: "bind_res m f = Inr y \<longleftrightarrow> (\<exists>x. m = Inr x \<and> f x = Inr y)"
  by (cases m) auto

section \<open>Step relations and invariants\<close>

text \<open>The contract of an invariant of a step relation; the daemons interpret it on their
  loops.\<close>

locale invariant_system =
  fixes init :: "'s \<Rightarrow> bool"
    and step :: "'s \<Rightarrow> 's \<Rightarrow> bool"
    and inv :: "'s \<Rightarrow> bool"
  assumes inv_init: "init s \<Longrightarrow> inv s"
    and inv_step: "inv s \<Longrightarrow> step s t \<Longrightarrow> inv t"
begin

lemma inv_steps: "step\<^sup>*\<^sup>* s t \<Longrightarrow> inv s \<Longrightarrow> inv t"
  by (induction rule: rtranclp_induct) (auto intro: inv_step)

lemma inv_reachable: "init s \<Longrightarrow> step\<^sup>*\<^sup>* s t \<Longrightarrow> inv t"
  using inv_steps inv_init by blast

end

text \<open>Refinement of a step relation by an abstract one: a step of the detailed system, taken in a
  state with the invariant, is a step of the abstract system or leaves its state unchanged.\<close>

locale simulation = invariant_system init step inv
  for init :: "'s \<Rightarrow> bool" and step :: "'s \<Rightarrow> 's \<Rightarrow> bool" and inv :: "'s \<Rightarrow> bool" +
  fixes abs_state :: "'s \<Rightarrow> 'a" and abs_step :: "'a \<Rightarrow> 'a \<Rightarrow> bool"
  assumes simulated: "inv s \<Longrightarrow> step s t \<Longrightarrow> abs_step\<^sup>=\<^sup>= (abs_state s) (abs_state t)"
begin

lemma simulated_run:
  assumes "step\<^sup>*\<^sup>* s t" and "inv s"
  shows "inv t \<and> abs_step\<^sup>*\<^sup>* (abs_state s) (abs_state t)"
  using assms
proof (induction rule: rtranclp_induct)
  case (step t u)
  then have "inv u" "abs_step\<^sup>=\<^sup>= (abs_state t) (abs_state u)" using inv_step simulated by blast+
  then show ?case using step by (auto intro: rtranclp.rtrancl_into_rtrancl)
qed simp

lemma simulated_reachable: "init s \<Longrightarrow> step\<^sup>*\<^sup>* s t \<Longrightarrow> abs_step\<^sup>*\<^sup>* (abs_state s) (abs_state t)"
  using simulated_run inv_init by blast

end

section \<open>Characters\<close>

abbreviation QUOTE :: char where "QUOTE \<equiv> CHR 0x22"
abbreviation APOS :: char where "APOS \<equiv> CHR 0x27"
abbreviation BSLASH :: char where "BSLASH \<equiv> CHR 0x5C"
abbreviation NL :: char where "NL \<equiv> CHR 0x0A"
abbreviation CR :: char where "CR \<equiv> CHR 0x0D"
abbreviation TAB :: char where "TAB \<equiv> CHR 0x09"
abbreviation NUL :: char where "NUL \<equiv> CHR 0x00"

text \<open>The contents a C function sees through \<open>c_str()\<close>: everything before the first NUL.\<close>

definition c_str :: "string \<Rightarrow> string" where
  "c_str s = takeWhile (\<lambda>c. c \<noteq> NUL) s"

lemma c_str_Nil [simp]: "c_str [] = []"
  by (simp add: c_str_def)

lemma c_str_Cons [simp]: "c_str (c # s) = (if c = NUL then [] else c # c_str s)"
  by (simp add: c_str_def)

lemma c_str_no_NUL: "NUL \<notin> set (c_str s)"
  unfolding c_str_def by (auto dest: set_takeWhileD)

lemma c_str_id: "NUL \<notin> set s \<Longrightarrow> c_str s = s"
  by (induction s) auto

lemma c_str_append: "NUL \<notin> set s \<Longrightarrow> c_str (s @ t) = s @ c_str t"
  by (induction s) auto

lemma c_str_prefix: "prefix p s \<Longrightarrow> NUL \<notin> set p \<Longrightarrow> prefix p (c_str s)"
  by (auto simp: prefix_def c_str_append)

section \<open>Searching: \<open>find\<close>, \<open>rfind\<close>, \<open>find_first_of\<close>, \<open>find_last_of\<close>\<close>

text \<open>\<open>find_sub t s\<close> is \<open>s.find(t)\<close>; None is \<open>npos\<close>.\<close>

fun find_sub :: "string \<Rightarrow> string \<Rightarrow> nat option" where
  "find_sub t [] = (if t = [] then Some 0 else None)"
| "find_sub t (c # s) = (if prefix t (c # s) then Some 0 else map_option Suc (find_sub t s))"

text \<open>\<open>find_from s t pos\<close> is \<open>s.find(t, pos)\<close>.\<close>

definition find_from :: "string \<Rightarrow> string \<Rightarrow> nat \<Rightarrow> nat option" where
  "find_from s t pos =
     (if pos \<le> length s then map_option (\<lambda>i. pos + i) (find_sub t (drop pos s)) else None)"

text \<open>\<open>rfind_sub t s\<close> is \<open>s.rfind(t)\<close>.\<close>

fun rfind_sub :: "string \<Rightarrow> string \<Rightarrow> nat option" where
  "rfind_sub t [] = (if t = [] then Some 0 else None)"
| "rfind_sub t (c # s) =
     (case rfind_sub t s of Some i \<Rightarrow> Some (Suc i)
      | None \<Rightarrow> if prefix t (c # s) then Some 0 else None)"

text \<open>The first and the last position whose character satisfies a predicate.\<close>

fun find_idx :: "(char \<Rightarrow> bool) \<Rightarrow> string \<Rightarrow> nat option" where
  "find_idx P [] = None"
| "find_idx P (c # s) = (if P c then Some 0 else map_option Suc (find_idx P s))"

fun find_last_idx :: "(char \<Rightarrow> bool) \<Rightarrow> string \<Rightarrow> nat option" where
  "find_last_idx P [] = None"
| "find_last_idx P (c # s) =
     (case find_last_idx P s of Some i \<Rightarrow> Some (Suc i) | None \<Rightarrow> if P c then Some 0 else None)"

definition contains :: "string \<Rightarrow> string \<Rightarrow> bool" where
  "contains s t \<longleftrightarrow> find_sub t s \<noteq> None"

lemma find_sub_Some_prefix: "find_sub t s = Some i \<Longrightarrow> prefix t (drop i s) \<and> i \<le> length s"
  by (induction t s arbitrary: i rule: find_sub.induct) (auto split: if_splits)

lemma find_sub_Some_bound: "find_sub t s = Some i \<Longrightarrow> i + length t \<le> length s"
  by (induction t s arbitrary: i rule: find_sub.induct)
    (auto split: if_splits dest: prefix_length_le)

lemma find_sub_Some_least: "find_sub t s = Some i \<Longrightarrow> j < i \<Longrightarrow> \<not> prefix t (drop j s)"
proof (induction t s arbitrary: i j rule: find_sub.induct)
  case (2 t c s)
  then show ?case by (cases j) (auto split: if_splits)
qed (auto split: if_splits)

lemma find_sub_split:
  assumes "find_sub t s = Some i"
  shows "s = take i s @ t @ drop (i + length t) s"
proof -
  obtain z where "drop i s = t @ z" using find_sub_Some_prefix[OF assms] by (auto elim: prefixE)
  then have "drop i s = t @ drop (i + length t) s"
    by (metis append_eq_conv_conj drop_drop add.commute)
  then show ?thesis by (metis append_take_drop_id)
qed

lemma find_sub_None_iff: "find_sub t s = None \<longleftrightarrow> (\<forall>j \<le> length s. \<not> prefix t (drop j s))"
proof (induction t s rule: find_sub.induct)
  case (2 t c s)
  have split: "(\<forall>j \<le> length (c # s). \<not> prefix t (drop j (c # s))) \<longleftrightarrow>
      \<not> prefix t (c # s) \<and> (\<forall>j \<le> length s. \<not> prefix t (drop j s))" (is "?l \<longleftrightarrow> ?r")
  proof
    assume ?l
    then show ?r using Suc_le_mono by (metis drop0 drop_Suc_Cons le0 length_Cons)
  next
    assume ?r
    then show ?l by (metis drop_Cons' length_Cons Suc_le_mono Suc_pred not_gr_zero diff_Suc_1)
  qed
  show ?case by (simp only: split) (use 2 in auto)
qed simp

lemma find_sub_skip [str_simps]:
  "c \<notin> set u \<Longrightarrow> find_sub (c # t) (u @ v) = map_option (\<lambda>i. length u + i) (find_sub (c # t) v)"
  by (cases "find_sub (c # t) v"; induction u) auto

lemma find_sub_here [str_simps]: "find_sub t (t @ v) = Some 0"
proof (cases "t @ v")
  case (Cons a l)
  then have "prefix t (a # l)" by (metis prefixI)
  then show ?thesis by (simp add: Cons)
qed simp

lemma find_sub_absent: "c \<notin> set s \<Longrightarrow> find_sub (c # t) s = None"
  using find_sub_skip[of c s t "[]"] by simp

lemma find_sub_first:
  "c \<notin> set u \<Longrightarrow> find_sub (c # t) (u @ (c # t) @ v) = Some (length u)"
  using find_sub_skip[of c u t "(c # t) @ v"] find_sub_here[of "c # t" v] by simp

lemma contains_iff: "contains s t \<longleftrightarrow> (\<exists>u v. s = u @ t @ v)"
proof
  assume "contains s t"
  then show "\<exists>u v. s = u @ t @ v" unfolding contains_def by (auto dest: find_sub_split)
next
  assume "\<exists>u v. s = u @ t @ v"
  then obtain u v where s: "s = u @ t @ v" by blast
  then have "prefix t (drop (length u) s)" "length u \<le> length s" by auto
  then show "contains s t" unfolding contains_def by (auto simp: find_sub_None_iff)
qed

lemma contains_prefix: "contains x t \<Longrightarrow> prefix x y \<Longrightarrow> contains y t"
  unfolding contains_iff prefix_def by (metis append_assoc)

lemma find_from_bound: "find_from s t pos = Some i \<Longrightarrow> pos \<le> i \<and> i + length t \<le> length s"
  by (auto simp: find_from_def split: if_splits dest: find_sub_Some_bound)

lemma find_from_0 [simp]: "find_from s t 0 = find_sub t s"
  by (cases "find_sub t s") (auto simp: find_from_def)

lemma find_idx_Some: "find_idx P s = Some i \<longleftrightarrow> i < length s \<and> P (s ! i) \<and> (\<forall>j < i. \<not> P (s ! j))"
proof (induction P s arbitrary: i rule: find_idx.induct)
  case (2 P c s)
  then show ?case by (cases i) (auto simp: nth_Cons' less_Suc_eq_0_disj)
qed simp

lemma find_idx_None: "find_idx P s = None \<longleftrightarrow> (\<forall>c \<in> set s. \<not> P c)"
  by (induction P s rule: find_idx.induct) auto

lemma find_idx_takeWhile:
  "find_idx P s = Some i \<Longrightarrow> take i s = takeWhile (\<lambda>c. \<not> P c) s \<and> drop i s = dropWhile (\<lambda>c. \<not> P c) s"
  by (induction P s arbitrary: i rule: find_idx.induct) (auto split: if_splits)

lemma find_idx_skip [str_simps]:
  "(\<And>c. c \<in> set u \<Longrightarrow> \<not> P c) \<Longrightarrow>
     find_idx P (u @ v) = map_option (\<lambda>i. length u + i) (find_idx P v)"
  by (cases "find_idx P v"; induction u) auto

lemma find_sub_single: "find_sub [c] s = find_idx (\<lambda>x. x = c) s"
  by (induction s) auto

lemma find_last_idx_bound: "find_last_idx P s = Some i \<Longrightarrow> i < length s \<and> P (s ! i)"
  by (induction P s arbitrary: i rule: find_last_idx.induct)
    (auto split: option.splits if_splits)

lemma find_last_idx_None: "find_last_idx P s = None \<longleftrightarrow> (\<forall>c \<in> set s. \<not> P c)"
  by (induction P s rule: find_last_idx.induct) (auto split: option.splits)

lemma find_last_idx_after:
  "find_last_idx P s = Some i \<Longrightarrow> i < j \<Longrightarrow> j < length s \<Longrightarrow> \<not> P (s ! j)"
proof (induction P s arbitrary: i j rule: find_last_idx.induct)
  case (2 P c s)
  then show ?case
    by (cases j) (auto split: option.splits if_splits simp: find_last_idx_None)
qed simp

lemma rfind_sub_single: "rfind_sub [c] s = find_last_idx (\<lambda>x. x = c) s"
  by (induction s) (auto split: option.splits)

lemma rfind_sub_last: "c \<notin> set v \<Longrightarrow> rfind_sub [c] (u @ c # v) = Some (length u)"
  by (induction u) (auto simp: rfind_sub_single find_last_idx_None split: option.splits)

section \<open>Slicing: \<open>substr\<close>, and \<open>size_t\<close> arithmetic on \<open>npos\<close>\<close>

text \<open>
  \<open>s.substr(pos, n)\<close> throws when \<open>pos\<close> is past the end; \<open>n\<close> is clipped. The count
  None stands for \<open>npos\<close>. Where the position is the result of a \<open>find\<close> on the same
  string (plus at most the length found) it cannot be past the end
  (\<open>substr_after_find\<close>), and the model slices with \<open>take\<close> and \<open>drop\<close> directly.
\<close>

definition substr :: "string \<Rightarrow> nat \<Rightarrow> nat option \<Rightarrow> string res" where
  "substr s pos n =
     (if length s < pos then Inl OutOfRange
      else Inr (case n of None \<Rightarrow> drop pos s | Some k \<Rightarrow> take k (drop pos s)))"

lemma substr_ok_iff: "(\<exists>r. substr s pos n = Inr r) \<longleftrightarrow> pos \<le> length s"
  by (auto simp: substr_def)

lemma substr_ok [simp]: "pos \<le> length s \<Longrightarrow> substr s pos None = Inr (drop pos s)"
  "pos \<le> length s \<Longrightarrow> substr s pos (Some k) = Inr (take k (drop pos s))"
  by (simp_all add: substr_def)

lemma substr_throws [simp]: "length s < pos \<Longrightarrow> substr s pos n = Inl OutOfRange"
  by (simp add: substr_def)

lemma substr_after_find:
  "find_from s t p = Some i \<Longrightarrow> k \<le> length t \<Longrightarrow> substr s (i + k) None = Inr (drop (i + k) s)"
  by (auto dest: find_from_bound)

text \<open>
  \<open>pos + k\<close> for a \<open>size_t\<close> result of a search. A found position cannot overflow, since a
  string is shorter than \<open>npos\<close>; \<open>npos\<close> itself is \<open>2^64 - 1\<close>, so adding \<open>k > 0\<close> wraps
  to \<open>k - 1\<close>. \<open>npos_plus_word\<close> relates it to 64-bit words.
\<close>

definition npos_plus :: "nat option \<Rightarrow> nat \<Rightarrow> nat" where
  "npos_plus p k = (case p of None \<Rightarrow> k - 1 | Some i \<Rightarrow> i + k)"

definition size_t_of :: "nat option \<Rightarrow> 64 word" where
  "size_t_of p = (case p of None \<Rightarrow> - 1 | Some i \<Rightarrow> of_nat i)"

lemma npos_plus_simps [simp]: "npos_plus None k = k - 1" "npos_plus (Some i) k = i + k"
  by (simp_all add: npos_plus_def)

lemma unat_of_nat64: "n < 2 ^ 64 \<Longrightarrow> unat (of_nat n :: 64 word) = n"
  by (simp add: unat_of_nat)

lemma unat_minus64: "x \<noteq> 0 \<Longrightarrow> unat (- x :: 64 word) = 2 ^ 64 - unat x"
proof -
  assume "x \<noteq> 0"
  then have "0 < unat x" by (simp add: unat_gt_0)
  have l: "unat x < 2 ^ 64" using unsigned_less[where w = x and 'a = nat] by simp
  have "(of_nat (2 ^ 64) :: 64 word) = 0" by simp
  then have "- x = of_nat (2 ^ 64 - unat x)"
    using of_nat_diff[OF less_imp_le[OF l], where 'a = "64 word"] by simp
  moreover have "unat (of_nat (2 ^ 64 - unat x) :: 64 word) = 2 ^ 64 - unat x"
    using \<open>0 < unat x\<close> by (simp add: unat_of_nat)
  ultimately show ?thesis by metis
qed

lemma sint_small: "unat (x :: 64 word) < 2 ^ 63 \<Longrightarrow> sint x = int (unat x)"
proof -
  assume "unat x < 2 ^ 63"
  then have "int (unat x) < int (2 ^ 63)" by (simp only: of_nat_less_iff)
  then have u: "uint x < 2 ^ 63" by simp
  have "signed_take_bit 63 (uint x) = uint x"
  proof (rule signed_take_bit_int_eq_self)
    have "0 \<le> uint x" by simp
    then show "- (2 ^ 63) \<le> uint x" by (rule order_trans[rotated]) simp
  qed (rule u)
  then show ?thesis by (simp add: sint_uint)
qed

lemma npos_plus_word:
  assumes "0 < k" and "k < 2 ^ 64" and "\<And>i. p = Some i \<Longrightarrow> i + k < 2 ^ 64"
  shows "npos_plus p k = unat (size_t_of p + of_nat k)"
proof (cases p)
  case None
  have "(- 1 :: 64 word) + of_nat k = of_nat (k - 1)"
    using assms(1) by (simp add: of_nat_diff)
  then show ?thesis using None assms(2) by (simp add: size_t_of_def unat_of_nat)
next
  case (Some i)
  then have "unat ((of_nat i :: 64 word) + of_nat k) = i + k"
    using assms(3) by (simp flip: of_nat_add add: unat_of_nat)
  then show ?thesis using Some by (simp add: size_t_of_def)
qed

end
