(* ===== verification/Cpp_Map.thy ===== *)
theory Cpp_Map
  imports Cpp_Prelude
begin

text \<open>
  \<open>std::map\<close>: an association list kept in ascending key order, which is also its
  iteration order. \<open>m[k] = v\<close> overwrites (\<open>map_put\<close>); \<open>m.insert(pair)\<close> keeps an
  existing entry (\<open>map_insert\<close>). The locale \<open>std_map\<close> is the contract the clients
  (HTTP parameters, JSON objects, the chunker's process table) rely on; it is
  interpreted on these definitions.
\<close>

fun map_put :: "'k::linorder \<Rightarrow> 'v \<Rightarrow> ('k \<times> 'v) list \<Rightarrow> ('k \<times> 'v) list" where
  "map_put k v [] = [(k, v)]"
| "map_put k v ((a, b) # m) =
     (if k < a then (k, v) # (a, b) # m
      else if k = a then (k, v) # m
      else (a, b) # map_put k v m)"

definition map_insert :: "'k::linorder \<Rightarrow> 'v \<Rightarrow> ('k \<times> 'v) list \<Rightarrow> ('k \<times> 'v) list" where
  "map_insert k v m = (if map_of m k = None then map_put k v m else m)"

definition map_erase :: "'k \<Rightarrow> ('k \<times> 'v) list \<Rightarrow> ('k \<times> 'v) list" where
  "map_erase k m = filter (\<lambda>p. fst p \<noteq> k) m"

definition sorted_map :: "('k::linorder \<times> 'v) list \<Rightarrow> bool" where
  "sorted_map m \<longleftrightarrow> sorted_wrt (<) (map fst m)"

lemma map_of_keys_id: "distinct (map fst xs) \<Longrightarrow> map (\<lambda>k. (k, the (map_of xs k))) (map fst xs) = xs"
  by (auto intro!: map_idI)

lemma sorted_wrt_less_unique:
  assumes "sorted_wrt (<) (map fst xs)" and "sorted_wrt (<) (map fst ys)"
    and "map_of xs = map_of (ys :: ('k::linorder \<times> 'v) list)"
  shows "xs = ys"
proof -
  have d: "distinct (map fst xs)" "distinct (map fst ys)"
    using assms(1,2) by (simp_all add: strict_sorted_iff)
  have "set (map fst xs) = set (map fst ys)"
    using assms(3) by (metis dom_map_of_conv_image_fst list.set_map)
  then have "map fst xs = map fst ys" using assms(1,2) by (metis strict_sorted_equal)
  then show ?thesis using map_of_keys_id[OF d(1)] map_of_keys_id[OF d(2)] assms(3) by metis
qed

text \<open>The contract of an ordered map.\<close>

locale std_map =
  fixes empty :: "'m"
    and get :: "'m \<Rightarrow> 'k::linorder \<Rightarrow> 'v option"
    and put :: "'k \<Rightarrow> 'v \<Rightarrow> 'm \<Rightarrow> 'm"
    and erase :: "'k \<Rightarrow> 'm \<Rightarrow> 'm"
    and items :: "'m \<Rightarrow> ('k \<times> 'v) list"
    and wf :: "'m \<Rightarrow> bool"
  assumes wf_empty: "wf empty"
    and wf_put: "wf m \<Longrightarrow> wf (put k v m)"
    and wf_erase: "wf m \<Longrightarrow> wf (erase k m)"
    and items_empty: "items empty = []"
    and get_items: "get m k = map_of (items m) k"
    and items_sorted: "wf m \<Longrightarrow> sorted_wrt (<) (map fst (items m))"
    and get_put: "get (put k v m) = (get m)(k \<mapsto> v)"
    and get_erase: "get (erase k m) = (get m)(k := None)"
begin

lemma get_put_same [simp]: "get (put k v m) k = Some v"
  by (simp add: get_put)

lemma get_put_other [simp]: "k' \<noteq> k \<Longrightarrow> get (put k v m) k' = get m k'"
  by (simp add: get_put)

lemma get_erase_other: "k' \<noteq> k \<Longrightarrow> get (erase k m) k' = get m k'"
  by (simp add: get_erase)

lemma get_erase_same: "get (erase k m) k = None"
  by (simp add: get_erase)

lemma get_empty: "get empty k = None"
  by (simp add: get_items items_empty)

lemma items_distinct: "wf m \<Longrightarrow> distinct (map fst (items m))"
  using items_sorted by (simp add: strict_sorted_iff)

lemma items_get: "wf m \<Longrightarrow> (k, v) \<in> set (items m) \<longleftrightarrow> get m k = Some v"
  by (simp add: get_items items_distinct)

lemma items_ext: "wf m \<Longrightarrow> wf m' \<Longrightarrow> get m = get m' \<Longrightarrow> items m = items m'"
  by (rule sorted_wrt_less_unique) (auto simp: items_sorted fun_eq_iff simp flip: get_items)

lemma items_put: "wf m \<Longrightarrow> set (items (put k v m)) = insert (k, v) {p \<in> set (items m). fst p \<noteq> k}"
  by (auto simp: items_get wf_put get_put split: if_splits)

lemma items_erase: "wf m \<Longrightarrow> set (items (erase k m)) = {p \<in> set (items m). fst p \<noteq> k}"
  by (auto simp: items_get wf_erase get_erase split: if_splits)

lemma put_put: "wf m \<Longrightarrow> items (put k v (put k w m)) = items (put k v m)"
  by (rule items_ext) (auto simp: wf_put get_put)

lemma put_commute: "wf m \<Longrightarrow> k \<noteq> k' \<Longrightarrow> items (put k v (put k' w m)) = items (put k' w (put k v m))"
  by (rule items_ext) (auto simp: wf_put get_put)

lemma erase_put: "wf m \<Longrightarrow> items (erase k (put k v m)) = items (erase k m)"
  by (rule items_ext) (auto simp: wf_put wf_erase get_put get_erase)

end

lemma map_put_get: "map_of (map_put k v m) = (map_of m)(k \<mapsto> v)"
  by (induction k v m rule: map_put.induct) (auto simp: fun_eq_iff)

lemma map_put_keys: "fst ` set (map_put k v m) = insert k (fst ` set m)"
  by (induction k v m rule: map_put.induct) auto

lemma map_put_sorted: "sorted_map m \<Longrightarrow> sorted_map (map_put k v m)"
  unfolding sorted_map_def
proof (induction k v m rule: map_put.induct)
  case (2 k v a b m)
  have "\<forall>x \<in> fst ` set (map_put k v m). a < x" if "a < k"
    using that "2.prems" by (simp add: map_put_keys)
  then show ?case using 2 by (auto intro: order.strict_trans)
qed simp

lemma map_erase_get: "map_of (map_erase k m) = (map_of m)(k := None)"
  unfolding map_erase_def by (induction m) auto

lemma map_erase_sorted: "sorted_map m \<Longrightarrow> sorted_map (map_erase k m)"
  unfolding sorted_map_def map_erase_def by (induction m) auto

interpretation cmap: std_map "[]" map_of map_put map_erase "\<lambda>m. m" sorted_map
  by unfold_locales
    (auto simp: map_put_get map_put_sorted map_erase_get map_erase_sorted,
      auto simp: sorted_map_def)

lemma map_insert_get: "map_of (map_insert k v m) = (if map_of m k = None then (map_of m)(k \<mapsto> v) else map_of m)"
  by (simp add: map_insert_def map_put_get)

lemma map_insert_sorted: "sorted_map m \<Longrightarrow> sorted_map (map_insert k v m)"
  by (simp add: map_insert_def map_put_sorted)

lemmas cmap_wf = cmap.wf_empty map_put_sorted map_erase_sorted map_insert_sorted

end
