(* ===== verification/Str_Proc.thy ===== *)
theory Str_Proc
  imports Cpp_Prelude
begin

text \<open>
  \<open>rl_str_proc.cc\<close>: the string splitter used for headers, session lines, chunker
  replies and templates. The constructor's loops are kept as loops. The token loop does
  not move its start position past the replacement, so it may run forever; it is a
  partial function and its result None means that the constructor does not return.
\<close>

section \<open>Reference definitions: replacing and splitting\<close>

function replace_all :: "string \<Rightarrow> string \<Rightarrow> string \<Rightarrow> string" where
  "replace_all v r [] = []"
| "replace_all v r (c # s) =
     (if v \<noteq> [] \<and> prefix v (c # s) then r @ replace_all v r (drop (length v) (c # s))
      else c # replace_all v r s)"
  by pat_completeness auto
termination by (relation "measure (\<lambda>(v, r, s). length s)") (auto simp: length_greater_0_conv[symmetric] simp del: length_greater_0_conv)

fun split_char :: "char \<Rightarrow> string \<Rightarrow> string list" where
  "split_char d [] = [[]]"
| "split_char d (c # s) =
     (if c = d then [] # split_char d s
      else (case split_char d s of [] \<Rightarrow> [[c]] | x # xs \<Rightarrow> (c # x) # xs))"

definition nonempty_fields :: "char \<Rightarrow> string \<Rightarrow> string list" where
  "nonempty_fields d s = filter (\<lambda>x. x \<noteq> []) (split_char d s)"

fun join :: "string \<Rightarrow> string list \<Rightarrow> string" where
  "join tok [] = []"
| "join tok [x] = x"
| "join tok (x # y # ys) = x @ tok @ join tok (y # ys)"

lemma replace_all_find_None: "find_sub v s = None \<Longrightarrow> replace_all v r s = s"
  by (induction v r s rule: replace_all.induct) (auto split: if_splits)

lemma replace_all_find_Some:
  "find_sub v s = Some i \<Longrightarrow> v \<noteq> [] \<Longrightarrow>
     replace_all v r s = take i s @ r @ replace_all v r (drop (i + length v) s)"
proof (induction v r s arbitrary: i rule: replace_all.induct)
  case (2 v r c s)
  show ?case
  proof (cases "prefix v (c # s)")
    case True
    then have "i = 0" using 2 by simp
    with True 2 show ?thesis by simp
  next
    case False
    then obtain j where "i = Suc j" "find_sub v s = Some j" using 2 by auto
    with False 2 show ?thesis by simp
  qed
qed auto

lemma replace_all_skip [str_simps]:
  "c \<notin> set u \<Longrightarrow> replace_all (c # t) r (u @ v) = u @ replace_all (c # t) r v"
  by (induction u) auto

lemma replace_all_here [str_simps]: "t \<noteq> [] \<Longrightarrow> replace_all t r (t @ v) = r @ replace_all t r v"
  by (cases t) auto

lemma replace_all_single: "replace_all [c] r s = concat (map (\<lambda>x. if x = c then r else [x]) s)"
  by (induction s) auto

lemma replace_all_id: "c \<notin> set s \<Longrightarrow> replace_all (c # t) r s = s"
  using replace_all_skip[of c s t r "[]"] by simp

lemma split_char_nonempty [simp]: "split_char d s \<noteq> []"
  by (induction d s rule: split_char.induct) (auto split: list.splits)

lemma split_char_skip: "d \<notin> set u \<Longrightarrow> split_char d (u @ d # v) = u # split_char d v"
  by (induction u) auto

lemma split_char_last: "d \<notin> set u \<Longrightarrow> split_char d u = [u]"
  by (induction u) auto

lemma nonempty_fields_Cons [simp]: "nonempty_fields d (d # s) = nonempty_fields d s"
  by (simp add: nonempty_fields_def)

lemma nonempty_fields_all: "\<forall>c \<in> set s. c = d \<Longrightarrow> nonempty_fields d s = []"
  by (induction s) (auto simp: nonempty_fields_def)

lemma nonempty_fields_skip:
  "d \<notin> set u \<Longrightarrow> nonempty_fields d (u @ d # v) = (if u = [] then [] else [u]) @ nonempty_fields d v"
  by (simp add: nonempty_fields_def split_char_skip)

lemma nonempty_fields_last:
  "d \<notin> set u \<Longrightarrow> nonempty_fields d u = (if u = [] then [] else [u])"
  by (simp add: nonempty_fields_def split_char_last)

section \<open>The constructor \<open>StrProc::StrProc\<close>\<close>

text \<open>Lines 24--30: every tab becomes four spaces, the search resuming after them.\<close>

lemma count_list_split:
  "find_from s [c] pos = Some p \<Longrightarrow>
     count_list s c = Suc (count_list (take p s) c + count_list (drop (Suc p) s) c)"
proof -
  assume "find_from s [c] pos = Some p"
  then obtain i where i: "find_sub [c] (drop pos s) = Some i" "p = pos + i"
    by (auto simp: find_from_def split: if_splits)
  have "s = take pos s @ drop pos s" by simp
  also have "drop pos s = take i (drop pos s) @ [c] @ drop (i + 1) (drop pos s)"
    using find_sub_split[OF i(1)] by simp
  also have "drop (i + 1) (drop pos s) = drop (Suc p) s" by (simp add: i(2) add.commute)
  also have "take pos s @ take i (drop pos s) @ [c] @ drop (Suc p) s = take p s @ [c] @ drop (Suc p) s"
    by (simp add: i(2) take_add)
  finally have "count_list s c = count_list (take p s @ [c] @ drop (Suc p) s) c" by simp
  then show ?thesis by simp
qed

function tab_loop :: "string \<Rightarrow> nat \<Rightarrow> string" where
  "tab_loop tmp pos =
     (case find_from tmp [TAB] pos of None \<Rightarrow> tmp
      | Some p \<Rightarrow> tab_loop (take p tmp @ ''    '' @ drop (p + 1) tmp) (p + 4))"
  by pat_completeness auto
termination
  by (relation "measure (\<lambda>(tmp, pos). count_list tmp TAB)") (auto dest: count_list_split)

declare tab_loop.simps [simp del]

text \<open>Lines 32--36: a newline is removed if it is the only one.\<close>

definition remove_single_nl :: "string \<Rightarrow> string" where
  "remove_single_nl tmp =
     (case find_sub [NL] tmp of None \<Rightarrow> tmp
      | Some pos \<Rightarrow>
          if rfind_sub [NL] tmp = Some pos then take pos tmp @ drop (pos + 1) tmp else tmp)"

text \<open>Lines 40--43: every occurrence of the token becomes a tilde, searching from the
  replacement itself.\<close>

partial_function (option) token_loop :: "string \<Rightarrow> string \<Rightarrow> nat \<Rightarrow> string option" where
  "token_loop token tmp start =
     (case find_from tmp token start of None \<Rightarrow> Some tmp
      | Some p \<Rightarrow> token_loop token (take p tmp @ ''~'' @ drop (p + length token) tmp) p)"

text \<open>Lines 46--54: the fields between runs of tildes. When no tilde follows, \<open>end + 1\<close>
  wraps to 0 and the loop is left by its \<open>break\<close>.\<close>

function split_loop :: "string \<Rightarrow> string list" where
  "split_loop tmp =
     (case find_idx (\<lambda>c. c \<noteq> CHR ''~'') tmp of None \<Rightarrow> []
      | Some start \<Rightarrow>
          (let tmp1 = drop start tmp in
           case find_idx (\<lambda>c. c = CHR ''~'') tmp1 of None \<Rightarrow> [tmp1]
           | Some e \<Rightarrow> take e tmp1 # split_loop (drop (e + 1) tmp1)))"
  by pat_completeness auto
termination
  by (relation "measure length") (auto simp: find_idx_Some)

declare split_loop.simps [simp del]

definition StrProc_ctor :: "string \<Rightarrow> string \<Rightarrow> string list option" where
  "StrProc_ctor in_str token =
     map_option split_loop (token_loop token (remove_single_nl (tab_loop in_str 0)) 0)"

text \<open>The collection as the clients see it, for tokens on which the constructor returns.\<close>

definition str_coll :: "string \<Rightarrow> string \<Rightarrow> string list" where
  "str_coll in_str token = the (StrProc_ctor in_str token)"

section \<open>Access: \<open>get(int)\<close>, \<open>get(int, int)\<close>\<close>

text \<open>A negative index converts to a huge \<open>size_t\<close> and so reads as out of range.\<close>

definition str_get :: "string list \<Rightarrow> int \<Rightarrow> string" where
  "str_get coll i = (if i < 0 \<or> int (length coll) \<le> i then [] else coll ! nat i)"

function get_loop :: "string list \<Rightarrow> nat \<Rightarrow> nat \<Rightarrow> string" where
  "get_loop coll i e =
     (if i < e \<and> i < length coll then coll ! i @ '' '' @ get_loop coll (Suc i) e else [])"
  by pat_completeness auto
termination by (relation "measure (\<lambda>(coll, i, e). e - i)") auto

declare get_loop.simps [simp del]

definition str_get_range :: "string list \<Rightarrow> int \<Rightarrow> int \<Rightarrow> string" where
  "str_get_range coll start e =
     (if start < 0 \<or> int (length coll) \<le> start then []
      else let tmp = get_loop coll (nat start) (nat e) in take (length tmp - 1) tmp)"

section \<open>The loops compute the reference definitions\<close>

lemma find_from_append [simp]:
  "find_from (d @ r) t (length d) = map_option (\<lambda>i. length d + i) (find_sub t r)"
  by (simp add: find_from_def)

lemma tab_loop_eq: "tab_loop (d @ r) (length d) = d @ replace_all [TAB] ''    '' r"
proof (induction "length r" arbitrary: d r rule: less_induct)
  case less
  show ?case
  proof (cases "find_sub [TAB] r")
    case None
    then show ?thesis by (subst tab_loop.simps) (simp add: replace_all_find_None)
  next
    case (Some i)
    let ?d = "d @ take i r @ ''    ''" and ?r = "drop (Suc i) r"
    have i: "Suc i \<le> length r" using find_sub_Some_bound[OF Some] by simp
    have "tab_loop (d @ r) (length d) = tab_loop (?d @ ?r) (length ?d)"
      using Some i by (subst tab_loop.simps) (simp add: eval_nat_numeral)
    also have "\<dots> = ?d @ replace_all [TAB] ''    '' ?r" using i by (intro less) simp
    finally show ?thesis using replace_all_find_Some[OF Some] by simp
  qed
qed

lemma tab_loop_0: "tab_loop s 0 = replace_all [TAB] ''    '' s"
  using tab_loop_eq[of "[]" s] by simp

lemma remove_single_nl_id: "NL \<notin> set s \<Longrightarrow> remove_single_nl s = s"
  by (simp add: remove_single_nl_def find_sub_single find_idx_None option.case_eq_if)

lemma remove_single_nl_one:
  "NL \<notin> set u \<Longrightarrow> NL \<notin> set v \<Longrightarrow> remove_single_nl (u @ NL # v) = u @ v"
proof -
  assume u: "NL \<notin> set u" and v: "NL \<notin> set v"
  have "find_sub [NL] (u @ NL # v) = Some (length u)" using find_sub_first[OF u, of "[]" v] by simp
  moreover have "rfind_sub [NL] (u @ NL # v) = Some (length u)"
    using v by (induction u) (auto simp: rfind_sub_single find_last_idx_None split: option.splits)
  ultimately show ?thesis by (simp add: remove_single_nl_def)
qed

lemma remove_single_nl_many: "2 \<le> count_list s NL \<Longrightarrow> remove_single_nl s = s"
proof (rule ccontr)
  assume many: "2 \<le> count_list s NL" and "remove_single_nl s \<noteq> s"
  then obtain p where p: "find_idx (\<lambda>x. x = NL) s = Some p" "find_last_idx (\<lambda>x. x = NL) s = Some p"
    by (auto simp: remove_single_nl_def find_sub_single rfind_sub_single split: option.splits if_splits)
  have "NL \<notin> set (take p s)" using find_idx_takeWhile[OF p(1)] by (auto dest: set_takeWhileD)
  moreover have "NL \<notin> set (drop (Suc p) s)"
    using find_last_idx_after[OF p(2)] by (auto simp: in_set_conv_nth)
  moreover have "count_list s NL = Suc (count_list (take p s) NL + count_list (drop (Suc p) s) NL)"
    by (rule count_list_split[of _ _ 0]) (simp add: find_sub_single p)
  ultimately show False using many by (simp add: count_list_0_iff)
qed

lemma tilde_kept: "CHR ''~'' \<in> set (remove_single_nl (tab_loop s 0)) \<longleftrightarrow> CHR ''~'' \<in> set s"
proof -
  have rm: "CHR ''~'' \<in> set (remove_single_nl t) \<longleftrightarrow> CHR ''~'' \<in> set t" for t
  proof (cases "count_list t NL")
    case 0
    then show ?thesis by (simp add: remove_single_nl_id count_list_0_iff)
  next
    case (Suc n)
    then have "NL \<in> set t" using count_list_0_iff by (metis nat.distinct(1))
    then obtain u v where t: "t = u @ NL # v" "NL \<notin> set u" by (meson split_list_first)
    show ?thesis
    proof (cases "NL \<in> set v")
      case True
      then have "2 \<le> count_list t NL"
        using t by (simp add: Suc_le_eq) (metis count_list_0_iff neq0_conv)
      then show ?thesis by (simp add: remove_single_nl_many)
    qed (simp add: t remove_single_nl_one)
  qed
  show ?thesis unfolding rm tab_loop_0 by (auto simp: replace_all_single split: if_splits)
qed

lemma token_loop_tilde:
  "tok \<noteq> [] \<Longrightarrow> CHR ''~'' \<notin> set tok \<Longrightarrow>
     token_loop tok (d @ CHR ''~'' # r) (length d) =
     token_loop tok ((d @ ''~'') @ r) (length (d @ ''~''))"
proof -
  assume "tok \<noteq> []" "CHR ''~'' \<notin> set tok"
  then have "\<not> prefix tok (CHR ''~'' # r)" by (cases tok) auto
  then have "find_from (d @ CHR ''~'' # r) tok (length d) =
      find_from ((d @ ''~'') @ r) tok (length (d @ ''~''))"
    by (cases "find_sub tok r") (simp_all only: find_from_append, auto)
  then show ?thesis
    by (subst (1 2) token_loop.simps) (simp only: append_assoc append_Cons append_Nil)
qed

lemma token_loop_eq:
  assumes "tok \<noteq> []" and "CHR ''~'' \<notin> set tok"
  shows "token_loop tok (d @ r) (length d) = Some (d @ replace_all tok ''~'' r)"
proof (induction "length r" arbitrary: d r rule: less_induct)
  case less
  show ?case
  proof (cases "find_sub tok r")
    case None
    then show ?thesis by (subst token_loop.simps) (simp add: replace_all_find_None)
  next
    case (Some i)
    let ?d = "d @ take i r" and ?r = "drop (i + length tok) r"
    have i: "i + length tok \<le> length r" using find_sub_Some_bound[OF Some] .
    have "token_loop tok (d @ r) (length d) = token_loop tok (?d @ CHR ''~'' # ?r) (length ?d)"
      using Some i by (subst token_loop.simps) simp
    also have "\<dots> = Some ((?d @ ''~'') @ replace_all tok ''~'' ?r)"
      unfolding token_loop_tilde[OF assms] using i assms(1) by (intro less) (cases tok; simp)
    finally show ?thesis using replace_all_find_Some[OF Some assms(1)] by simp
  qed
qed

lemma split_loop_eq: "split_loop s = nonempty_fields (CHR ''~'') s"
proof (induction s rule: split_loop.induct)
  case (1 s)
  show ?case
  proof (cases "find_idx (\<lambda>c. c \<noteq> CHR ''~'') s")
    case None
    then have "nonempty_fields (CHR ''~'') s = []"
      by (simp add: find_idx_None nonempty_fields_all)
    then show ?thesis using None by (subst split_loop.simps) simp
  next
    case (Some st)
    let ?t = "drop st s"
    have pre: "nonempty_fields (CHR ''~'') s = nonempty_fields (CHR ''~'') ?t"
      using Some by (induction s arbitrary: st) (auto split: if_splits)
    show ?thesis
    proof (cases "find_idx (\<lambda>c. c = CHR ''~'') ?t")
      case None
      have "?t \<noteq> []" using Some by (simp add: find_idx_Some)
      then have "nonempty_fields (CHR ''~'') ?t = [?t]"
        using None nonempty_fields_last[of "CHR ''~''" ?t] by (auto simp: find_idx_None)
      moreover have "split_loop s = [?t]" by (subst split_loop.simps) (simp add: Some None)
      ultimately show ?thesis using pre by simp
    next
      case e: (Some e)
      have el: "e < length ?t" "?t ! e = CHR ''~''" "\<forall>j<e. ?t ! j \<noteq> CHR ''~''"
        using e by (auto simp: find_idx_Some)
      have tl: "CHR ''~'' \<notin> set (take e ?t)"
        using find_idx_takeWhile[OF e] by (auto dest: set_takeWhileD)
      have "?t = take e ?t @ CHR ''~'' # drop (e + 1) ?t"
        using el(1,2) id_take_nth_drop by (metis Suc_eq_plus1)
      then have "nonempty_fields (CHR ''~'') ?t =
          (if take e ?t = [] then [] else [take e ?t]) @ nonempty_fields (CHR ''~'') (drop (e + 1) ?t)"
        using nonempty_fields_skip[OF tl] by metis
      moreover have "take e ?t \<noteq> []"
        using Some el by (cases e) (auto simp: find_idx_Some)
      moreover have "split_loop s = take e ?t # split_loop (drop (e + 1) ?t)"
        by (subst split_loop.simps) (simp add: Some e)
      ultimately show ?thesis using pre 1[OF Some refl e] by simp
    qed
  qed
qed

section \<open>Properties\<close>

lemma token_loop_shrinks:
  assumes "2 \<le> length tok"
  shows "\<exists>y. token_loop tok tmp start = Some y"
proof (induction "length tmp" arbitrary: tmp start rule: less_induct)
  case less
  show ?case
  proof (cases "find_from tmp tok start")
    case None
    then show ?thesis by (subst token_loop.simps) simp
  next
    case (Some p)
    then have "length (take p tmp @ ''~'' @ drop (p + length tok) tmp) < length tmp"
      using assms find_from_bound[OF Some] by (simp; arith)
    then show ?thesis using less Some by (subst token_loop.simps) simp
  qed
qed

lemma token_loop_diverges:
  assumes "token_loop tok tmp start = Some y"
  shows "start \<le> length tmp \<longrightarrow> tok \<noteq> [] \<and> (tok = ''~'' \<longrightarrow> CHR ''~'' \<notin> set (drop start tmp))"
proof (rule token_loop.raw_induct[where P = "\<lambda>tok tmp start y. start \<le> length tmp \<longrightarrow>
      tok \<noteq> [] \<and> (tok = ''~'' \<longrightarrow> CHR ''~'' \<notin> set (drop start tmp))", OF _ assms], intro impI)
  fix f :: "string \<Rightarrow> string \<Rightarrow> nat \<Rightarrow> string option" and tok tmp start y
  assume IH: "\<And>tok tmp start y. f tok tmp start = Some y \<Longrightarrow> start \<le> length tmp \<longrightarrow>
      tok \<noteq> [] \<and> (tok = ''~'' \<longrightarrow> CHR ''~'' \<notin> set (drop start tmp))"
    and eq: "(case find_from tmp tok start of None \<Rightarrow> Some tmp
      | Some p \<Rightarrow> f tok (take p tmp @ ''~'' @ drop (p + length tok) tmp) p) = Some y"
    and le: "start \<le> length tmp"
  show "tok \<noteq> [] \<and> (tok = ''~'' \<longrightarrow> CHR ''~'' \<notin> set (drop start tmp))"
  proof (cases "find_from tmp tok start")
    case None
    then have "find_sub tok (drop start tmp) = None" using le by (simp add: find_from_def)
    then show ?thesis using find_sub_here[of "[]" "drop start tmp"]
      by (auto simp: find_sub_single find_idx_None)
  next
    case (Some p)
    let ?tmp = "take p tmp @ ''~'' @ drop (p + length tok) tmp"
    have p: "p \<le> length ?tmp" "p \<le> length tmp" using find_from_bound[OF Some] by auto
    have "f tok ?tmp p = Some y" using eq Some by simp
    from IH[OF this] p have "tok \<noteq> []" "tok = ''~'' \<longrightarrow> CHR ''~'' \<notin> set (drop p ?tmp)" by auto
    then show ?thesis using p by auto
  qed
qed

text \<open>C28: the exact condition under which constructing a \<open>StrProc\<close> ends. The loop that
  replaces the token by a tilde runs forever on an empty token, which matches everywhere, and
  on the token \<open>~\<close> itself when the text contains one, since the replacement is found again;
  for every other text and token, among them the tokens the server splits on, the constructor
  returns.\<close>

theorem StrProc_ctor_returns_iff:
  "(\<exists>xs. StrProc_ctor s tok = Some xs) \<longleftrightarrow>
     tok \<noteq> [] \<and> (tok = ''~'' \<longrightarrow> CHR ''~'' \<notin> set s)" (is "?l \<longleftrightarrow> ?r")
proof -
  let ?t = "remove_single_nl (tab_loop s 0)"
  have mem: "CHR ''~'' \<in> set ?t \<longleftrightarrow> CHR ''~'' \<in> set s" by (rule tilde_kept)
  have "(\<exists>y. token_loop tok ?t 0 = Some y) \<longleftrightarrow> ?r" (is "?m \<longleftrightarrow> _")
  proof
    assume ?m
    then show ?r using token_loop_diverges[of tok ?t 0] mem by auto
  next
    assume r: ?r
    show ?m
    proof (cases "CHR ''~'' \<in> set tok")
      case False
      then show ?thesis using token_loop_eq[of tok "[]" ?t] r by auto
    next
      case tilde: True
      show ?thesis
      proof (cases "tok = ''~''")
        case True
        then have "find_from ?t tok 0 = None"
          using r mem by (simp add: find_sub_absent)
        then show ?thesis by (subst token_loop.simps) simp
      next
        case False
        then have "2 \<le> length tok" using tilde by (cases tok; cases "tl tok") auto
        then show ?thesis by (rule token_loop_shrinks)
      qed
    qed
  qed
  then show ?thesis by (auto simp: StrProc_ctor_def)
qed

theorem StrProc_ctor_returns_iff_witness:
  "(\<exists>xs. StrProc_ctor ''show%3Aversion'' ''%3A'' = Some xs) \<and>
   \<not> (\<exists>xs. StrProc_ctor ''a~b'' ''~'' = Some xs) \<and> \<not> (\<exists>xs. StrProc_ctor ''a b'' [] = Some xs)"
  unfolding StrProc_ctor_returns_iff by simp

text \<open>On the tokens of the sources the constructor computes a replace-then-split.\<close>

lemma StrProc_ctor_spec:
  assumes "tok \<noteq> []" and "CHR ''~'' \<notin> set tok"
  shows "StrProc_ctor s tok = Some (nonempty_fields (CHR ''~'')
    (replace_all tok ''~'' (remove_single_nl (replace_all [TAB] ''    '' s))))"
  using token_loop_eq[OF assms, of "[]"]
  by (simp add: StrProc_ctor_def tab_loop_0 split_loop_eq)

lemmas str_coll_spec = StrProc_ctor_spec [THEN arg_cong [where f = the], unfolded option.sel,
  folded str_coll_def]

definition clean_field :: "string \<Rightarrow> string \<Rightarrow> bool" where
  "clean_field tok x \<longleftrightarrow> x \<noteq> [] \<and> list_all (\<lambda>c. c \<notin> set [TAB, NL, CHR ''~'', hd tok]) x"

lemma clean_fieldD:
  "clean_field tok x \<Longrightarrow> x \<noteq> [] \<and> TAB \<notin> set x \<and> NL \<notin> set x \<and> CHR ''~'' \<notin> set x \<and> hd tok \<notin> set x"
  by (auto simp: clean_field_def list_all_iff)

lemma fields_of_join:
  assumes "tok \<noteq> []" and "\<forall>x \<in> set xs. clean_field tok x"
  shows "nonempty_fields (CHR ''~'') (replace_all tok ''~'' (join tok xs)) = xs"
  using assms(2)
proof (induction xs)
  case (Cons x xs)
  obtain h t where tok: "tok = h # t" using assms(1) by (cases tok) auto
  have x: "x \<noteq> []" "CHR ''~'' \<notin> set x" "h \<notin> set x"
    using Cons.prems clean_fieldD[of tok x] tok by auto
  show ?case
  proof (cases xs)
    case Nil
    then show ?thesis using x tok by (simp add: replace_all_id nonempty_fields_last)
  next
    case (Cons y ys)
    have "replace_all tok ''~'' (join tok (x # xs)) =
        x @ CHR ''~'' # replace_all tok ''~'' (join tok xs)"
      using x(3) Cons replace_all_skip[of h x t] replace_all_here[of tok] tok by simp
    then show ?thesis using x Cons.IH Cons.prems by (simp add: nonempty_fields_skip)
  qed
qed (simp add: nonempty_fields_def)

lemma join_set: "set (join tok xs) \<subseteq> set tok \<union> \<Union> (set ` set xs)"
  by (induction tok xs rule: join.induct) auto

text \<open>
  Round trip: fields that are not empty and contain neither a tab, a newline, a tilde nor
  the first character of the token are recovered from their concatenation with the
  token between them, also when the line ends with its newline.
\<close>

lemma StrProc_join:
  assumes "tok \<noteq> []" and "set tok \<inter> {TAB, NL, CHR ''~''} = {}"
    and "\<forall>x \<in> set xs. clean_field tok x"
  shows "StrProc_ctor (join tok xs) tok = Some xs \<and> StrProc_ctor (join tok xs @ [NL]) tok = Some xs"
proof -
  have no: "TAB \<notin> set (join tok xs)" "NL \<notin> set (join tok xs)"
    using assms(2,3) join_set[of tok xs] clean_fieldD by (fastforce)+
  then have "replace_all [TAB] ''    '' (join tok xs) = join tok xs"
    "replace_all [TAB] ''    '' (join tok xs @ [NL]) = join tok xs @ [NL]"
    by (simp_all add: replace_all_id)
  moreover have "remove_single_nl (join tok xs @ [NL]) = join tok xs"
    using remove_single_nl_one[of _ "[]"] no by simp
  moreover have "CHR ''~'' \<notin> set tok" using assms(2) by auto
  ultimately show ?thesis
    using fields_of_join[OF assms(1,3)] no assms(1)
    by (simp add: StrProc_ctor_spec remove_single_nl_id)
qed

lemma get_loop_eq:
  "get_loop coll i e = concat (map (\<lambda>x. x @ '' '') (take (e - i) (drop i coll)))"
proof (induction coll i e rule: get_loop.induct)
  case (1 coll i e)
  show ?case
  proof (cases "i < e \<and> i < length coll")
    case True
    then have "take (e - i) (drop i coll) = coll ! i # take (e - Suc i) (drop (Suc i) coll)"
      by (simp add: Cons_nth_drop_Suc[symmetric] take_Cons' Suc_diff_Suc)
    with True 1 show ?thesis by (subst get_loop.simps) simp
  next
    case False
    then show ?thesis by (subst get_loop.simps) auto
  qed
qed

lemma join_space: "take (length (concat (map (\<lambda>x. x @ '' '') xs)) - 1) (concat (map (\<lambda>x. x @ '' '') xs)) = join '' '' xs"
proof (induction xs rule: induct_list012)
  case (3 x y zs)
  let ?r = "concat (map (\<lambda>x. x @ '' '') (y # zs))"
  have "?r \<noteq> []" by simp
  then have "length (concat (map (\<lambda>x. x @ '' '') (x # y # zs))) - 1 = length x + 1 + (length ?r - 1)"
    by (cases ?r) auto
  then show ?case using 3 by (simp only: list.map concat.simps take_append) simp
qed auto

lemma str_get_range_join:
  "0 \<le> a \<Longrightarrow> a < int (length coll) \<Longrightarrow>
     str_get_range coll a b = join '' '' (take (nat b - nat a) (drop (nat a) coll))"
  by (simp add: str_get_range_def Let_def get_loop_eq join_space[unfolded One_nat_def])

lemma str_get_simps [simp]:
  "str_get [] i = []"
  "str_get (x # xs) 0 = x"
  "0 < i \<Longrightarrow> str_get (x # xs) i = str_get xs (i - 1)"
  by (auto simp: str_get_def nth_Cons' nat_diff_distrib)

text \<open>The reference definition of splitting: the words of a text between the tokens.\<close>

definition split_words :: "string \<Rightarrow> string \<Rightarrow> string list" where
  "split_words tok s = nonempty_fields (CHR ''~'')
     (replace_all tok ''~'' (remove_single_nl (replace_all [TAB] ''    '' s)))"

text \<open>C27: splitting agrees with a reference definition. For a token without a tilde, the
  loops of the constructor compute: widen tabs to four spaces, drop the newline if there is
  exactly one, replace the token by a tilde at every place scanning from the left, and keep the
  fields between the tildes that are not empty. \<open>get(a, b)\<close> with a first index inside the
  result gives the words from the first index up to, not including, the second, one space
  between each.\<close>

theorem split_reference:
  assumes "tok \<noteq> []" and "CHR ''~'' \<notin> set tok"
  shows "StrProc_ctor s tok = Some (split_words tok s) \<and>
    (0 \<le> a \<and> a < int (length (split_words tok s)) \<longrightarrow>
       str_get_range (str_coll s tok) a b =
         join '' '' (take (nat b - nat a) (drop (nat a) (split_words tok s))))"
  using assms by (simp add: StrProc_ctor_spec str_get_range_join str_coll_spec split_words_def)

theorem split_reference_witness:
  "StrProc_ctor (''set  interfaces eth0'' @ [NL]) '' '' = Some [''set'', ''interfaces'', ''eth0''] \<and>
   str_get_range (str_coll (''set  interfaces eth0'' @ [NL]) '' '') 1 3 = ''interfaces eth0''"
  using split_reference[of "'' ''" "''set  interfaces eth0'' @ [NL]" 1 3]
  by (simp add: split_words_def nonempty_fields_def remove_single_nl_def find_sub.simps rfind_sub.simps)

end
