(* ===== verification/Cpp_Numbers.thy ===== *)
theory Cpp_Numbers
  imports Cpp_Prelude
begin

text \<open>
  Printing and parsing of machine integers as the sources use them: decimal printing
  (\<open>operator<<\<close>, \<open>%d\<close>, \<open>%ld\<close>), \<open>%.8lX\<close>, and the C parsers \<open>strtoul\<close> (base 10),
  \<open>strtoull\<close> (base 0) and \<open>strtol\<close> (base 10) with their white space, sign and saturation
  rules on 64-bit values. Unsigned values are \<open>nat\<close> below \<open>2 ^ 64\<close>.
\<close>

section \<open>Digits\<close>

definition dec_digit :: "nat \<Rightarrow> char" where "dec_digit d = ''0123456789'' ! d"
definition hex_digit :: "nat \<Rightarrow> char" where "hex_digit d = ''0123456789ABCDEF'' ! d"

definition dec_val :: "char \<Rightarrow> nat option" where
  "dec_val c = find_idx (\<lambda>x. x = c) ''0123456789''"

definition hex_val :: "char \<Rightarrow> nat option" where
  "hex_val c =
     (case find_idx (\<lambda>x. x = c) ''0123456789ABCDEF'' of Some d \<Rightarrow> Some d
      | None \<Rightarrow> find_idx (\<lambda>x. x = c) ''0123456789abcdef'')"

definition oct_val :: "char \<Rightarrow> nat option" where
  "oct_val c = find_idx (\<lambda>x. x = c) ''01234567''"

lemma dec_table: "list_all (\<lambda>d. dec_val (dec_digit d) = Some d \<and> dec_digit d \<in> set ''0123456789'') [0..<10]"
  by code_simp

lemma hex_table:
  "list_all (\<lambda>d. hex_val (hex_digit d) = Some d \<and> hex_digit d \<in> set ''0123456789ABCDEF'') [0..<16]"
  by code_simp

lemma dec_val_digit [simp]: "d < 10 \<Longrightarrow> dec_val (dec_digit d) = Some d"
  using dec_table by (simp add: list_all_iff del: upt_rec_numeral)

lemma hex_val_digit [simp]: "d < 16 \<Longrightarrow> hex_val (hex_digit d) = Some d"
  using hex_table by (simp add: list_all_iff del: upt_rec_numeral)

lemma dec_digit_set: "d < 10 \<Longrightarrow> dec_digit d \<in> set ''0123456789''"
  using dec_table by (simp add: list_all_iff del: upt_rec_numeral set_simps)

lemma hex_digit_set: "d < 16 \<Longrightarrow> hex_digit d \<in> set ''0123456789ABCDEF''"
  using hex_table by (simp add: list_all_iff del: upt_rec_numeral set_simps)

section \<open>Printing\<close>

fun dec :: "nat \<Rightarrow> string" where
  "dec n = (if n < 10 then [dec_digit n] else dec (n div 10) @ [dec_digit (n mod 10)])"

declare dec.simps [simp del]

definition int_dec :: "int \<Rightarrow> string" where
  "int_dec i = (if i < 0 then CHR ''-'' # dec (nat (- i)) else dec (nat i))"

text \<open>\<open>sprintf("%ld", x)\<close> of an unsigned 64-bit \<open>x\<close>: the bits read as signed.\<close>

definition fmt_ld :: "64 word \<Rightarrow> string" where
  "fmt_ld w = int_dec (sint w)"

text \<open>Exactly \<open>k\<close> hexadecimal digits of \<open>n\<close>, most significant first.\<close>

fun hex_fixed :: "nat \<Rightarrow> nat \<Rightarrow> string" where
  "hex_fixed 0 n = []"
| "hex_fixed (Suc k) n = hex_fixed k (n div 16) @ [hex_digit (n mod 16)]"

section \<open>Parsing\<close>

definition is_space :: "char \<Rightarrow> bool" where
  "is_space c \<longleftrightarrow> c \<in> set [CHR '' '', TAB, NL, CHR 0x0B, CHR 0x0C, CR]"

fun parse_digits :: "(char \<Rightarrow> nat option) \<Rightarrow> nat \<Rightarrow> nat \<Rightarrow> string \<Rightarrow> nat" where
  "parse_digits val b acc [] = acc"
| "parse_digits val b acc (c # s) =
     (case val c of None \<Rightarrow> acc | Some d \<Rightarrow> parse_digits val b (acc * b + d) s)"

fun parse_sign :: "string \<Rightarrow> bool \<times> string" where
  "parse_sign [] = (False, [])"
| "parse_sign (c # s) =
     (if c = CHR ''-'' then (True, s) else if c = CHR ''+'' then (False, s) else (False, c # s))"

abbreviation ULONG_MAX :: nat where "ULONG_MAX \<equiv> 2 ^ 64 - 1"

definition to_ulong :: "bool \<Rightarrow> nat \<Rightarrow> nat" where
  "to_ulong neg v =
     (if ULONG_MAX < v then ULONG_MAX else if neg then (2 ^ 64 - v) mod 2 ^ 64 else v)"

definition strtoul10 :: "string \<Rightarrow> nat" where
  "strtoul10 s =
     (case parse_sign (dropWhile is_space (c_str s)) of
        (neg, u) \<Rightarrow> to_ulong neg (parse_digits dec_val 10 0 u))"

text \<open>Base 0: a \<open>0x\<close> prefix followed by a hexadecimal digit, a leading \<open>0\<close>, or decimal.\<close>

definition strtoull0 :: "string \<Rightarrow> nat" where
  "strtoull0 s =
     (case parse_sign (dropWhile is_space (c_str s)) of
        (neg, u) \<Rightarrow>
          to_ulong neg
           (if (prefix ''0x'' u \<or> prefix ''0X'' u) \<and> 2 < length u \<and> hex_val (u ! 2) \<noteq> None
            then parse_digits hex_val 16 0 (drop 2 u)
            else if prefix ''0'' u then parse_digits oct_val 8 0 u
            else parse_digits dec_val 10 0 u))"

definition strtol10 :: "string \<Rightarrow> int" where
  "strtol10 s =
     (case parse_sign (dropWhile is_space (c_str s)) of
        (neg, u) \<Rightarrow>
          let v = int (parse_digits dec_val 10 0 u); i = (if neg then - v else v)
          in max (- (2 ^ 63)) (min (2 ^ 63 - 1) i))"

section \<open>Round trips\<close>

lemma dec_set: "set (dec n) \<subseteq> set ''0123456789''"
proof (induction n rule: dec.induct)
  case (1 n)
  have "set (dec n) \<subseteq> set ''0123456789''" if "n < 10"
    using dec_digit_set[OF that] that by (subst dec.simps) simp
  moreover have "set (dec n) \<subseteq> set ''0123456789''" if "\<not> n < 10"
    using 1[OF that] dec_digit_set[of "n mod 10"] that by (subst dec.simps) simp
  ultimately show ?case by blast
qed

lemma dec_nonempty [simp]: "dec n \<noteq> []"
  by (subst dec.simps) simp

lemma parse_digits_append:
  "\<forall>c \<in> set u. val c \<noteq> None \<Longrightarrow>
     parse_digits val b acc (u @ v) = parse_digits val b (parse_digits val b acc u) v"
  by (induction u arbitrary: acc) (auto split: option.splits)

lemma dec_val_dec: "c \<in> set (dec n) \<Longrightarrow> dec_val c \<noteq> None"
  using dec_set[of n] by (auto simp: dec_val_def find_idx_None)

lemma parse_dec: "parse_digits dec_val 10 0 (dec n) = n"
proof (induction n rule: dec.induct)
  case (1 n)
  show ?case
  proof (cases "n < 10")
    case True
    then show ?thesis by (subst dec.simps) simp
  next
    case False
    have "parse_digits dec_val 10 0 (dec (n div 10) @ [dec_digit (n mod 10)]) = n"
      using 1[OF False] dec_val_dec by (subst parse_digits_append) auto
    with False show ?thesis by (subst dec.simps) simp
  qed
qed

lemma dec_inject: "dec m = dec n \<longleftrightarrow> m = n"
  using parse_dec by metis

lemma dec_hd: "\<exists>c r. dec n = c # r \<and> c \<in> set ''0123456789''"
  using dec_nonempty[of n] dec_set[of n] by (cases "dec n") (simp_all del: dec_nonempty set_simps, simp)

lemma dec_strip: "parse_sign (dropWhile is_space (dec n)) = (False, dec n)"
proof -
  obtain c r where "dec n = c # r" "c \<in> set ''0123456789''" using dec_hd by blast
  then show ?thesis by (auto simp: is_space_def)
qed

lemma dec_c_str [simp]: "c_str (dec n) = dec n"
  using dec_set[of n] by (intro c_str_id) auto

lemma strtoul10_dec: "n < 2 ^ 64 \<Longrightarrow> strtoul10 (dec n) = n"
  by (simp add: strtoul10_def dec_strip parse_dec to_ulong_def)

lemma strtol10_int_dec: "- (2 ^ 63) \<le> i \<Longrightarrow> i < 2 ^ 63 \<Longrightarrow> strtol10 (int_dec i) = i"
  by (auto simp: strtol10_def int_dec_def dec_strip parse_dec is_space_def min_def max_def)

lemma strtol10_fmt_ld: "strtol10 (fmt_ld w) = sint w"
  using sint_ge[of w] sint_less[of w] by (simp add: fmt_ld_def strtol10_int_dec)

lemma strtoul10_bound: "strtoul10 s < 2 ^ 64"
  by (auto simp: strtoul10_def to_ulong_def split: prod.splits)

lemma strtoull0_bound: "strtoull0 s < 2 ^ 64"
  by (auto simp: strtoull0_def to_ulong_def split: prod.splits)

lemma hex_fixed_length [simp]: "length (hex_fixed k n) = k"
  by (induction k arbitrary: n) auto

lemma hex_fixed_set: "set (hex_fixed k n) \<subseteq> set ''0123456789ABCDEF''"
  using hex_digit_set by (induction k arbitrary: n) auto

lemma hex_val_hex_fixed: "c \<in> set (hex_fixed k n) \<Longrightarrow> hex_val c \<noteq> None"
  by (induction k arbitrary: n) auto

lemma parse_hex_fixed: "parse_digits hex_val 16 0 (hex_fixed k n) = n mod 16 ^ k"
proof (induction k arbitrary: n)
  case (Suc k)
  have "parse_digits hex_val 16 0 (hex_fixed (Suc k) n) = 16 * (n div 16 mod 16 ^ k) + n mod 16"
  proof -
    have "\<forall>c \<in> set (hex_fixed k (n div 16)). hex_val c \<noteq> None" using hex_val_hex_fixed by blast
    from parse_digits_append[OF this] show ?thesis by (simp add: Suc.IH)
  qed
  also have "\<dots> = n mod (16 * 16 ^ k)" by (simp only: mod_mult2_eq)
  finally show ?case by simp
qed simp

lemma strtoull0_hex:
  assumes "\<forall>c \<in> set h. hex_val c \<noteq> None" and "h \<noteq> []" and "NUL \<notin> set h"
    and "parse_digits hex_val 16 0 h < 2 ^ 64"
  shows "strtoull0 (''0x'' @ h) = parse_digits hex_val 16 0 h"
  using assms by (cases h) (auto simp: strtoull0_def is_space_def c_str_id to_ulong_def)

lemma dec_length: "n < 10 ^ k \<Longrightarrow> 0 < k \<Longrightarrow> length (dec n) \<le> k"
proof (induction n arbitrary: k rule: dec.induct)
  case (1 n)
  show ?case
  proof (cases "n < 10")
    case True
    then show ?thesis using 1 by (subst dec.simps) simp
  next
    case False
    then obtain j where k: "k = Suc j" "0 < j" using 1 by (cases k; cases "k - 1") auto
    then have "n div 10 < 10 ^ j" using 1 by simp
    then have "length (dec (n div 10)) \<le> j" using 1(1)[OF False] k by blast
    then show ?thesis using False k by (subst dec.simps) simp
  qed
qed

lemma int_dec_length: "\<bar>i\<bar> < 10 ^ k \<Longrightarrow> 0 < k \<Longrightarrow> length (int_dec i) \<le> Suc k"
proof -
  assume i: "\<bar>i\<bar> < 10 ^ k" "0 < k"
  have "nat i < 10 ^ k" "nat (- i) < 10 ^ k" using i by (simp_all add: nat_less_iff)
  then show ?thesis using dec_length[of "nat i" k] dec_length[of "nat (- i)" k] i
    by (auto simp: int_dec_def)
qed

lemma fmt_ld_length: "length (fmt_ld w) \<le> 20"
proof -
  have "\<bar>sint w\<bar> < 10 ^ 19" using sint_ge[of w] sint_less[of w] by simp
  then show ?thesis using int_dec_length[of "sint w" 19] by (simp add: fmt_ld_def)
qed

lemma fmt_ld_nonempty [simp]: "fmt_ld w \<noteq> []"
  by (simp add: fmt_ld_def int_dec_def)

lemma fmt_ld_set: "set (fmt_ld w) \<subseteq> insert (CHR ''-'') (set ''0123456789'')"
proof -
  have "set (CHR ''-'' # dec n) \<subseteq> insert (CHR ''-'') (set ''0123456789'')"
    "set (dec n) \<subseteq> insert (CHR ''-'') (set ''0123456789'')" for n
    using dec_set[of n] unfolding list.set(2)[of "CHR ''-''" "dec n"] by blast+
  then show ?thesis unfolding fmt_ld_def int_dec_def by (simp only: split: if_splits) blast
qed

text \<open>\<open>strtoul\<close> negates what follows a sign, so it also reads back numbers printed as
  negative.\<close>

lemma strtoul10_fmt_ld: "of_nat (strtoul10 (fmt_ld w)) = w"
proof (cases "sint w < 0")
  case True
  let ?v = "nat (- sint w)"
  have v: "?v \<le> 2 ^ 63" "0 < ?v" using True sint_ge[of w] by simp_all
  have "strtoul10 (fmt_ld w) = (2 ^ 64 - ?v) mod 2 ^ 64"
    using v True by (simp add: fmt_ld_def int_dec_def strtoul10_def is_space_def parse_dec to_ulong_def)
  also have "\<dots> = 2 ^ 64 - ?v" using v by simp
  finally have "of_nat (strtoul10 (fmt_ld w)) = (of_nat (2 ^ 64 - ?v) :: 64 word)" by simp
  also have "\<dots> = of_nat (2 ^ 64) - of_nat ?v" using v by (intro of_nat_diff) simp
  also have "\<dots> = of_int (sint w)" using True by simp
  finally show ?thesis by simp
next
  case False
  have lt: "nat (sint w) < 2 ^ 64" using False sint_less[of w] by simp
  have "strtoul10 (fmt_ld w) = nat (sint w)"
    using False strtoul10_dec[OF lt] by (simp add: fmt_ld_def int_dec_def)
  then have "(of_nat (strtoul10 (fmt_ld w)) :: 64 word) = of_int (sint w)" using False by simp
  then show ?thesis by simp
qed

end
