(* ===== verification/Rest_Common.thy ===== *)
theory Rest_Common
  imports Str_Proc Cpp_Numbers
begin

text \<open>
  \<open>common.cc\<close> and \<open>common.hh\<close>: the constants and static helpers of class \<open>Rest\<close>.
  What the helpers reach outside the program is a parameter: the decoder
  \<open>curl_easy_unescape\<close> (None is a null result), \<open>popen\<close>, the random device, the
  directory listing of \<open>/tmp\<close>, the result of writing a file. Files are a map from path
  to contents.
\<close>

named_theorems rest_consts \<open>the constants of class Rest\<close>

section \<open>Constants\<close>

definition REST_SERVER_VERSION :: string where [rest_consts]: "REST_SERVER_VERSION = ''0.3''"
definition JSON_INPUT :: string where [rest_consts]: "JSON_INPUT = ''/tmp/json_input''"
definition MAX_BODY_SIZE :: nat where [rest_consts]: "MAX_BODY_SIZE = 33554432"
definition CONF_REQ_ROOT :: string where [rest_consts]: "CONF_REQ_ROOT = ''/rest/conf''"
definition OP_REQ_ROOT :: string where [rest_consts]: "OP_REQ_ROOT = ''/rest/op''"
definition APP_REQ_ROOT :: string where [rest_consts]: "APP_REQ_ROOT = ''/rest/app''"
definition PERM_REQ_ROOT :: string where [rest_consts]: "PERM_REQ_ROOT = ''/rest/perm''"
definition SERVICE_REQ_ROOT :: string where [rest_consts]: "SERVICE_REQ_ROOT = ''/rest/service''"
definition AUTH_BASIC :: string where [rest_consts]: "AUTH_BASIC = ''Basic''"
definition AUTH_VYATTA_SESSION :: string where [rest_consts]: "AUTH_VYATTA_SESSION = ''Vyatta-Session''"
definition AUTH_VYATTA_PATH_LOC :: string where [rest_consts]: "AUTH_VYATTA_PATH_LOC = ''vyatta2_path_loc''"
definition PRAGMA_NO_VYATTA_SESSION_UPDATE :: string where
  [rest_consts]: "PRAGMA_NO_VYATTA_SESSION_UPDATE = ''no-vyatta-session-update''"
definition PRAGMA_SERVICE_USER :: string where [rest_consts]: "PRAGMA_SERVICE_USER = ''vyatta-service-user''"
definition CONFIG_TMP_DIR :: string where [rest_consts]: "CONFIG_TMP_DIR = ''/tmp/''"
definition LOCAL_CHANGES_ONLY :: string where [rest_consts]: "LOCAL_CHANGES_ONLY = ''/rw/''"
definition LOCAL_CONFIG_DIR :: string where [rest_consts]: "LOCAL_CONFIG_DIR = ''/u/''"
definition CONF_COMMAND_DIR :: string where
  [rest_consts]: "CONF_COMMAND_DIR = ''/opt/vyatta/share/vyatta-cfg/templates''"
definition SERVICE_COMMAND_DIR :: string where
  [rest_consts]: "SERVICE_COMMAND_DIR = ''/opt/vyatta/share/vyatta-service/templates''"
definition CHUNKER_RESP_TOK_DIR :: string where
  [rest_consts]: "CHUNKER_RESP_TOK_DIR = ''/opt/vyatta/tmp/webgui2/''"
definition CHUNKER_RESP_TOK_BASE :: string where [rest_consts]: "CHUNKER_RESP_TOK_BASE = ''multi_''"
definition CHUNKER_RESP_PID :: string where [rest_consts]: "CHUNKER_RESP_PID = ''/tmp''"
definition CHUNKER_READ_SIZE :: nat where [rest_consts]: "CHUNKER_READ_SIZE = 98304"
definition VYATTA_MODIFY_FILE :: string where
  [rest_consts]: "VYATTA_MODIFY_FILE = CONFIG_TMP_DIR @ ''.vyattamodify_''"

datatype node_type = NONE | TEXT | IPV4 | IPV4NET | IPV6 | IPV6NET | U32 | BOOL | MACADDR

fun g_type_str :: "node_type \<Rightarrow> string" where
  "g_type_str NONE = ''none''"
| "g_type_str TEXT = ''text''"
| "g_type_str IPV4 = ''ipv4''"
| "g_type_str IPV4NET = ''ipv4net''"
| "g_type_str IPV6 = ''ipv6''"
| "g_type_str IPV6NET = ''ipv6net''"
| "g_type_str U32 = ''u32''"
| "g_type_str BOOL = ''bool''"
| "g_type_str MACADDR = ''macaddr''"

section \<open>Timer and \<open>ulltostring\<close>\<close>

text \<open>What the destructor of \<open>Timer\<close> reports for a start and an end \<open>timeval\<close>
  (seconds, microseconds), in \<open>unsigned long\<close> arithmetic.\<close>

definition timer_elapsed :: "nat \<times> nat \<Rightarrow> nat \<times> nat \<Rightarrow> 64 word \<times> 64 word" where
  "timer_elapsed st en =
     (let usecs = of_int \<bar>int (snd st) - int (snd en)\<bar>;
          secs = of_nat (fst en) - of_nat (fst st)
      in if snd en \<le> snd st then (secs - 1, 1000000 - usecs) else (secs, usecs))"

definition ulltostring :: "nat \<Rightarrow> string" where
  "ulltostring n = dec n"

section \<open>\<open>execute\<close>\<close>

text \<open>
  \<open>popen\<close> is a parameter: None when it fails, otherwise the lines \<open>getline\<close> returns and
  the wait status of \<open>pclose\<close>. A status is an exit when its low seven bits are zero.
\<close>

definition WIFEXITED :: "nat \<Rightarrow> bool" where "WIFEXITED st \<longleftrightarrow> st mod 128 = 0"
definition WEXITSTATUS :: "nat \<Rightarrow> nat" where "WEXITSTATUS st = st div 256 mod 256"

definition execute :: "(string \<Rightarrow> (string list \<times> nat) option) \<Rightarrow> string \<Rightarrow> string \<Rightarrow> bool \<Rightarrow> nat \<times> string" where
  "execute popen cmd stdout rd =
     (case popen (c_str cmd) of None \<Rightarrow> (0, stdout)
      | Some (ls, st) \<Rightarrow>
          (if WIFEXITED st then WEXITSTATUS st else st,
           if rd then stdout @ concat (map (\<lambda>l. c_str l @ '' '') ls) else stdout))"

section \<open>\<open>mass_replace\<close> and \<open>trim\<close>\<close>

partial_function (option) mass_replace_loop ::
    "string \<Rightarrow> string \<Rightarrow> string \<Rightarrow> nat \<Rightarrow> nat \<Rightarrow> string option" where
  "mass_replace_loop victim replacement answer j offset =
     (case find_from answer victim (j + offset) of None \<Rightarrow> Some answer
      | Some j' \<Rightarrow>
          mass_replace_loop victim replacement
            (take j' answer @ replacement @ drop (j' + length victim) answer)
            j' (length replacement))"

definition mass_replace_opt :: "string \<Rightarrow> string \<Rightarrow> string \<Rightarrow> string option" where
  "mass_replace_opt source victim replacement = mass_replace_loop victim replacement source 0 0"

text \<open>The value at the call sites, all of which have a non-empty victim.\<close>

definition mass_replace :: "string \<Rightarrow> string \<Rightarrow> string \<Rightarrow> string" where
  "mass_replace source victim replacement = the (mass_replace_opt source victim replacement)"

definition blank :: "char \<Rightarrow> bool" where
  "blank c \<longleftrightarrow> c = CHR '' '' \<or> c = TAB"

definition trim :: "string \<Rightarrow> string" where
  "trim src =
     (case (find_idx (\<lambda>c. \<not> blank c) src, find_last_idx (\<lambda>c. \<not> blank c) src) of
        (Some startpos, Some endpos) \<Rightarrow> take (endpos - startpos + 1) (drop startpos src)
      | _ \<Rightarrow> [])"

section \<open>\<open>generate_token\<close>\<close>

text \<open>
  \<open>attempts n\<close> is the \<open>n\<close>-th \<open>fopen("/dev/urandom")\<close>: None when it fails, else the
  bytes \<open>fgetc\<close> delivers before end of file. The byte is stored in a (signed) \<open>char\<close>
  before it is compared with \<open>EOF\<close>, so the byte 255 reads as the end of the file. Four
  bytes form a little-endian 32-bit value.
\<close>

fun read_byte :: "nat list \<Rightarrow> (nat \<times> nat list) option" where
  "read_byte [] = None"
| "read_byte (b # bs) = (if b = 255 then None else Some (b, bs))"

definition read_word :: "nat list \<Rightarrow> (nat \<times> nat list) option" where
  "read_word s0 =
     (case read_byte s0 of None \<Rightarrow> None | Some (b0, s1) \<Rightarrow>
     (case read_byte s1 of None \<Rightarrow> None | Some (b1, s2) \<Rightarrow>
     (case read_byte s2 of None \<Rightarrow> None | Some (b2, s3) \<Rightarrow>
     (case read_byte s3 of None \<Rightarrow> None | Some (b3, s4) \<Rightarrow>
        Some (b0 + 2 ^ 8 * b1 + 2 ^ 16 * b2 + 2 ^ 24 * b3, s4)))))"

partial_function (option) generate_token_loop ::
    "(nat \<Rightarrow> nat list option) \<Rightarrow> nat \<Rightarrow> nat \<Rightarrow> string option" where
  "generate_token_loop attempts n ct =
     (if ct = 0 then Some []
      else case attempts n of
        None \<Rightarrow> generate_token_loop attempts (Suc n) (ct - 1)
      | Some s \<Rightarrow>
          (case read_word s of None \<Rightarrow> generate_token_loop attempts (Suc n) ct
           | Some (id1, s') \<Rightarrow>
               (case read_word s' of None \<Rightarrow> generate_token_loop attempts (Suc n) ct
                | Some (id2, _) \<Rightarrow> Some (hex_fixed 8 id1 @ hex_fixed 8 id2))))"

definition generate_token :: "(nat \<Rightarrow> nat list option) \<Rightarrow> string option" where
  "generate_token attempts = generate_token_loop attempts 0 5"

text \<open>The session number the configuration daemon sees for a token.\<close>

definition conv_conf_id :: "string \<Rightarrow> string" where
  "conv_conf_id cid = ulltostring (strtoull0 (''0x'' @ cid))"

section \<open>The per-session description files\<close>

type_synonym files = "string \<Rightarrow> string option"

text \<open>How writing a file ends: not opened; a failed write that leaves some bytes; done.\<close>

datatype write_outcome = W_no_open | W_fail string | W_ok

definition create_conf_modify_file ::
    "write_outcome \<Rightarrow> files \<Rightarrow> string \<Rightarrow> string \<Rightarrow> string \<Rightarrow> bool \<times> files" where
  "create_conf_modify_file wr fs cid user description =
     (let file = c_str (VYATTA_MODIFY_FILE @ cid);
          str = user @ ''/'' @ description
      in case wr of
           W_no_open \<Rightarrow> (False, fs)
         | W_fail part \<Rightarrow> (False, fs(file \<mapsto> part))
         | W_ok \<Rightarrow> (True, fs(file \<mapsto> c_str str)))"

text \<open>\<open>fgets\<close> of at most \<open>n - 1\<close> characters up to and including the first newline;
  None at the end of the file.\<close>

definition fgets :: "nat \<Rightarrow> string \<Rightarrow> string option" where
  "fgets n s =
     (if s = [] then None
      else let l = takeWhile (\<lambda>c. c \<noteq> NL) s; line = (if length l < length s then l @ [NL] else l)
           in Some (take (n - 1) line))"

text \<open>The result is the returned flag with the new values of the \<open>user\<close> and \<open>description\<close>
  references.\<close>

definition read_conf_modify_file ::
    "files \<Rightarrow> string \<Rightarrow> string \<times> string \<Rightarrow> bool \<times> string \<times> string" where
  "read_conf_modify_file fs cid ud =
     (case fs (c_str (VYATTA_MODIFY_FILE @ cid)) of
        None \<Rightarrow> (False, ud)
      | Some content \<Rightarrow>
          (case fgets CHUNKER_READ_SIZE content of
             None \<Rightarrow> (True, ud)
           | Some buf \<Rightarrow>
               (let str = c_str buf in
                case find_sub ''/'' str of
                  None \<Rightarrow> (False, ud)
                | Some pos \<Rightarrow> (True, take pos str, drop (pos + 1) str))))"

text \<open>The directory entries in the order \<open>readdir\<close> gives them.\<close>

fun conf_tag_scan :: "files \<Rightarrow> string \<Rightarrow> string \<Rightarrow> string list \<Rightarrow> string option" where
  "conf_tag_scan fs tag user [] = None"
| "conf_tag_scan fs tag user (d_name # ds) =
     (if length d_name < 22 then conf_tag_scan fs tag user ds
      else
        (let f_id = drop 14 d_name;
             (_, f_user, f_tag) = read_conf_modify_file fs f_id ([], [])
         in if f_tag \<noteq> [] \<and> tag = f_tag \<and> f_user = user then Some f_id
            else conf_tag_scan fs tag user ds))"

text \<open>\<open>entries\<close> is None when \<open>opendir\<close> fails. The result is the returned flag and the new
  value of the \<open>id\<close> reference.\<close>

definition read_conf_modify_file_from_tag ::
    "string list option \<Rightarrow> files \<Rightarrow> string \<Rightarrow> string \<Rightarrow> string \<Rightarrow> bool \<times> string" where
  "read_conf_modify_file_from_tag entries fs tag user cid =
     (case entries of None \<Rightarrow> (False, cid)
      | Some ds \<Rightarrow>
          (case conf_tag_scan fs tag user ds of Some f_id \<Rightarrow> (True, f_id) | None \<Rightarrow> (False, cid)))"

section \<open>\<open>translate_rest_to_cli\<close>\<close>

text \<open>The three quoting cases of one decoded component.\<close>

definition quote_arg :: "string \<Rightarrow> string" where
  "quote_arg t =
     (if t \<noteq> [] \<and> hd t = APOS \<and> last t = APOS then CHR '' '' # t
      else if t \<noteq> [] \<and> hd t = QUOTE \<and> last t = QUOTE
        then '' '' @ [APOS] @ take (length t - 2) (drop 1 t) @ [APOS]
      else '' '' @ [APOS] @ t @ [APOS])"

function translate_loop ::
    "(string \<Rightarrow> string option) \<Rightarrow> string \<Rightarrow> nat \<Rightarrow> nat \<Rightarrow> string \<Rightarrow> (string \<times> nat \<times> nat) res" where
  "translate_loop unescape in_cmd ct old_pos cmd =
     (case find_from in_cmd ''/'' (old_pos + 1) of
        None \<Rightarrow> Inr (cmd, ct, old_pos)
      | Some cur_pos \<Rightarrow>
          (case unescape (take (cur_pos - (old_pos + 1)) (drop (old_pos + 1) in_cmd)) of
             None \<Rightarrow> Inl NullString
           | Some tok \<Rightarrow>
               translate_loop unescape in_cmd (ct + 1) cur_pos
                 (if ct = 0 then take cur_pos in_cmd else cmd @ quote_arg (c_str tok))))"
  by pat_completeness auto
termination
  by (relation "measure (\<lambda>(u, s, ct, old, cmd). length s - old)") (auto dest!: find_from_bound)

declare translate_loop.simps [simp del]

definition translate_rest_to_cli :: "(string \<Rightarrow> string option) \<Rightarrow> string \<Rightarrow> string res" where
  "translate_rest_to_cli unescape in_cmd =
     bind_res (translate_loop unescape in_cmd 0 0 []) (\<lambda>(cmd, ct, old_pos).
       if 0 < ct then
         bind_res (substr in_cmd (old_pos + 1) None) (\<lambda>t.
           case unescape t of None \<Rightarrow> Inl NullString
           | Some d \<Rightarrow> Inr (cmd @ quote_arg (c_str d)))
       else Inr cmd)"

section \<open>\<open>mkdir_p\<close>\<close>

text \<open>\<open>mkdir\<close> is a parameter acting on an abstract directory state.\<close>

datatype mkdir_result = Mk_ok | Mk_ENOENT | Mk_error

function mkdir_p :: "('w \<Rightarrow> string \<Rightarrow> mkdir_result \<times> 'w) \<Rightarrow> 'w \<Rightarrow> string \<Rightarrow> int \<times> 'w" where
  "mkdir_p mkdir w path =
     (case mkdir w path of
        (Mk_ok, w1) \<Rightarrow> (0, w1)
      | (Mk_error, w1) \<Rightarrow> (- 1, w1)
      | (Mk_ENOENT, w1) \<Rightarrow>
          (case find_last_idx (\<lambda>c. c = CHR ''/'') path of
             None \<Rightarrow> (- 1, w1)
           | Some slash \<Rightarrow>
               (case mkdir_p mkdir w1 (take slash path) of
                  (r, w2) \<Rightarrow>
                    if r = 0
                    then (case mkdir w2 path of
                            (Mk_ok, w3) \<Rightarrow> (0, w3) | (_, w3) \<Rightarrow> (- 1, w3))
                    else (r, w2))))"
  by pat_completeness auto
termination
  by (relation "measure (\<lambda>(m, w, p). length p)") (auto dest: find_last_idx_bound)

declare mkdir_p.simps [simp del]

section \<open>Lemmas: replacing and trimming\<close>

lemma mass_replace_loop_eq:
  assumes "v \<noteq> []"
  shows "j + off = length d \<Longrightarrow> mass_replace_loop v r (d @ s) j off = Some (d @ replace_all v r s)"
proof (induction "length s" arbitrary: d s j off rule: less_induct)
  case less
  show ?case
  proof (cases "find_sub v s")
    case None
    then show ?thesis using less.prems
      by (subst mass_replace_loop.simps) (simp add: replace_all_find_None)
  next
    case (Some i)
    let ?d = "d @ take i s @ r" and ?s = "drop (i + length v) s"
    have i: "i + length v \<le> length s" using find_sub_Some_bound[OF Some] .
    have "mass_replace_loop v r (d @ s) j off = mass_replace_loop v r (?d @ ?s) (length d + i) (length r)"
      using Some i less.prems by (subst mass_replace_loop.simps) simp
    also have "\<dots> = Some (?d @ replace_all v r ?s)"
      using i assms by (intro less(1)) (cases v; simp)+
    finally show ?thesis using replace_all_find_Some[OF Some assms] by simp
  qed
qed

lemma mass_replace_loop_empty:
  assumes "mass_replace_loop v r a j off = Some y"
  shows "v \<noteq> [] \<or> length a < j + off"
proof (rule mass_replace_loop.raw_induct[where P = "\<lambda>v r a j off y. v \<noteq> [] \<or> length a < j + off", OF _ assms])
  fix f :: "string \<Rightarrow> string \<Rightarrow> string \<Rightarrow> nat \<Rightarrow> nat \<Rightarrow> string option" and v r a j off y
  assume IH: "\<And>v r a j off y. f v r a j off = Some y \<Longrightarrow> v \<noteq> [] \<or> length a < j + off"
    and eq: "(case find_from a v (j + off) of None \<Rightarrow> Some a
      | Some j' \<Rightarrow> f v r (take j' a @ r @ drop (j' + length v) a) j' (length r)) = Some y"
  show "v \<noteq> [] \<or> length a < j + off"
  proof (rule ccontr)
    assume "\<not> (v \<noteq> [] \<or> length a < j + off)"
    then have v: "v = []" and le: "j + off \<le> length a" by auto
    have "find_from a v (j + off) = Some (j + off)"
      using le v find_sub_here[of "[]" "drop (j + off) a"] by (simp add: find_from_def)
    then have "f v r (take (j + off) a @ r @ drop (j + off) a) (j + off) (length r) = Some y"
      using eq v by simp
    from IH[OF this] v le show False by simp
  qed
qed

lemma mass_replace_opt_eq:
  "mass_replace_opt s v r = (if v = [] then None else Some (replace_all v r s))"
proof (cases "v = []")
  case True
  then show ?thesis
    using mass_replace_loop_empty[of v r s 0 0]
    by (cases "mass_replace_loop v r s 0 0") (auto simp: mass_replace_opt_def)
next
  case False
  then show ?thesis
    using mass_replace_loop_eq[of v 0 0 "[]"] by (simp add: mass_replace_opt_def)
qed

lemma mass_replace_eq [simp]: "v \<noteq> [] \<Longrightarrow> mass_replace s v r = replace_all v r s"
  by (simp add: mass_replace_def mass_replace_opt_eq)

lemma rev_dropWhile_rev_id: "xs \<noteq> [] \<Longrightarrow> \<not> P (last xs) \<Longrightarrow> rev (dropWhile P (rev xs)) = xs"
  by (cases xs rule: rev_cases) auto

lemma trim_eq: "trim s = rev (dropWhile blank (rev (dropWhile blank s)))"
proof (cases "\<forall>c \<in> set s. blank c")
  case True
  then show ?thesis
    by (auto simp: trim_def find_idx_None option.case_eq_if dest: set_dropWhileD)
next
  case False
  obtain a b where a: "find_idx (\<lambda>c. \<not> blank c) s = Some a"
    and b: "find_last_idx (\<lambda>c. \<not> blank c) s = Some b"
    using False by (metis find_idx_None find_last_idx_None option.exhaust)
  have b': "b < length s" "\<not> blank (s ! b)" using find_last_idx_bound[OF b] by auto
  have a': "a < length s" "\<forall>j<a. blank (s ! j)" using a by (auto simp: find_idx_Some)
  have ab: "a \<le> b" using a'(2) b'(2) by (meson not_le)
  have "drop a s = dropWhile blank s" using find_idx_takeWhile[OF a] by simp
  moreover have "drop a s = take (b - a + 1) (drop a s) @ drop (b + 1) s"
  proof -
    have "drop (b - a + 1) (drop a s) = drop (b + 1) s" using ab by simp
    then show ?thesis by (metis append_take_drop_id)
  qed
  moreover have "rev (dropWhile blank (rev (take (b - a + 1) (drop a s) @ drop (b + 1) s))) =
      take (b - a + 1) (drop a s)"
  proof -
    have "\<forall>c \<in> set (drop (b + 1) s). blank c"
      using find_last_idx_after[OF b] by (auto simp: in_set_conv_nth)
    moreover have "last (take (b - a + 1) (drop a s)) = s ! b" "take (b - a + 1) (drop a s) \<noteq> []"
      using ab b' by (auto simp: last_conv_nth)
    ultimately show ?thesis using b'(2) by (simp add: dropWhile_append rev_dropWhile_rev_id)
  qed
  ultimately show ?thesis using a b by (simp add: trim_def)
qed

section \<open>Lemmas: tokens\<close>

definition good_bytes :: "nat list \<Rightarrow> bool" where
  "good_bytes s \<longleftrightarrow> 8 \<le> length s \<and> list_all (\<lambda>b. b < 255) (take 8 s)"

definition le_word :: "nat list \<Rightarrow> nat" where
  "le_word bs = bs ! 0 + 2 ^ 8 * bs ! 1 + 2 ^ 16 * bs ! 2 + 2 ^ 24 * bs ! 3"

text \<open>The token made of eight random bytes.\<close>

definition token_of :: "nat list \<Rightarrow> string" where
  "token_of s = hex_fixed 8 (le_word s) @ hex_fixed 8 (le_word (drop 4 s))"

lemma le_word_simps [simp]:
  "le_word (b0 # b1 # b2 # b3 # r) = b0 + 2 ^ 8 * b1 + 2 ^ 16 * b2 + 2 ^ 24 * b3"
  by (simp add: le_word_def)

lemma read_word_eq:
  "read_word s = (if 4 \<le> length s \<and> 255 \<notin> set (take 4 s) then Some (le_word s, drop 4 s) else None)"
proof (cases "4 \<le> length s")
  case True
  then obtain b0 b1 b2 b3 r where "s = b0 # b1 # b2 # b3 # r"
    by (auto simp: eval_nat_numeral Suc_le_length_iff)
  then show ?thesis by (auto simp: read_word_def)
next
  case False
  then have "s = [] \<or> (\<exists>a. s = [a]) \<or> (\<exists>a b. s = [a, b]) \<or> (\<exists>a b c. s = [a, b, c])"
    by (cases s; cases "tl s"; cases "tl (tl s)"; cases "tl (tl (tl s))") auto
  with False show ?thesis by (auto simp: read_word_def)
qed

lemma le_word_bound: "list_all (\<lambda>b. b < 256) (take 4 s) \<Longrightarrow> 4 \<le> length s \<Longrightarrow> le_word s < 2 ^ 32"
proof -
  assume b: "list_all (\<lambda>b. b < 256) (take 4 s)" and "4 \<le> length s"
  then obtain b0 b1 b2 b3 r where s: "s = b0 # b1 # b2 # b3 # r"
    by (auto simp: eval_nat_numeral Suc_le_length_iff)
  with b have "b0 < 256" "b1 < 256" "b2 < 256" "b3 < 256" by simp_all
  then show ?thesis by (simp add: s)
qed

text \<open>One attempt: a token, or none and the loop goes on.\<close>

definition attempt_token :: "nat list option \<Rightarrow> string option" where
  "attempt_token a =
     (case a of None \<Rightarrow> None
      | Some s \<Rightarrow> if 8 \<le> length s \<and> 255 \<notin> set (take 8 s) then Some (token_of s) else None)"

lemma generate_token_step:
  "generate_token_loop attempts n (Suc ct) =
     (case attempt_token (attempts n) of Some t \<Rightarrow> Some t
      | None \<Rightarrow> generate_token_loop attempts (Suc n) (if attempts n = None then ct else Suc ct))"
proof (cases "attempts n")
  case None
  then show ?thesis by (subst generate_token_loop.simps) (simp add: attempt_token_def)
next
  case (Some s)
  have set8: "set (take 8 s) = set (take 4 s) \<union> set (take 4 (drop 4 s))"
    using take_add[of 4 4 s] by simp
  have ok: "8 \<le> length s \<and> 255 \<notin> set (take 8 s) \<longleftrightarrow>
      (4 \<le> length s \<and> 255 \<notin> set (take 4 s)) \<and> 4 \<le> length (drop 4 s) \<and> 255 \<notin> set (take 4 (drop 4 s))"
  proof -
    have "8 \<le> length s \<longleftrightarrow> 4 \<le> length s \<and> 4 \<le> length (drop 4 s)" by (simp; arith)
    then show ?thesis by (simp only: set8 Un_iff de_Morgan_disj) blast
  qed
  show ?thesis
    by (subst generate_token_loop.simps)
      (simp add: Some attempt_token_def read_word_eq token_of_def ok del: length_drop drop_drop)
qed

lemma generate_token_loop_0 [simp]: "generate_token_loop attempts n 0 = Some []"
  by (subst generate_token_loop.simps) simp

text \<open>If an attempt delivers a token within reach of the failure budget, the loop returns one.\<close>

lemma generate_token_loop_returns:
  assumes "attempt_token (attempts m) \<noteq> None" and "n \<le> m"
    and "card {i. n \<le> i \<and> i < m \<and> attempts i = None} < ct"
  shows "\<exists>k. n \<le> k \<and> k \<le> m \<and> generate_token_loop attempts n ct = attempt_token (attempts k) \<and>
     attempt_token (attempts k) \<noteq> None"
  using assms(2,3)
proof (induction "m - n" arbitrary: n ct)
  case 0
  then obtain c where "n = m" "ct = Suc c" by (cases ct) auto
  then have "generate_token_loop attempts n ct = attempt_token (attempts m)"
    using assms(1) by (auto simp: generate_token_step[of attempts m c])
  with \<open>n = m\<close> assms(1) show ?case by blast
next
  case (Suc d)
  obtain c where ct: "ct = Suc c" using Suc.prems by (cases ct) auto
  show ?case
  proof (cases "attempt_token (attempts n)")
    case (Some t)
    then have "generate_token_loop attempts n ct = attempt_token (attempts n)"
      by (simp add: ct generate_token_step[of attempts n c])
    with Some Suc.prems(1) show ?thesis by auto
  next
    case None
    let ?S = "\<lambda>n. {i. n \<le> i \<and> i < m \<and> attempts i = None}"
    have nm: "n < m" using Suc.hyps(2) by simp
    have "card (?S n) = card (?S (Suc n)) + (if attempts n = None then 1 else 0)"
    proof (cases "attempts n = None")
      case True
      then have "?S n = insert n (?S (Suc n))" using nm by (auto simp: Suc_le_eq le_less)
      then have "card (?S n) = card (insert n (?S (Suc n)))" by simp
      also have "\<dots> = Suc (card (?S (Suc n)))" by (rule card_insert_disjoint) auto
      finally show ?thesis using True by simp
    next
      case False
      then have "?S n = ?S (Suc n)" by (auto simp: Suc_le_eq le_less)
      then show ?thesis using False by simp
    qed
    then have less: "card (?S (Suc n)) < (if attempts n = None then c else Suc c)"
      using Suc.prems(2) ct by (cases "attempts n") simp_all
    have "d = m - Suc n" "Suc n \<le> m" using Suc.hyps(2) nm by simp_all
    from Suc.hyps(1)[OF this less] obtain k where
      "Suc n \<le> k" "k \<le> m" "attempt_token (attempts k) \<noteq> None"
      "generate_token_loop attempts (Suc n) (if attempts n = None then c else Suc c) = attempt_token (attempts k)"
      by blast
    moreover have "generate_token_loop attempts n ct =
        generate_token_loop attempts (Suc n) (if attempts n = None then c else Suc c)"
      unfolding ct by (subst generate_token_step) (simp add: None)
    ultimately show ?thesis by (metis Suc_leD)
  qed
qed

lemma hex_fixed_Nil [simp]: "hex_fixed k n = [] \<longleftrightarrow> k = 0"
  by (cases k) auto

lemma hex_fixed_cong: "a mod 16 ^ k = b mod 16 ^ k \<Longrightarrow> hex_fixed k a = hex_fixed k b"
proof (induction k arbitrary: a b)
  case (Suc k)
  have m: "x mod 16 = x mod 16 ^ Suc k mod 16" for x :: nat
    by (rule mod_mod_cancel[symmetric]) simp
  have d: "x div 16 mod 16 ^ k = x mod 16 ^ Suc k div 16" for x :: nat
    by (simp add: mod_mult2_eq)
  show ?case using Suc.IH[of "a div 16" "b div 16"] Suc.prems m[of a] m[of b] d[of a] d[of b] by simp
qed simp

lemma hex_fixed_add: "hex_fixed (m + k) n = hex_fixed m (n div 16 ^ k) @ hex_fixed k n"
  by (induction k arbitrary: n) (auto simp: div_mult2_eq)

lemma token_of_hex16:
  assumes "le_word (drop 4 s) < 2 ^ 32"
  shows "token_of s = hex_fixed 16 (le_word s * 2 ^ 32 + le_word (drop 4 s))"
proof -
  let ?b = "le_word (drop 4 s)" and ?a = "le_word s"
  have "(?a * 2 ^ 32 + ?b) div 16 ^ 8 = ?a" using assms by simp
  moreover have "hex_fixed 8 (?a * 2 ^ 32 + ?b) = hex_fixed 8 ?b"
    by (rule hex_fixed_cong) simp
  ultimately show ?thesis
    using hex_fixed_add[of 8 8 "?a * 2 ^ 32 + ?b"] by (simp add: token_of_def)
qed

lemma conv_conf_id_token:
  assumes "good_bytes s"
  shows "conv_conf_id (token_of s) = dec (le_word s * 2 ^ 32 + le_word (drop 4 s))"
proof -
  let ?n = "le_word s * 2 ^ 32 + le_word (drop 4 s)"
  have len: "4 \<le> length s" "4 \<le> length (drop 4 s)" using assms by (auto simp: good_bytes_def)
  have b: "\<forall>b \<in> set (take 8 s). b < 255" using assms by (simp add: good_bytes_def list_all_iff)
  have "take 8 s = take 4 s @ take 4 (drop 4 s)" using take_add[of 4 4 s] by simp
  then have all: "\<forall>b \<in> set (take 4 s) \<union> set (take 4 (drop 4 s)). b < 255" using b by (metis set_append)
  have "b < 256" if "b \<in> set (take 4 s) \<union> set (take 4 (drop 4 s))" for b
    using bspec[OF all that] by arith
  then have "list_all (\<lambda>b. b < 256) (take 4 s)" "list_all (\<lambda>b. b < 256) (take 4 (drop 4 s))"
    unfolding list_all_iff by blast+
  then have w: "le_word s < 2 ^ 32" "le_word (drop 4 s) < 2 ^ 32"
    using le_word_bound len by blast+
  have n: "?n < 16 ^ 16"
  proof -
    have "le_word s * 2 ^ 32 + le_word (drop 4 s) < le_word s * 2 ^ 32 + 2 ^ 32" using w by simp
    also have "\<dots> = Suc (le_word s) * 2 ^ 32" by simp
    also have "\<dots> \<le> 2 ^ 32 * 2 ^ 32" using w by (intro mult_right_mono) auto
    finally show ?thesis by simp
  qed
  have "strtoull0 (''0x'' @ token_of s) = parse_digits hex_val 16 0 (token_of s)"
  proof (rule strtoull0_hex)
    show "NUL \<notin> set (token_of s)"
      using hex_fixed_set[of 16 ?n] by (auto simp: token_of_hex16[OF w(2)])
    show "parse_digits hex_val 16 0 (token_of s) < 2 ^ 64"
      using n by (simp add: token_of_hex16[OF w(2)] parse_hex_fixed)
    show "token_of s \<noteq> []"
      by (simp add: token_of_def)
  qed (use hex_val_hex_fixed in \<open>auto simp: token_of_def simp del: not_None_eq\<close>)
  also have "\<dots> = ?n" using n by (simp add: token_of_hex16[OF w(2)] parse_hex_fixed)
  finally show ?thesis by (simp add: conv_conf_id_def ulltostring_def)
qed

section \<open>Lemmas: description files\<close>

definition plain_text :: "string \<Rightarrow> bool" where
  "plain_text s \<longleftrightarrow> NL \<notin> set s \<and> NUL \<notin> set s"

lemma fgets_line: "s \<noteq> [] \<Longrightarrow> NL \<notin> set s \<Longrightarrow> length s < n \<Longrightarrow> fgets n s = Some s"
proof -
  assume s: "s \<noteq> []" "NL \<notin> set s" "length s < n"
  from s(2) have tw: "takeWhile (\<lambda>c. c \<noteq> NL) s = s"
    by (simp only: takeWhile_eq_all_conv) blast
  from s show ?thesis unfolding fgets_def Let_def tw by simp
qed

lemma create_read_conf_modify_file:
  assumes "create_conf_modify_file W_ok fs cid user desc = (True, fs')"
    and "plain_text user" and "plain_text desc" and "CHR ''/'' \<notin> set user"
    and "length user + length desc + 1 < CHUNKER_READ_SIZE"
  shows "read_conf_modify_file fs' cid ud = (True, user, desc)"
proof -
  let ?str = "user @ ''/'' @ desc"
  have "NL \<notin> set ?str" "NUL \<notin> set ?str" using assms(2,3) by (auto simp: plain_text_def)
  then have "c_str ?str = ?str" "fgets CHUNKER_READ_SIZE ?str = Some ?str"
    using assms(5) by (auto intro!: c_str_id fgets_line)
  moreover have "fs' = fs(c_str (VYATTA_MODIFY_FILE @ cid) \<mapsto> c_str ?str)"
    using assms(1) by (simp add: create_conf_modify_file_def Let_def)
  moreover have "find_sub ''/'' ?str = Some (length user)"
    using find_sub_first[OF assms(4), of "[]" desc] by simp
  ultimately show ?thesis by (simp add: read_conf_modify_file_def)
qed

lemma conf_tag_scan_sound:
  "conf_tag_scan fs tag user ds = Some f_id \<Longrightarrow>
     tag \<noteq> [] \<and> snd (read_conf_modify_file fs f_id ([], [])) = (user, tag) \<and>
     (\<exists>d \<in> set ds. 22 \<le> length d \<and> f_id = drop 14 d)"
  by (induction fs tag user ds rule: conf_tag_scan.induct)
    (auto simp: Let_def split: if_splits prod.splits)

lemma conf_tag_scan_complete:
  "d \<in> set ds \<Longrightarrow> 22 \<le> length d \<Longrightarrow> tag \<noteq> [] \<Longrightarrow>
     snd (read_conf_modify_file fs (drop 14 d) ([], [])) = (user, tag) \<Longrightarrow>
     conf_tag_scan fs tag user ds \<noteq> None"
proof (induction fs tag user ds rule: conf_tag_scan.induct)
  case (2 fs tag user e ds)
  show ?case
  proof (cases "d = e")
    case True
    then show ?thesis using 2 by (auto simp: Let_def split: prod.splits)
  next
    case False
    then show ?thesis using 2 by (auto simp: Let_def split: prod.splits)
  qed
qed simp

section \<open>Lemmas: translation of a request path\<close>

definition slash_free :: "string \<Rightarrow> bool" where
  "slash_free t \<longleftrightarrow> CHR ''/'' \<notin> set t"

definition translate_finish :: "(string \<Rightarrow> string option) \<Rightarrow> string \<Rightarrow> string \<times> nat \<times> nat \<Rightarrow> string res" where
  "translate_finish unescape in_cmd = (\<lambda>(cmd, ct, old_pos).
       if 0 < ct then
         bind_res (substr in_cmd (old_pos + 1) None) (\<lambda>t.
           case unescape t of None \<Rightarrow> Inl NullString
           | Some d \<Rightarrow> Inr (cmd @ quote_arg (c_str d)))
       else Inr cmd)"

lemma translate_rest_to_cli_alt:
  "translate_rest_to_cli u s = bind_res (translate_loop u s 0 0 []) (translate_finish u s)"
  by (simp add: translate_rest_to_cli_def translate_finish_def)

lemma translate_loop_tail:
  assumes "ts \<noteq> []" and "\<forall>t \<in> set ts. slash_free t \<and> u t = Some (de t)"
  shows "bind_res (translate_loop u (d @ CHR ''/'' # join ''/'' ts) (Suc ct) (length d) cmd)
      (translate_finish u (d @ CHR ''/'' # join ''/'' ts)) =
    Inr (cmd @ concat (map (\<lambda>t. quote_arg (c_str (de t))) ts))"
  using assms
proof (induction ts arbitrary: d ct cmd)
  case (Cons t ts)
  have t: "CHR ''/'' \<notin> set t" "u t = Some (de t)" using Cons.prems by (auto simp: slash_free_def)
  show ?case
  proof (cases ts)
    case Nil
    have "find_from (d @ CHR ''/'' # t) ''/'' (Suc (length d)) = None"
      using t(1) find_from_append[of "d @ ''/''" t "''/''"] by (simp add: find_sub_absent)
    then show ?thesis using Nil t
      by (subst translate_loop.simps) (simp add: translate_finish_def)
  next
    case (Cons t2 ts2)
    let ?s = "d @ CHR ''/'' # join ''/'' (t # ts)" and ?d = "d @ CHR ''/'' # t"
    have s: "?s = ?d @ CHR ''/'' # join ''/'' ts" using Cons by simp
    have "find_sub ''/'' (t @ CHR ''/'' # join ''/'' ts) = Some (length t)"
      using find_sub_first[OF t(1), of "[]" "join ''/'' ts"] by simp
    then have f: "find_from ?s ''/'' (length d + 1) = Some (length ?d)"
      using find_from_append[of "d @ ''/''" "t @ CHR ''/'' # join ''/'' ts" "''/''"] s by simp
    have "translate_loop u ?s (Suc ct) (length d) cmd =
        translate_loop u ?s (Suc (Suc ct)) (length ?d) (cmd @ quote_arg (c_str (de t)))"
      using f t(2) by (subst translate_loop.simps) (simp add: s)
    then show ?thesis using Cons.IH[of ?d "Suc ct"] Cons.prems Cons by (simp add: s)
  qed
qed simp

lemma translate_words:
  assumes "slash_free w" and "u w \<noteq> None" and "ts \<noteq> []"
    and "\<forall>t \<in> set ts. slash_free t \<and> u t = Some (de t)"
  shows "translate_rest_to_cli u (join ''/'' ((c # w) # ts)) =
    Inr ((c # w) @ concat (map (\<lambda>t. quote_arg (c_str (de t))) ts))"
proof -
  let ?s = "(c # w) @ CHR ''/'' # join ''/'' ts"
  have s: "join ''/'' ((c # w) # ts) = ?s" using assms(3) by (cases ts) auto
  have "find_sub ''/'' (w @ CHR ''/'' # join ''/'' ts) = Some (length w)"
    using find_sub_first[of "CHR ''/''" w "[]" "join ''/'' ts"] assms(1) by (simp add: slash_free_def)
  then have "find_from ?s ''/'' 1 = Some (length (c # w))"
    using find_from_append[of "[c]" "w @ CHR ''/'' # join ''/'' ts" "''/''"] by simp
  then have "translate_loop u ?s 0 0 [] = translate_loop u ?s (Suc 0) (length (c # w)) (c # w)"
    using assms(2) by (subst translate_loop.simps) auto
  then show ?thesis unfolding s translate_rest_to_cli_alt
    using translate_loop_tail[OF assms(3,4), of "c # w" 0 "c # w"] by simp
qed

lemma translate_single: "slash_free (drop 1 s) \<Longrightarrow> translate_rest_to_cli u s = Inr []"
proof -
  assume "slash_free (drop 1 s)"
  then have "find_from s ''/'' 1 = None"
    by (simp add: find_from_def slash_free_def find_sub_absent)
  then show ?thesis
    unfolding translate_rest_to_cli_alt by (subst translate_loop.simps) (simp add: translate_finish_def)
qed

text \<open>The characters of a command line that a shell reads outside single quotes.\<close>

fun unquoted :: "bool \<Rightarrow> string \<Rightarrow> string" where
  "unquoted q [] = []"
| "unquoted q (c # s) =
     (if c = APOS then unquoted (\<not> q) s else if q then unquoted q s else c # unquoted q s)"

lemma unquoted_inside: "APOS \<notin> set s \<Longrightarrow> unquoted q (s @ r) = (if q then [] else s) @ unquoted q r"
  by (induction s) auto

lemma unquoted_quote_arg:
  assumes "APOS \<notin> set t"
  shows "unquoted False (quote_arg t @ r) = CHR '' '' # unquoted False r"
proof -
  have "APOS \<notin> set (take (length t - 2) (drop 1 t))"
    using assms by (meson in_set_dropD in_set_takeD)
  moreover have "\<not> (t \<noteq> [] \<and> hd t = APOS \<and> last t = APOS)" using assms by (metis list.set_sel(1))
  ultimately show ?thesis using assms unquoted_inside[of _ True "APOS # r"]
    by (auto simp: quote_arg_def)
qed

lemma unquoted_args:
  "\<forall>t \<in> set ts. APOS \<notin> set (f t) \<Longrightarrow>
     unquoted False (concat (map (\<lambda>t. quote_arg (f t)) ts)) = replicate (length ts) (CHR '' '')"
  by (induction ts) (auto simp: unquoted_quote_arg)

section \<open>Properties\<close>

lemma attempt_token_wf:
  assumes "attempt_token a = Some t" and "\<forall>s. a = Some s \<longrightarrow> list_all (\<lambda>b. b < 256) s"
  shows "length t = 16 \<and> (\<exists>n < 2 ^ 64. conv_conf_id t = dec n)"
proof -
  from assms(1) obtain s where s: "a = Some s" "8 \<le> length s" "255 \<notin> set (take 8 s)" "t = token_of s"
    by (auto simp: attempt_token_def split: option.splits if_splits)
  have b: "\<forall>b \<in> set s. b < 256" using assms(2) s(1) by (simp add: list_all_iff)
  have "b < 255" if "b \<in> set (take 8 s)" for b
    using that s(3) b in_set_takeD[OF that] by (cases "b = 255") auto
  then have good: "good_bytes s" using s(2) by (simp add: good_bytes_def list_all_iff)
  have w: "le_word s < 2 ^ 32" "le_word (drop 4 s) < 2 ^ 32"
    by (rule le_word_bound; use b s(2) in \<open>auto simp: list_all_iff dest!: in_set_takeD in_set_dropD\<close>)+
  then have "le_word s * 2 ^ 32 + le_word (drop 4 s) < 2 ^ 64" by simp
  then show ?thesis using conv_conf_id_token[OF good] s(4)
    by (auto simp: token_of_def)
qed

text \<open>C29: a session token is produced. When the random device delivers eight bytes none of which
  is 255 at some attempt, and fewer than five of the attempts before it failed to open the
  device, \<open>generate_token\<close> returns; the token has sixteen characters and the number the
  configuration daemon is given for it is a decimal below 2 to the 64.\<close>

theorem token_delivered:
  assumes "attempts m = Some s" and "8 \<le> length s" and "255 \<notin> set (take 8 s)"
    and "card {i. i < m \<and> attempts i = None} < 5"
    and "\<forall>i bs. attempts i = Some bs \<longrightarrow> list_all (\<lambda>b. b < 256) bs"
  shows "\<exists>t n. generate_token attempts = Some t \<and> length t = 16 \<and> conv_conf_id t = dec n \<and> n < 2 ^ 64"
proof -
  have "attempt_token (attempts m) \<noteq> None" using assms(1-3) by (simp add: attempt_token_def)
  from generate_token_loop_returns[where n = 0 and ct = 5, of attempts m, OF this] assms(4) obtain k t where
    "generate_token attempts = Some t" "attempt_token (attempts k) = Some t"
    by (auto simp: generate_token_def)
  then show ?thesis using attempt_token_wf[of "attempts k" t] assms(5) by blast
qed

theorem token_delivered_witness:
  "\<exists>t n. generate_token (\<lambda>i. if i = 0 then None else Some [1, 2, 3, 4, 5, 6, 7, 8]) = Some t \<and>
     length t = 16 \<and> conv_conf_id t = dec n \<and> n < 2 ^ 64"
proof -
  have "{i::nat. i < 1 \<and> (if i = 0 then None else Some [1, 2, 3, 4, 5, 6, 7, 8::nat]) = None} = {0}" by auto
  then show ?thesis
    by (intro token_delivered[of _ 1 "[1, 2, 3, 4, 5, 6, 7, 8]"]) (auto split: if_splits)
qed

text \<open>C30: what is written about a session is found again. After the description file of a session
  is written, reading it by the session's token gives the same user and description, when both
  are single lines, the user name has no slash and the two fit the read buffer; and looking the
  description up among directory entries that contain the file's name gives a session of the
  same user with the same description, provided the description is not empty and the token has
  at least eight characters.\<close>

theorem conf_modify_roundtrip:
  assumes "create_conf_modify_file W_ok fs cid user desc = (True, fs')"
    and "plain_text user" and "plain_text desc" and "CHR ''/'' \<notin> set user"
    and "length user + length desc + 1 < CHUNKER_READ_SIZE"
  shows "read_conf_modify_file fs' cid ud = (True, user, desc) \<and>
    (desc \<noteq> [] \<and> 8 \<le> length cid \<and> ''.vyattamodify_'' @ cid \<in> set ds \<longrightarrow>
      (\<exists>f_id. read_conf_modify_file_from_tag (Some ds) fs' desc user old = (True, f_id) \<and>
         snd (read_conf_modify_file fs' f_id ([], [])) = (user, desc)))"
proof -
  note rd = create_read_conf_modify_file[OF assms]
  show ?thesis
  proof (intro conjI impI)
    show "read_conf_modify_file fs' cid ud = (True, user, desc)" by (rule rd)
  next
    assume d: "desc \<noteq> [] \<and> 8 \<le> length cid \<and> ''.vyattamodify_'' @ cid \<in> set ds"
    have "conf_tag_scan fs' desc user ds \<noteq> None"
      using d rd[of "([], [])"] conf_tag_scan_complete[of "''.vyattamodify_'' @ cid" ds desc fs' user]
      by (simp add: rest_consts)
    then obtain f_id where "conf_tag_scan fs' desc user ds = Some f_id" by blast
    then show "\<exists>f_id. read_conf_modify_file_from_tag (Some ds) fs' desc user old = (True, f_id) \<and>
         snd (read_conf_modify_file fs' f_id ([], [])) = (user, desc)"
      using conf_tag_scan_sound[of fs' desc user ds f_id] by (simp add: read_conf_modify_file_from_tag_def)
  qed
qed

theorem conf_modify_roundtrip_witness:
  "\<exists>fs' f_id. create_conf_modify_file W_ok (\<lambda>_. None) ''00AB34CD00AB34CD'' ''alice'' ''lab'' = (True, fs') \<and>
     read_conf_modify_file fs' ''00AB34CD00AB34CD'' ([], []) = (True, ''alice'', ''lab'') \<and>
     read_conf_modify_file_from_tag (Some [''.'', ''.vyattamodify_'' @ ''00AB34CD00AB34CD'']) fs' ''lab''
       ''alice'' [] = (True, f_id)"
proof -
  obtain fs' where c: "create_conf_modify_file W_ok (\<lambda>_. None) ''00AB34CD00AB34CD'' ''alice'' ''lab'' = (True, fs')"
    by (simp add: create_conf_modify_file_def)
  from conf_modify_roundtrip[OF c, of "([], [])" "[''.'', ''.vyattamodify_'' @ ''00AB34CD00AB34CD'']" "[]"]
  show ?thesis using c by (auto simp: plain_text_def rest_consts)
qed

end
