(* ===== verification/Http_Session.thy ===== *)
theory Http_Session
  imports Cpp_Map Rest_Common
begin

text \<open>
  \<open>http.hh\<close> and \<open>http.cc\<close>: the parameter collections of a request and a response, the
  session, the JSON builder and the error table. The JSON library that reformats a
  response body is a parameter \<open>json_norm\<close>: None when parsing or printing fails.
\<close>

section \<open>Keys\<close>

datatype KEY =
    HTTP_REQ_URI | HTTP_REQ_AUTHORIZATION | HTTP_REQ_COOKIE | HTTP_REQ_QUERY_STRING
  | HTTP_REQ_METHOD | HTTP_REQ_CONTENT_LENGTH | HTTP_REQ_VYATTA_SPECIFICATION_VERSION
  | HTTP_REQ_ACCEPT | HTTP_REQ_HOST | HTTP_REQ_PRAGMA | HTTP_RESP_DEBUG | HTTP_RESP_CODE
  | HTTP_RESP_WWWAUTH | HTTP_RESP_CONTENT_TYPE | HTTP_RESP_LOCATION | HTTP_RESP_COOKIE
  | HTTP_RESP_VYATTA_SPECIFICATION_VERSION | HTTP_RESP_CACHE_CONTROL
  | HTTP_RESP_CONTENT_DISPOSITION | HTTP_BODY

fun key_index :: "KEY \<Rightarrow> nat" where
  "key_index HTTP_REQ_URI = 0"
| "key_index HTTP_REQ_AUTHORIZATION = 1"
| "key_index HTTP_REQ_COOKIE = 2"
| "key_index HTTP_REQ_QUERY_STRING = 3"
| "key_index HTTP_REQ_METHOD = 4"
| "key_index HTTP_REQ_CONTENT_LENGTH = 5"
| "key_index HTTP_REQ_VYATTA_SPECIFICATION_VERSION = 6"
| "key_index HTTP_REQ_ACCEPT = 7"
| "key_index HTTP_REQ_HOST = 8"
| "key_index HTTP_REQ_PRAGMA = 9"
| "key_index HTTP_RESP_DEBUG = 10"
| "key_index HTTP_RESP_CODE = 11"
| "key_index HTTP_RESP_WWWAUTH = 12"
| "key_index HTTP_RESP_CONTENT_TYPE = 13"
| "key_index HTTP_RESP_LOCATION = 14"
| "key_index HTTP_RESP_COOKIE = 15"
| "key_index HTTP_RESP_VYATTA_SPECIFICATION_VERSION = 16"
| "key_index HTTP_RESP_CACHE_CONTROL = 17"
| "key_index HTTP_RESP_CONTENT_DISPOSITION = 18"
| "key_index HTTP_BODY = 19"

lemma key_index_inject: "key_index a = key_index b \<longleftrightarrow> a = b"
  by (cases a; cases b) simp_all

lemma key_index_le: "key_index k \<le> 19"
  by (cases k) simp_all

text \<open>The order of the enumeration, which is the iteration order of \<open>ParamColl\<close>.\<close>

instantiation KEY :: linorder
begin

definition less_eq_KEY :: "KEY \<Rightarrow> KEY \<Rightarrow> bool" where "a \<le> b \<longleftrightarrow> key_index a \<le> key_index b"
definition less_KEY :: "KEY \<Rightarrow> KEY \<Rightarrow> bool" where "a < b \<longleftrightarrow> key_index a < key_index b"

instance
  by standard (auto simp: less_eq_KEY_def less_KEY_def key_index_inject)

end

section \<open>Class \<open>HTTP\<close>\<close>

record HTTP =
  param_coll :: "(KEY \<times> string) list"
  http_debug :: bool
  verbatim_body :: bool

definition http_new :: "bool \<Rightarrow> HTTP" where
  "http_new d = \<lparr>param_coll = [], http_debug = d, verbatim_body = False\<rparr>"

definition http_get :: "HTTP \<Rightarrow> KEY \<Rightarrow> string" where
  "http_get h key = (case map_of (param_coll h) key of Some v \<Rightarrow> v | None \<Rightarrow> [])"

definition http_set :: "KEY \<Rightarrow> string \<Rightarrow> HTTP \<Rightarrow> HTTP" where
  "http_set key val h = h\<lparr>param_coll := map_put key val (param_coll h)\<rparr>"

text \<open>The overload for a C string, which may be null (\<open>getenv\<close>).\<close>

definition http_set_cstr :: "KEY \<Rightarrow> string option \<Rightarrow> HTTP \<Rightarrow> HTTP" where
  "http_set_cstr key val h = (case val of None \<Rightarrow> h | Some v \<Rightarrow> http_set key (c_str v) h)"

definition http_append :: "KEY \<Rightarrow> string \<Rightarrow> HTTP \<Rightarrow> HTTP" where
  "http_append key val h = http_set key (http_get h key @ '','' @ val) h"

definition http_erase :: "KEY \<Rightarrow> HTTP \<Rightarrow> HTTP" where
  "http_erase key h = h\<lparr>param_coll := map_erase key (param_coll h)\<rparr>"

abbreviation CRLF :: string where "CRLF \<equiv> [CR, NL]"

text \<open>The header line of a response parameter; the other keys print nothing here.\<close>

fun header_name :: "KEY \<Rightarrow> string option" where
  "header_name HTTP_RESP_DEBUG = Some ''vyatta-debug: ''"
| "header_name HTTP_RESP_WWWAUTH = Some ''WWW-Authenticate: ''"
| "header_name HTTP_RESP_CONTENT_TYPE = Some ''Content-Type: ''"
| "header_name HTTP_RESP_LOCATION = Some ''Location: ''"
| "header_name HTTP_RESP_COOKIE = Some ''Set-Cookie: ''"
| "header_name HTTP_RESP_CACHE_CONTROL = Some ''Cache-Control: ''"
| "header_name HTTP_RESP_CONTENT_DISPOSITION = Some ''Content-Disposition: ''"
| "header_name HTTP_RESP_VYATTA_SPECIFICATION_VERSION = Some ''Vyatta-Specification-Version: ''"
| "header_name _ = None"

definition reformat_body :: "(string \<Rightarrow> string option) \<Rightarrow> bool \<Rightarrow> string \<Rightarrow> string" where
  "reformat_body json_norm verbatim body =
     (if body \<noteq> [] \<and> \<not> verbatim
      then (case json_norm (c_str body) of Some b \<Rightarrow> c_str b | None \<Rightarrow> body)
      else body)"

fun serialize_loop :: "(string \<Rightarrow> string option) \<Rightarrow> bool \<Rightarrow> (KEY \<times> string) list \<Rightarrow> string \<times> string \<Rightarrow> string \<times> string" where
  "serialize_loop json_norm vb [] ob = ob"
| "serialize_loop json_norm vb ((k, v) # rest) (out, body) =
     serialize_loop json_norm vb rest
       (case header_name k of
          Some name \<Rightarrow> (out @ name @ v @ CRLF, body)
        | None \<Rightarrow>
            if k = HTTP_BODY
            then (let b = reformat_body json_norm vb v
                  in (out @ ''Content-Length: '' @ dec (length b) @ CRLF, b))
            else (out, body))"

text \<open>An oversized body is dropped from the collection and turns the status into 500.\<close>

definition http_serialize :: "(string \<Rightarrow> string option) \<Rightarrow> HTTP \<Rightarrow> string \<times> HTTP" where
  "http_serialize json_norm h =
     (let o1 = (case map_of (param_coll h) HTTP_RESP_CODE of
                  Some c \<Rightarrow> ''Status: '' @ c @ CRLF | None \<Rightarrow> []);
          (o2, h2) = (case map_of (param_coll h) HTTP_BODY of
                  Some b \<Rightarrow> if MAX_BODY_SIZE < length b
                            then (''Status: 500'' @ CRLF, http_set HTTP_BODY [] h) else (o1, h)
                | None \<Rightarrow> (o1, h));
          (o3, body) = serialize_loop json_norm (verbatim_body h2) (param_coll h2) (o2, [])
      in (if body \<noteq> [] then o3 @ CRLF @ body else o3 @ CRLF, h2))"

text \<open>\<open>HTTP::dump\<close>: a key without a case is appended as the character with its number.\<close>

fun dump_name :: "KEY \<Rightarrow> string" where
  "dump_name HTTP_REQ_URI = ''req: uri''"
| "dump_name HTTP_REQ_METHOD = ''req: request_method''"
| "dump_name HTTP_REQ_CONTENT_LENGTH = ''req: content_length''"
| "dump_name HTTP_REQ_AUTHORIZATION = ''req: authorization''"
| "dump_name HTTP_BODY = ''body''"
| "dump_name HTTP_RESP_DEBUG = ''resp: debug''"
| "dump_name HTTP_RESP_CODE = ''resp: resp_code''"
| "dump_name HTTP_RESP_CACHE_CONTROL = ''resp: cache_control''"
| "dump_name k = [char_of (key_index k)]"

definition http_dump :: "HTTP \<Rightarrow> string" where
  "http_dump h = concat (map (\<lambda>(k, v). dump_name k @ '':'' @ v @ CRLF) (param_coll h))"

section \<open>Class \<open>Session\<close>\<close>

datatype access_level = k_VYATTACFG | k_VYATTAOP | k_VYATTASERVICE_USER
datatype auth_access_type = AUTH_TYPE_NONE | AUTH_TYPE_BASIC | AUTH_TYPE_VYATTA_SESSION

record Session =
  s_debug :: bool
  request :: HTTP
  response :: HTTP
  s_user :: string
  s_access_level :: access_level
  service_user :: bool
  auth_type :: auth_access_type
  session_key :: string

definition session_new :: "bool \<Rightarrow> Session" where
  "session_new d = \<lparr>s_debug = d, request = http_new d, response = http_new d, s_user = [],
     s_access_level = k_VYATTAOP, service_user = False, auth_type = AUTH_TYPE_NONE,
     session_key = []\<rparr>"

abbreviation on_response :: "(HTTP \<Rightarrow> HTTP) \<Rightarrow> Session \<Rightarrow> Session" where
  "on_response f s \<equiv> s\<lparr>response := f (response s)\<rparr>"

abbreviation req_get :: "Session \<Rightarrow> KEY \<Rightarrow> string" where
  "req_get s k \<equiv> http_get (request s) k"

definition vyatta_debug :: "string \<Rightarrow> Session \<Rightarrow> Session" where
  "vyatta_debug dbgstr s =
     (if s_debug s then on_response (http_append HTTP_RESP_DEBUG dbgstr) s else s)"

section \<open>Class \<open>JSON\<close>\<close>

datatype JSON = JSON
  (json_coll: "(string \<times> JSON) list")
  (json_array: "(string \<times> string list) list")
  (json_value: "(string \<times> string) list")

definition json_new :: JSON where "json_new = JSON [] [] []"

text \<open>The element that is stored; \<open>add_array\<close> also writes it back to its reference argument,
  which no caller reads again.\<close>

definition array_elem :: "string \<Rightarrow> bool \<Rightarrow> string" where
  "array_elem val quoted = (if quoted then val else [QUOTE] @ val @ [QUOTE])"

definition add_array :: "string \<Rightarrow> string \<Rightarrow> bool \<Rightarrow> JSON \<Rightarrow> JSON" where
  "add_array key val quoted j =
     (if key = [] \<or> val = [] then j
      else JSON (json_coll j)
        (case map_of (json_array j) key of
           None \<Rightarrow> map_insert key [array_elem val quoted] (json_array j)
         | Some c \<Rightarrow> map_put key (c @ [array_elem val quoted]) (json_array j))
        (json_value j))"

definition add_value :: "string \<Rightarrow> string \<Rightarrow> JSON \<Rightarrow> JSON" where
  "add_value key val j =
     (if key = [] \<or> val = [] then j
      else JSON (json_coll j) (json_array j) (map_put key val (json_value j)))"

text \<open>The number is printed into twenty bytes, the terminating NUL included.\<close>

definition add_value_ulong :: "string \<Rightarrow> 64 word \<Rightarrow> JSON \<Rightarrow> JSON res" where
  "add_value_ulong key val j =
     (if key = [] then Inr j
      else if 20 \<le> length (fmt_ld val) then Inl BufferOverflow
      else Inr (JSON (json_coll j) (json_array j) (map_put key (fmt_ld val) (json_value j))))"

definition get_elements :: "string \<Rightarrow> JSON \<Rightarrow> string list" where
  "get_elements key j = (case map_of (json_array j) key of Some v \<Rightarrow> v | None \<Rightarrow> [])"

definition add_hash :: "string \<Rightarrow> JSON \<Rightarrow> bool \<times> JSON" where
  "add_hash key j =
     (if key = [] then (False, j)
      else (True, JSON (map_insert key json_new (json_coll j)) (json_array j) (json_value j)))"

fun get_hash :: "JSON \<Rightarrow> string list \<Rightarrow> JSON" where
  "get_hash j [] = json_new"
| "get_hash j (key # keys) =
     (case map_of (json_coll j) key of None \<Rightarrow> json_new
      | Some sub \<Rightarrow> if keys = [] then sub else get_hash sub keys)"

fun ser_elems :: "string list \<Rightarrow> string" where
  "ser_elems [] = []"
| "ser_elems (e # es) = e @ '','' @ ser_elems es"

abbreviation chop :: "string \<Rightarrow> string" where "chop s \<equiv> take (length s - 1) s"

fun ser_arrays :: "string \<Rightarrow> (string \<times> string list) list \<Rightarrow> string" where
  "ser_arrays rep [] = rep"
| "ser_arrays rep ((k, es) # r) =
     ser_arrays
       ((if es \<noteq> []
         then chop (rep @ [QUOTE] @ k @ [QUOTE] @ '':['' @ ser_elems es) @ '']''
         else rep) @ '','') r"

fun ser_values :: "string \<Rightarrow> (string \<times> string) list \<Rightarrow> string" where
  "ser_values rep [] = rep"
| "ser_values rep ((k, v) # r) =
     ser_values (rep @ [QUOTE] @ k @ [QUOTE] @ '':'' @ [QUOTE] @ v @ [QUOTE] @ '','') r"

lemma size_json_coll: "(k, j) \<in> set c \<Longrightarrow> size j < Suc (size_list (size_prod (\<lambda>x. 0) size) c)"
  by (induction c) auto

function json_serialize :: "string \<Rightarrow> JSON \<Rightarrow> string" where
  "json_serialize rep (JSON coll array val) =
     (if array = [] \<and> val = [] \<and> coll = [] then rep
      else
        (let rep1 = ser_values (ser_arrays (rep @ ''{'') array) val;
             rep2 = chop rep1 @ ''}''
         in rep2 @ concat (map (\<lambda>p. '','' @ json_serialize [] (snd p)) coll)))"
  by pat_completeness auto
termination
  by (relation "measure (\<lambda>(rep, j). size j)") (auto intro: size_json_coll)

section \<open>Class \<open>Error\<close>\<close>

datatype error_type =
    OK | CREATED | ACCEPTED | VALIDATION_FAILURE | CONFIGURATION_ERROR | APPMODE_SCRIPT_ERROR
  | SERVICEMODE_SCRIPT_ERROR | CONFMODE_DUP_DESC_ERROR | AUTHORIZATION_FAILURE
  | COMMAND_NOT_FOUND | OPMODE_PROCESS_FINISHED | SERVER_ERROR | SERVER_COMMAND_ERROR
  | ENTITLEMENT_ERROR

fun http_response_error :: "error_type \<Rightarrow> string \<times> string \<times> string" where
  "http_response_error OK = (''200'', [], [])"
| "http_response_error CREATED = (''201'', [], [])"
| "http_response_error ACCEPTED = (''202'', [], [])"
| "http_response_error VALIDATION_FAILURE = (''400'', ''Validation failure'', ''0'')"
| "http_response_error CONFIGURATION_ERROR = (''400'', [], [])"
| "http_response_error APPMODE_SCRIPT_ERROR = (''400'', [], [])"
| "http_response_error SERVICEMODE_SCRIPT_ERROR = (''400'', ''Service command error'', ''1'')"
| "http_response_error CONFMODE_DUP_DESC_ERROR = (''400'', ''Duplicate configuration description'', ''1'')"
| "http_response_error AUTHORIZATION_FAILURE = (''401'', ''Authorization failure'', ''0'')"
| "http_response_error COMMAND_NOT_FOUND = (''404'', ''Command not found'', ''0'')"
| "http_response_error OPMODE_PROCESS_FINISHED = (''410'', [], [])"
| "http_response_error SERVER_ERROR = (''500'', ''Server error'', ''0'')"
| "http_response_error SERVER_COMMAND_ERROR = (''500'', [], [])"
| "http_response_error ENTITLEMENT_ERROR = (''503'', ''Entitlement error'', ''2'')"

definition error_json :: "error_type \<Rightarrow> string \<Rightarrow> JSON" where
  "error_json type msg =
     (case http_response_error type of
        (code, text, sub) \<Rightarrow>
          add_value ''error'' sub
            (add_value ''message'' (if msg = [] then text else text @ '': '' @ msg) json_new))"

definition Error_msg :: "error_type \<Rightarrow> string \<Rightarrow> Session \<Rightarrow> Session" where
  "Error_msg type msg s =
     (let resp = json_serialize [] (error_json type msg);
          s1 = (if resp \<noteq> [] then on_response (http_set HTTP_BODY resp) s else s)
      in on_response (http_set HTTP_RESP_CODE (fst (http_response_error type))) s1)"

definition Error :: "error_type \<Rightarrow> Session \<Rightarrow> Session" where
  "Error type s = Error_msg type [] s"

section \<open>Lemmas: parameter collections\<close>

named_theorems http_simps \<open>reading parameters after updates\<close>

definition wf_http :: "HTTP \<Rightarrow> bool" where
  "wf_http h \<longleftrightarrow> sorted_map (param_coll h)"

definition wf_session :: "Session \<Rightarrow> bool" where
  "wf_session s \<longleftrightarrow> wf_http (request s) \<and> wf_http (response s)"

lemma http_get_set [http_simps, simp]:
  "http_get (http_set k v h) k' = (if k' = k then v else http_get h k')"
  by (simp add: http_get_def http_set_def map_put_get)

lemma http_get_erase [http_simps, simp]:
  "http_get (http_erase k h) k' = (if k' = k then [] else http_get h k')"
  by (simp add: http_get_def http_erase_def map_erase_get)

lemma http_get_append [http_simps, simp]:
  "http_get (http_append k v h) k' = (if k' = k then http_get h k @ '','' @ v else http_get h k')"
  by (simp add: http_append_def)

lemma http_get_new [http_simps, simp]: "http_get (http_new d) k = []"
  by (simp add: http_get_def http_new_def)

lemma verbatim_simps [http_simps, simp]:
  "verbatim_body (http_set k v h) = verbatim_body h"
  "verbatim_body (http_append k v h) = verbatim_body h"
  "verbatim_body (http_erase k h) = verbatim_body h"
  by (simp_all add: http_set_def http_append_def http_erase_def)

lemma wf_http_simps [simp]:
  "wf_http (http_new d)"
  "wf_http h \<Longrightarrow> wf_http (http_set k v h)"
  "wf_http h \<Longrightarrow> wf_http (http_append k v h)"
  "wf_http h \<Longrightarrow> wf_http (http_erase k h)"
  "wf_http (h\<lparr>verbatim_body := b\<rparr>) = wf_http h"
  by (simp_all add: wf_http_def http_new_def http_set_def http_append_def http_erase_def cmap_wf)

lemma wf_http_set_cstr [simp]: "wf_http h \<Longrightarrow> wf_http (http_set_cstr k v h)"
  by (simp add: http_set_cstr_def split: option.splits)

lemma http_get_verbatim [simp]: "http_get (h\<lparr>verbatim_body := b\<rparr>) k = http_get h k"
  by (simp add: http_get_def)

lemma vyatta_debug_simps [simp]:
  "request (vyatta_debug d s) = request s"
  "s_user (vyatta_debug d s) = s_user s"
  "s_access_level (vyatta_debug d s) = s_access_level s"
  "service_user (vyatta_debug d s) = service_user s"
  "auth_type (vyatta_debug d s) = auth_type s"
  "session_key (vyatta_debug d s) = session_key s"
  "s_debug (vyatta_debug d s) = s_debug s"
  "k \<noteq> HTTP_RESP_DEBUG \<Longrightarrow> http_get (response (vyatta_debug d s)) k = http_get (response s) k"
  "verbatim_body (response (vyatta_debug d s)) = verbatim_body (response s)"
  by (simp_all add: vyatta_debug_def)

lemma wf_session_debug [simp]: "wf_session s \<Longrightarrow> wf_session (vyatta_debug d s)"
  by (simp add: wf_session_def vyatta_debug_def)

section \<open>Lemmas: JSON\<close>

lemma chop_snoc [simp]: "chop (s @ [c]) = s"
  by simp

lemma ser_elems_join: "es \<noteq> [] \<Longrightarrow> ser_elems es = join '','' es @ '',''"
  by (induction es rule: induct_list012) auto

definition array_member :: "string \<times> string list \<Rightarrow> string" where
  "array_member p = [QUOTE] @ fst p @ [QUOTE] @ '':['' @ join '','' (snd p) @ '']''"

definition value_member :: "string \<times> string \<Rightarrow> string" where
  "value_member p = [QUOTE] @ fst p @ [QUOTE] @ '':'' @ [QUOTE] @ snd p @ [QUOTE]"

definition members :: "JSON \<Rightarrow> string list" where
  "members j = map array_member (json_array j) @ map value_member (json_value j)"

lemma ser_arrays_eq:
  "\<forall>p \<in> set as. snd p \<noteq> [] \<Longrightarrow> ser_arrays rep as = rep @ concat (map (\<lambda>p. array_member p @ '','') as)"
proof (induction rep as rule: ser_arrays.induct)
  case (2 rep k es r)
  then have "chop (rep @ [QUOTE] @ k @ [QUOTE] @ '':['' @ ser_elems es) =
      rep @ [QUOTE] @ k @ [QUOTE] @ '':['' @ join '','' es"
    using chop_snoc[of "rep @ [QUOTE] @ k @ [QUOTE] @ '':['' @ join '','' es" "CHR '',''"]
    by (simp add: ser_elems_join)
  with 2 show ?case by (simp add: array_member_def)
qed simp

lemma ser_values_eq: "ser_values rep vs = rep @ concat (map (\<lambda>p. value_member p @ '','') vs)"
  by (induction rep vs rule: ser_values.induct) (auto simp: value_member_def)

lemma concat_comma: "ms \<noteq> [] \<Longrightarrow> concat (map (\<lambda>m. m @ '','') ms) = join '','' ms @ '',''"
  by (induction ms rule: induct_list012) auto

text \<open>A flat object: no nested collection, no empty array.\<close>

definition flat :: "JSON \<Rightarrow> bool" where
  "flat j \<longleftrightarrow> json_coll j = [] \<and> list_all (\<lambda>p. snd p \<noteq> []) (json_array j)"

lemma json_serialize_flat:
  assumes "flat j"
  shows "json_serialize rep j =
    (if members j = [] then rep else rep @ ''{'' @ join '','' (members j) @ ''}'')"
proof (cases j)
  case (JSON c a v)
  have c: "c = []" "\<forall>p \<in> set a. snd p \<noteq> []" using assms JSON by (auto simp: flat_def list_all_iff)
  have m: "members j = map array_member a @ map value_member v" by (simp add: members_def JSON)
  have "ser_values (ser_arrays (rep @ ''{'') a) v =
      rep @ ''{'' @ concat (map (\<lambda>m. m @ '','') (members j))"
    by (simp add: ser_arrays_eq[OF c(2)] ser_values_eq m comp_def)
  moreover have "chop (rep @ ''{'' @ concat (map (\<lambda>m. m @ '','') (members j))) @ ''}'' =
      rep @ ''{'' @ join '','' (members j) @ ''}''" if "members j \<noteq> []"
    using chop_snoc[of "rep @ ''{'' @ join '','' (members j)"] concat_comma[OF that] by simp
  ultimately show ?thesis using m by (auto simp: JSON c(1))
qed

lemma flat_simps [simp]:
  "flat json_new"
  "flat j \<Longrightarrow> flat (add_value k v j)"
  by (simp_all add: flat_def json_new_def add_value_def)

lemma flat_ulong: "add_value_ulong k w j = Inr j' \<Longrightarrow> flat j \<Longrightarrow> flat j'"
  by (auto simp: flat_def add_value_ulong_def split: if_splits)

lemma map_put_all: "list_all P m \<Longrightarrow> P (k, v) \<Longrightarrow> list_all P (map_put k v m)"
  by (induction k v m rule: map_put.induct) auto

lemma flat_add_array [simp]: "flat j \<Longrightarrow> flat (add_array k v q j)"
  by (auto simp: flat_def add_array_def map_insert_def map_put_all split: option.splits)

section \<open>Lemmas: the texts the builder produces\<close>

text \<open>The contents of a JSON string literal: escapes are well formed, quotes and control
  characters appear only escaped.\<close>

fun json_str_ok :: "string \<Rightarrow> bool" where
  "json_str_ok [] = True"
| "json_str_ok [c] = (c \<noteq> QUOTE \<and> c \<noteq> BSLASH \<and> CHR 0x20 \<le> c)"
| "json_str_ok (c # d # s) =
     (if c = BSLASH then d \<in> set [QUOTE, BSLASH, CHR ''/'', CHR ''b'', CHR ''f'', CHR ''n'', CHR ''r'', CHR ''t''] \<and> json_str_ok s
      else c \<noteq> QUOTE \<and> CHR 0x20 \<le> c \<and> json_str_ok (d # s))"

inductive json_text :: "string \<Rightarrow> bool" where
  json_str: "json_str_ok s \<Longrightarrow> json_text ([QUOTE] @ s @ [QUOTE])"
| json_arr: "\<forall>e \<in> set es. json_text e \<Longrightarrow> json_text (''['' @ join '','' es @ '']'')"
| json_obj: "\<forall>m \<in> set ms. json_str_ok (fst m) \<and> json_text (snd m) \<Longrightarrow>
     json_text (''{'' @ join '','' (map (\<lambda>m. [QUOTE] @ fst m @ [QUOTE] @ '':'' @ snd m) ms) @ ''}'')"

definition json_ok :: "JSON \<Rightarrow> bool" where
  "json_ok j \<longleftrightarrow> flat j \<and>
     (\<forall>p \<in> set (json_array j). json_str_ok (fst p) \<and> (\<forall>e \<in> set (snd p). json_text e)) \<and>
     (\<forall>p \<in> set (json_value j). json_str_ok (fst p) \<and> json_str_ok (snd p))"

lemma json_ok_new: "json_ok json_new"
  by (simp add: json_ok_def) (simp add: json_new_def)

lemma map_put_set: "p \<in> set (map_put k v m) \<Longrightarrow> p = (k, v) \<or> p \<in> set m"
  by (induction k v m rule: map_put.induct) (auto split: if_splits)

lemma json_ok_add_value: "json_ok j \<Longrightarrow> json_str_ok k \<Longrightarrow> json_str_ok v \<Longrightarrow> json_ok (add_value k v j)"
  unfolding json_ok_def by (auto simp: add_value_def flat_def dest: map_put_set)

lemma json_ok_add_array:
  assumes "json_ok j" and "json_str_ok k" and "json_text (array_elem v q)"
  shows "json_ok (add_array k v q j)"
proof -
  have "\<forall>e \<in> set c. json_text e" if "map_of (json_array j) k = Some c" for c
    using assms(1) map_of_SomeD[OF that] unfolding json_ok_def by fastforce
  then show ?thesis using assms flat_add_array[of j k v q] unfolding json_ok_def
    by (auto simp: add_array_def map_insert_def split: option.splits if_splits dest!: map_put_set)
qed

lemma json_text_serialize:
  assumes "json_ok j" and "members j \<noteq> []"
  shows "json_text (json_serialize [] j)"
proof -
  let ?ms = "map (\<lambda>p. (fst p, ''['' @ join '','' (snd p) @ '']'')) (json_array j) @
    map (\<lambda>p. (fst p, [QUOTE] @ snd p @ [QUOTE])) (json_value j)"
  have ms: "members j = map (\<lambda>m. [QUOTE] @ fst m @ [QUOTE] @ '':'' @ snd m) ?ms"
    by (simp add: members_def array_member_def value_member_def comp_def)
  have all: "\<forall>m \<in> set ?ms. json_str_ok (fst m) \<and> json_text (snd m)"
  proof
    fix m assume "m \<in> set ?ms"
    then consider p where "p \<in> set (json_array j)" "m = (fst p, ''['' @ join '','' (snd p) @ '']'')"
      | p where "p \<in> set (json_value j)" "m = (fst p, [QUOTE] @ snd p @ [QUOTE])" by auto
    then show "json_str_ok (fst m) \<and> json_text (snd m)"
      using assms(1) json_str json_arr unfolding json_ok_def by cases auto
  qed
  have "json_text (''{'' @ join '','' (members j) @ ''}'')"
    unfolding ms by (rule json_obj[OF all])
  moreover have "flat j" using assms(1) by (simp add: json_ok_def)
  ultimately show ?thesis using assms(2) by (simp add: json_serialize_flat)
qed

lemma error_json_members:
  "members (error_json t msg) =
     (case http_response_error t of (_, text, sub) \<Rightarrow>
        (if sub = [] then [] else [value_member (''error'', sub)]) @
        (let m = (if msg = [] then text else text @ '': '' @ msg)
         in if m = [] then [] else [value_member (''message'', m)]))"
  by (cases t) (auto simp: error_json_def add_value_def json_new_def members_def Let_def)

lemma json_str_ok_append: "json_str_ok a \<Longrightarrow> json_str_ok b \<Longrightarrow> json_str_ok (a @ b)"
proof (induction a rule: json_str_ok.induct)
  case (2 c)
  then show ?case by (cases b) auto
qed (auto split: if_splits)

lemma error_json_ok: "json_str_ok msg \<Longrightarrow> json_ok (error_json t msg)"
proof -
  assume msg: "json_str_ok msg"
  have "json_str_ok (fst (snd (http_response_error t)))" "json_str_ok (snd (snd (http_response_error t)))"
    by (cases t; simp)+
  moreover have "json_str_ok (CHR '' '' # msg)" using msg by (cases msg) simp_all
  ultimately show ?thesis using msg unfolding error_json_def
    by (auto split: prod.splits intro!: json_ok_add_value json_ok_new json_str_ok_append)
qed

section \<open>Lemmas: errors and the printed response\<close>

lemma Error_msg_simps [simp]:
  "request (Error_msg t m s) = request s"
  "s_user (Error_msg t m s) = s_user s"
  "s_access_level (Error_msg t m s) = s_access_level s"
  "service_user (Error_msg t m s) = service_user s"
  "auth_type (Error_msg t m s) = auth_type s"
  "session_key (Error_msg t m s) = session_key s"
  "s_debug (Error_msg t m s) = s_debug s"
  "http_get (response (Error_msg t m s)) HTTP_RESP_CODE = fst (http_response_error t)"
  "k \<noteq> HTTP_RESP_CODE \<Longrightarrow> k \<noteq> HTTP_BODY \<Longrightarrow>
     http_get (response (Error_msg t m s)) k = http_get (response s) k"
  "verbatim_body (response (Error_msg t m s)) = verbatim_body (response s)"
  "wf_session s \<Longrightarrow> wf_session (Error_msg t m s)"
  by (simp_all add: Error_msg_def Let_def wf_session_def)

lemmas Error_simps [simp] = Error_msg_simps [where m = "[]", folded Error_def]

lemma Error_msg_body:
  "http_get (response (Error_msg t m s)) HTTP_BODY =
     (if json_serialize [] (error_json t m) = [] then http_get (response s) HTTP_BODY
      else json_serialize [] (error_json t m))"
  by (simp add: Error_msg_def Let_def)

definition response_headers :: "(KEY \<times> string) list \<Rightarrow> string" where
  "response_headers ps =
     concat (map (\<lambda>(k, v). case header_name k of Some n \<Rightarrow> n @ v @ CRLF | None \<Rightarrow> []) ps)"

definition status_line :: "HTTP \<Rightarrow> string" where
  "status_line h =
     (case map_of (param_coll h) HTTP_RESP_CODE of Some c \<Rightarrow> ''Status: '' @ c @ CRLF | None \<Rightarrow> [])"

lemma serialize_loop_headers:
  "HTTP_BODY \<notin> fst ` set ps \<Longrightarrow>
     serialize_loop N vb (ps @ r) (out, b) = serialize_loop N vb r (out @ response_headers ps, b)"
  by (induction ps arbitrary: out) (auto simp: response_headers_def split: option.splits)

lemma body_last:
  assumes "wf_http h" and "map_of (param_coll h) HTTP_BODY = Some b"
  obtains ps where "param_coll h = ps @ [(HTTP_BODY, b)]" and "HTTP_BODY \<notin> fst ` set ps"
proof -
  have srt: "sorted_wrt (<) (map fst (param_coll h))" using assms(1) by (simp add: wf_http_def sorted_map_def)
  have "(HTTP_BODY, b) \<in> set (param_coll h)" using assms(2) by (rule map_of_SomeD)
  then obtain ps r where split: "param_coll h = ps @ (HTTP_BODY, b) # r" by (meson split_list)
  have "r = []"
  proof (cases r)
    case (Cons p r')
    then have "HTTP_BODY < fst p" using srt split by (simp add: sorted_wrt_append)
    then show ?thesis using key_index_le[of "fst p"] by (simp add: less_KEY_def)
  qed
  moreover have "HTTP_BODY \<notin> fst ` set ps" using srt split by (fastforce simp: sorted_wrt_append)
  ultimately show thesis using that split by simp
qed

lemma response_headers_snoc: "response_headers (ps @ [(HTTP_BODY, b)]) = response_headers ps"
  by (simp add: response_headers_def)

lemma http_serialize_body:
  assumes "wf_http h" and "map_of (param_coll h) HTTP_BODY = Some b" and "length b \<le> MAX_BODY_SIZE"
  shows "http_serialize N h =
    (let b' = reformat_body N (verbatim_body h) b
     in (status_line h @ response_headers (param_coll h) @ ''Content-Length: '' @ dec (length b') @ CRLF
         @ CRLF @ b', h))"
proof -
  obtain ps where ps: "param_coll h = ps @ [(HTTP_BODY, b)]" "HTTP_BODY \<notin> fst ` set ps"
    using body_last[OF assms(1,2)] .
  show ?thesis using assms(2,3) ps
    by (simp add: http_serialize_def Let_def status_line_def serialize_loop_headers
        response_headers_snoc)
qed

lemma http_serialize_oversize:
  assumes "wf_http h" and "map_of (param_coll h) HTTP_BODY = Some b" and "MAX_BODY_SIZE < length b"
  shows "fst (http_serialize N h) =
     ''Status: 500'' @ CRLF @ response_headers (param_coll h) @ ''Content-Length: 0'' @ CRLF @ CRLF
   \<and> http_get (snd (http_serialize N h)) HTTP_BODY = []"
proof -
  let ?h = "http_set HTTP_BODY [] h"
  have wf: "wf_http ?h" using assms(1) by simp
  have get: "map_of (param_coll ?h) HTTP_BODY = Some []" by (simp add: http_set_def map_put_get)
  obtain ps where ps: "param_coll ?h = ps @ [(HTTP_BODY, [])]" "HTTP_BODY \<notin> fst ` set ps"
    using body_last[OF wf get] .
  obtain qs where qs: "param_coll h = qs @ [(HTTP_BODY, b)]" "HTTP_BODY \<notin> fst ` set qs"
    using body_last[OF assms(1,2)] .
  have "map_put HTTP_BODY [] (qs @ [(HTTP_BODY, b)]) = qs @ [(HTTP_BODY, [])]"
    using qs(2) key_index_le
    by (induction qs) (auto simp: less_KEY_def not_less)
  then have "ps = qs" using ps(1) qs(1) by (simp add: http_set_def)
  moreover have "dec 0 = ''0''" by (simp add: dec.simps dec_digit_def)
  ultimately show ?thesis using assms(2,3) ps qs
    by (simp add: http_serialize_def Let_def serialize_loop_headers response_headers_snoc reformat_body_def)
qed

section \<open>Properties\<close>

text \<open>C21: A response with a body of allowed size is printed as the status line (when a code is
  set), the header lines of its parameters in enumeration order, a \<open>Content-Length\<close> header
  whose number is the length of the body that follows, an empty line and the body; the
  body is the stored one, or its JSON normal form when that exists and the body is not
  marked verbatim. The collection is unchanged.\<close>

theorem serialize_framing:
  assumes "wf_http h" and "map_of (param_coll h) HTTP_BODY = Some b" and "length b \<le> MAX_BODY_SIZE"
  shows "http_serialize N h =
    (status_line h @ response_headers (param_coll h) @
       ''Content-Length: '' @ dec (length (reformat_body N (verbatim_body h) b)) @ CRLF @ CRLF @
       reformat_body N (verbatim_body h) b, h)"
  using http_serialize_body[OF assms, of N] by (simp add: Let_def)

theorem serialize_framing_witness:
  "http_serialize (\<lambda>_. None) (http_set HTTP_BODY ''hi'' (http_set HTTP_RESP_CODE ''200'' (http_new False))) =
     (''Status: 200'' @ CRLF @ ''Content-Length: 2'' @ CRLF @ CRLF @ ''hi'',
      http_set HTTP_BODY ''hi'' (http_set HTTP_RESP_CODE ''200'' (http_new False)))"
  using serialize_framing[of "http_set HTTP_BODY ''hi'' (http_set HTTP_RESP_CODE ''200'' (http_new False))" "''hi''" "\<lambda>_. None"]
  by (simp add: http_set_def http_new_def wf_http_def sorted_map_def rest_consts less_KEY_def
      status_line_def response_headers_def reformat_body_def dec.simps dec_digit_def)

text \<open>A response whose body exceeds the maximum is printed with status 500 and an empty
  body of declared length 0, whatever status was set, and the stored body is cleared.\<close>

theorem serialize_oversize:
  assumes "wf_http h" and "map_of (param_coll h) HTTP_BODY = Some b" and "MAX_BODY_SIZE < length b"
  shows "fst (http_serialize N h) =
     ''Status: 500'' @ CRLF @ response_headers (param_coll h) @ ''Content-Length: 0'' @ CRLF @ CRLF
   \<and> http_get (snd (http_serialize N h)) HTTP_BODY = []"
  using assms by (rule http_serialize_oversize)

theorem serialize_oversize_witness:
  "fst (http_serialize (\<lambda>_. None) (http_set HTTP_BODY (replicate 33554433 (CHR ''x'')) (http_new False))) =
     ''Status: 500'' @ CRLF @ ''Content-Length: 0'' @ CRLF @ CRLF"
  using serialize_oversize[of "http_set HTTP_BODY (replicate 33554433 (CHR ''x'')) (http_new False)"
      "replicate 33554433 (CHR ''x'')" "\<lambda>_. None"]
  by (simp add: http_set_def http_new_def wf_http_def sorted_map_def rest_consts response_headers_def)

text \<open>Calls of the two builder operations, and when their arguments are usable as JSON.\<close>

datatype json_op = Add_value string string | Add_array string string bool

fun json_op_ok :: "json_op \<Rightarrow> bool" where
  "json_op_ok (Add_value k v) = (json_str_ok k \<and> json_str_ok v)"
| "json_op_ok (Add_array k v q) = (json_str_ok k \<and> json_text (array_elem v q))"

fun json_apply :: "json_op \<Rightarrow> JSON \<Rightarrow> JSON" where
  "json_apply (Add_value k v) j = add_value k v j"
| "json_apply (Add_array k v q) j = add_array k v q j"

lemma json_ok_fold: "list_all json_op_ok ops \<Longrightarrow> json_ok j \<Longrightarrow> json_ok (fold json_apply ops j)"
proof (induction ops arbitrary: j)
  case (Cons x ops)
  then show ?case by (cases x) (auto simp: json_ok_add_value json_ok_add_array)
qed simp

text \<open>C25: An object made by any sequence of \<open>add_value\<close> and \<open>add_array\<close> calls, whose keys and
  values are escaped string contents and whose raw array elements are JSON texts, prints
  nothing when it is empty and a well-formed JSON object otherwise.\<close>

theorem json_builder_text:
  assumes "list_all json_op_ok ops"
  shows "let j = fold json_apply ops json_new; r = json_serialize [] j
    in if members j = [] then r = [] else json_text r"
proof -
  have ok: "json_ok (fold json_apply ops json_new)"
    by (rule json_ok_fold[OF assms json_ok_new])
  then show ?thesis
    using json_text_serialize[OF ok] json_serialize_flat[of "fold json_apply ops json_new" "[]"]
    by (auto simp: Let_def json_ok_def)
qed

theorem json_builder_text_witness:
  "json_text ([CHR ''{'', QUOTE] @ ''a'' @ [QUOTE] @ '':'' @ [QUOTE] @ ''x'' @ [QUOTE] @ ''}'')"
  using json_builder_text[of "[Add_value ''a'' ''x'']"]
  by (simp add: Let_def json_new_def add_value_def members_def)

text \<open>C35: Reporting an error sets the response code of its table row, leaves every other
  parameter but the body alone, and sets the body to a well-formed JSON text exactly when
  the row or the message has a text; the message must be escaped string contents.\<close>

theorem error_response:
  assumes "json_str_ok msg"
  shows "http_get (response (Error_msg t msg s)) HTTP_RESP_CODE = fst (http_response_error t) \<and>
    (\<forall>k. k \<noteq> HTTP_RESP_CODE \<and> k \<noteq> HTTP_BODY \<longrightarrow>
       http_get (response (Error_msg t msg s)) k = http_get (response s) k) \<and>
    (let b = http_get (response (Error_msg t msg s)) HTTP_BODY
     in if fst (snd (http_response_error t)) = [] \<and> msg = []
        then b = http_get (response s) HTTP_BODY else json_text b)"
proof -
  let ?r = "json_serialize [] (error_json t msg)"
  have ok: "json_ok (error_json t msg)" using assms by (rule error_json_ok)
  have empty: "members (error_json t msg) = [] \<longleftrightarrow> fst (snd (http_response_error t)) = [] \<and> msg = []"
    by (cases t) (auto simp: error_json_members Let_def)
  have "?r = [] \<longleftrightarrow> members (error_json t msg) = []"
    using ok by (simp add: json_serialize_flat json_ok_def)
  then show ?thesis
    using json_text_serialize[OF ok] empty by (auto simp: Error_msg_body Let_def)
qed

theorem error_response_witness:
  "http_get (response (Error VALIDATION_FAILURE (session_new False))) HTTP_RESP_CODE = ''400'' \<and>
   json_text (http_get (response (Error VALIDATION_FAILURE (session_new False))) HTTP_BODY)"
  using error_response[of "[]" VALIDATION_FAILURE "session_new False"] by (simp add: Error_def Let_def)

end
