(* ===== verification/Chunker_Processor.thy ===== *)
theory Chunker_Processor
  imports Http_Session
begin

text \<open>
  \<open>chunker2_processor.cc\<close>: one background command. \<open>start_new\<close> forks twice; the child
  reads the command's output into a file, the grandchild takes on the user's identity
  and executes \<open>opc\<close> with the tokenised command. The operating system calls are
  parameters.
\<close>

section \<open>\<open>tokenizeOpCmd\<close>\<close>

text \<open>
  \<open>strloc\<close> is the only loop variable that is read before it is written. When the quote
  at \<open>strloc\<close> is not closed, \<open>quote_close + 1\<close> wraps to 0 and the scan starts over, so
  the loop may not end: None.
\<close>

definition quoted_part :: "string \<Rightarrow> nat \<Rightarrow> string" where
  "quoted_part cmd quote_open =
     (case find_from cmd [APOS] (quote_open + 1) of
        None \<Rightarrow> drop (quote_open + 1) cmd
      | Some quote_close \<Rightarrow> take (quote_close - quote_open - 1) (drop (quote_open + 1) cmd))"

partial_function (option) tokenize_loop :: "string \<Rightarrow> nat \<Rightarrow> string list \<Rightarrow> string list option" where
  "tokenize_loop cmd strloc opcmdarr =
     (case find_from cmd '' '' strloc of
        None \<Rightarrow>
          (let part = (if find_from cmd [APOS] strloc = Some strloc
                       then quoted_part cmd strloc else drop strloc cmd)
           in Some (if part \<noteq> [] \<and> part \<noteq> [APOS, APOS] then opcmdarr @ [c_str part] else opcmdarr))
      | Some seploc \<Rightarrow>
          if find_from cmd [APOS] strloc = Some strloc
          then tokenize_loop cmd (npos_plus (find_from cmd [APOS] (strloc + 1)) 1)
                 (opcmdarr @ [c_str (quoted_part cmd strloc)])
          else (let part = take (seploc - strloc) (drop strloc cmd)
                in tokenize_loop cmd (seploc + 1)
                     (if part \<noteq> [] then opcmdarr @ [c_str part] else opcmdarr)))"

definition tokenizeOpCmd :: "string \<Rightarrow> string list option" where
  "tokenizeOpCmd opmodecmd = tokenize_loop opmodecmd 0 []"

section \<open>\<open>writer\<close>: environment and identity of the command\<close>

text \<open>The JSON arguments: every token goes through \<open>add_array\<close>, which drops empty ones and
  adds quotes but no escapes.\<close>

definition opc_args :: "string list \<Rightarrow> string" where
  "opc_args opcmdarr =
     ''OPC_ARGS='' @ json_serialize [] (fold (\<lambda>t j. add_array ''args'' t False j) opcmdarr json_new)"

definition writer_env :: "string \<Rightarrow> string \<Rightarrow> string list option" where
  "writer_env user cmd =
     (case tokenizeOpCmd cmd of None \<Rightarrow> None
      | Some opcmdarr \<Rightarrow>
          Some (map c_str
            [''EFFECTIVE_USER='' @ user, ''VYATTA_PROCESS_CLIENT=gui2_rest'', opc_args opcmdarr]))"

text \<open>\<open>pid_output\<close>: the process group number and a newline.\<close>

definition pid_output :: "write_outcome \<Rightarrow> files \<Rightarrow> string \<Rightarrow> nat \<Rightarrow> files \<times> int" where
  "pid_output wr fs path pid =
     (case wr of W_no_open \<Rightarrow> (fs, - 1)
      | W_fail part \<Rightarrow> (fs(path \<mapsto> part), int pid)
      | W_ok \<Rightarrow> (fs(path \<mapsto> dec pid @ [NL]), int pid))"

record cred =
  c_loginuid :: nat
  c_uid :: nat
  c_gid :: nat
  c_groups :: "nat list"

text \<open>What the system calls answer in one run; \<open>os_getpwnam\<close> gives the user and group
  number, \<open>os_getgrouplist\<close> None when more than ten groups apply.\<close>

record spawn_os =
  os_fork :: bool
  os_pipe :: bool
  os_fork_writer :: bool
  os_getpgrp :: nat
  os_pidfile :: write_outcome
  os_execve :: bool
  os_getpwnam :: "string \<Rightarrow> (nat \<times> nat) option"
  os_setloginuid :: bool
  os_getgrouplist :: "string \<Rightarrow> nat \<Rightarrow> nat list option"
  os_setgroups :: bool
  os_setgid :: bool
  os_setuid :: bool

text \<open>How a forked process goes on. A \<open>return false\<close> in a forked process returns into the
  daemon's own loop. The environment is None when the tokeniser does not return.\<close>

datatype proc_end =
    Exit nat
  | Resumes_daemon
  | Exec_opc cred "string list option"

text \<open>\<open>writer\<close> stores the process group under the token, then becomes \<open>opc\<close>; when \<open>execve\<close>
  fails it returns and its caller exits with 0.\<close>

definition writer :: "spawn_os \<Rightarrow> files \<Rightarrow> cred \<Rightarrow> string \<Rightarrow> string \<Rightarrow> string \<Rightarrow> string \<Rightarrow> files \<times> proc_end" where
  "writer os fs cr pid_path token cmd user =
     (if pid_path \<noteq> []
      then fst (pid_output (os_pidfile os) fs (c_str (pid_path @ ''/'' @ token)) (os_getpgrp os))
      else fs,
      if os_execve os then Exec_opc cr (writer_env user cmd) else Exit 0)"

definition writer_proc ::
    "spawn_os \<Rightarrow> files \<Rightarrow> cred \<Rightarrow> string \<Rightarrow> string \<Rightarrow> string \<Rightarrow> string \<Rightarrow> nat \<times> nat \<Rightarrow> files \<times> proc_end" where
  "writer_proc os fs cr pid_path token cmd user pw =
     (if \<not> os_setloginuid os then (fs, Exit 1)
      else let cr1 = cr\<lparr>c_loginuid := fst pw\<rparr> in
      case os_getgrouplist os (c_str user) (snd pw) of
        None \<Rightarrow> (fs, Resumes_daemon)
      | Some groups \<Rightarrow>
          if \<not> os_setgroups os then (fs, Resumes_daemon)
          else let cr2 = cr1\<lparr>c_groups := groups\<rparr> in
          if \<not> os_setgid os then (fs, Resumes_daemon)
          else let cr3 = cr2\<lparr>c_gid := snd pw\<rparr> in
          if \<not> os_setuid os then (fs, Resumes_daemon)
          else writer os fs (cr3\<lparr>c_uid := fst pw\<rparr>) pid_path token cmd user)"

text \<open>What \<open>start_new\<close> returns to the manager, and the processes that come into being: none
  when an argument is empty or the first \<open>fork\<close> fails, which is taken for the parent's side;
  otherwise the detached child alone, also as a reader without a writer when the second
  \<open>fork\<close> fails, or the reader (its exit code 0) together with the writer.\<close>

definition start_new ::
    "spawn_os \<Rightarrow> files \<Rightarrow> cred \<Rightarrow> string \<Rightarrow> string \<Rightarrow> string \<Rightarrow> string \<Rightarrow> bool \<times> files \<times> proc_end list" where
  "start_new os fs cr pid_path token cmd user =
     (if cmd = [] \<or> token = [] \<or> user = [] then (False, fs, [])
      else if \<not> os_fork os then (True, fs, [])
      else if \<not> os_pipe os then (True, fs, [Exit 1])
      else case os_getpwnam os (c_str user) of
        None \<Rightarrow> (True, fs, [Resumes_daemon])
      | Some pw \<Rightarrow>
          if \<not> os_fork_writer os then (True, fs, [Exit 0])
          else (case writer_proc os fs cr pid_path token cmd user pw of
             (fs', e) \<Rightarrow> (True, fs', [Exit 0, e])))"

section \<open>\<open>reader\<close>, \<open>process_chunk\<close>, \<open>process_chunk_end\<close>\<close>

definition chunk_file :: "string \<Rightarrow> string" where
  "chunk_file token = CHUNKER_RESP_TOK_DIR @ CHUNKER_RESP_TOK_BASE @ token"

definition end_file :: "string \<Rightarrow> string" where
  "end_file token = CHUNKER_RESP_TOK_DIR @ CHUNKER_RESP_TOK_BASE @ token @ ''_end''"

definition append_file :: "write_outcome \<Rightarrow> files \<Rightarrow> string \<Rightarrow> string \<Rightarrow> files" where
  "append_file wr fs path str =
     (let old = (case fs path of Some c \<Rightarrow> c | None \<Rightarrow> [])
      in case wr of W_no_open \<Rightarrow> fs | W_fail part \<Rightarrow> fs(path \<mapsto> old @ part) | W_ok \<Rightarrow> fs(path \<mapsto> old @ str))"

definition process_chunk :: "write_outcome \<Rightarrow> files \<Rightarrow> string \<Rightarrow> string \<Rightarrow> files \<times> string" where
  "process_chunk wr fs str token = (append_file wr fs (chunk_file token) str, [])"

text \<open>Two writes: the remainder up to its last newline, then the end marker.\<close>

definition process_chunk_end ::
    "write_outcome \<Rightarrow> write_outcome \<Rightarrow> files \<Rightarrow> string \<Rightarrow> string \<Rightarrow> files list" where
  "process_chunk_end wr wr_end fs str token =
     (let chunk = (case rfind_sub [NL] str of Some pos \<Rightarrow> take pos str | None \<Rightarrow> str);
          fs1 = append_file wr fs (chunk_file token) chunk;
          fs2 = (case wr_end of W_no_open \<Rightarrow> fs1
                 | W_fail part \<Rightarrow> fs1(end_file token \<mapsto> part)
                 | W_ok \<Rightarrow> fs1(end_file token \<mapsto> ''end''))
      in [fs1, fs2])"

text \<open>The file states the reader passes through, for the buffers \<open>read\<close> delivers (each
  with the outcome of writing it). A buffer is read as a C string.\<close>

fun reader :: "(string \<times> write_outcome) list \<Rightarrow> write_outcome \<Rightarrow> write_outcome \<Rightarrow> files \<Rightarrow> string \<Rightarrow> string \<Rightarrow> files list" where
  "reader [] wr wr_end fs tmp token = process_chunk_end wr wr_end fs tmp token"
| "reader ((buf, w) # bufs) wr wr_end fs tmp token =
     (case process_chunk w fs (tmp @ c_str buf) token of
        (fs1, tmp1) \<Rightarrow> fs1 # reader bufs wr wr_end fs1 tmp1 token)"

text \<open>\<open>parse\<close> cuts a line at blanks. A run of blanks at the end of the line leaves an empty
  last argument.\<close>

definition is_blank3 :: "char \<Rightarrow> bool" where
  "is_blank3 c \<longleftrightarrow> c = CHR '' '' \<or> c = TAB \<or> c = NL"

function parse_args :: "string \<Rightarrow> string list" where
  "parse_args line =
     (if line = [] then []
      else let l1 = dropWhile is_blank3 line;
               w = takeWhile (\<lambda>c. \<not> is_blank3 c) l1
           in w # parse_args (drop (length w) l1))"
  by pat_completeness auto
termination
proof (relation "measure length")
  fix line l1 w :: string
  assume "line \<noteq> []" and l1: "l1 = dropWhile is_blank3 line"
    and w: "w = takeWhile (\<lambda>c. \<not> is_blank3 c) l1"
  show "(drop (length w) l1, line) \<in> measure length"
  proof (cases "is_blank3 (hd line)")
    case True
    then have "length l1 < length line"
      using \<open>line \<noteq> []\<close> l1 by (cases line) (auto simp: le_imp_less_Suc length_dropWhile_le)
    then show ?thesis by simp
  next
    case False
    then have "l1 = line" "w \<noteq> []" using \<open>line \<noteq> []\<close> l1 w by (cases line; auto)+
    then show ?thesis using \<open>line \<noteq> []\<close> by simp
  qed
qed simp

declare parse_args.simps [simp del]

section \<open>Lemmas: the tokeniser\<close>

lemma find_char_at:
  "find_from s [c] p = Some p \<longleftrightarrow> p < length s \<and> s ! p = c"
proof (cases "p < length s")
  case True
  then obtain x r where r: "drop p s = x # r" "s ! p = x" by (metis Cons_nth_drop_Suc)
  then show ?thesis using True by (auto simp: find_from_def)
qed (auto simp: find_from_def)

lemma find_from_past: "length s \<le> p \<Longrightarrow> find_from s [c] p = None"
  by (simp add: find_from_def)

lemma find_from_None_set: "p \<le> length s \<Longrightarrow> find_from s [c] p = None \<longleftrightarrow> c \<notin> set (drop p s)"
  by (simp add: find_from_def find_sub_single find_idx_None) blast

lemma tokenize_step_quote:
  "find_from s '' '' p = Some q \<Longrightarrow> find_from s [APOS] p = Some p \<Longrightarrow> find_from s [APOS] (p + 1) = Some r \<Longrightarrow>
     tokenize_loop s p acc = tokenize_loop s (r + 1) (acc @ [c_str (quoted_part s p)])"
  by (subst tokenize_loop.simps) simp

lemma tokenize_step_word:
  "find_from s '' '' p = Some q \<Longrightarrow> find_from s [APOS] p \<noteq> Some p \<Longrightarrow>
     tokenize_loop s p acc = tokenize_loop s (q + 1)
       (if take (q - p) (drop p s) \<noteq> [] then acc @ [c_str (take (q - p) (drop p s))] else acc)"
  by (subst tokenize_loop.simps) (simp add: Let_def)

lemma tokenize_step_last_quote:
  "find_from s '' '' p = None \<Longrightarrow> find_from s [APOS] p = Some p \<Longrightarrow>
     tokenize_loop s p acc =
       Some (if quoted_part s p \<noteq> [] \<and> quoted_part s p \<noteq> [APOS, APOS]
             then acc @ [c_str (quoted_part s p)] else acc)"
  by (subst tokenize_loop.simps) (simp add: Let_def)

lemma tokenize_step_last_word:
  "find_from s '' '' p = None \<Longrightarrow> find_from s [APOS] p \<noteq> Some p \<Longrightarrow>
     tokenize_loop s p acc =
       Some (if drop p s \<noteq> [] \<and> drop p s \<noteq> [APOS, APOS] then acc @ [c_str (drop p s)] else acc)"
  by (subst tokenize_loop.simps) (simp add: Let_def)

text \<open>Every apostrophe that a space follows has another apostrophe after it.\<close>

definition quotes_closed :: "string \<Rightarrow> bool" where
  "quotes_closed s \<longleftrightarrow> (\<forall>u v. s = u @ APOS # v \<longrightarrow> CHR '' '' \<in> set v \<longrightarrow> APOS \<in> set v)"

lemma quotes_closed_last: "s = u @ [APOS] \<Longrightarrow> quotes_closed s"
  unfolding quotes_closed_def
proof (intro allI impI)
  fix a v assume "s = u @ [APOS]" "s = a @ APOS # v" "CHR '' '' \<in> set v"
  then show "APOS \<in> set v" by (cases v rule: rev_cases) auto
qed

lemma quotes_closed_plain: "APOS \<notin> set s \<Longrightarrow> quotes_closed s"
  by (auto simp: quotes_closed_def)

lemma tokenize_loop_returns:
  assumes "quotes_closed cmd" and "p \<le> length cmd"
  shows "\<exists>ts. tokenize_loop cmd p acc = Some ts"
  using assms(2)
proof (induction "length cmd - p" arbitrary: p acc rule: less_induct)
  case less
  show ?case
  proof (cases "find_from cmd '' '' p")
    case None
    then show ?thesis by (subst tokenize_loop.simps) (simp add: Let_def)
  next
    case (Some q)
    have q: "p \<le> q" "q < length cmd" using find_from_bound[OF Some] by auto
    show ?thesis
    proof (cases "find_from cmd [APOS] p = Some p")
      case True
      then have p: "p < length cmd" "cmd ! p = APOS" by (simp_all add: find_char_at)
      then have split: "cmd = take p cmd @ APOS # drop (Suc p) cmd" by (metis id_take_nth_drop)
      have "CHR '' '' \<in> set (drop p cmd)"
        using Some less.prems find_from_None_set[of p cmd "CHR '' ''"] by auto
      moreover have "drop p cmd = APOS # drop (Suc p) cmd" using p by (metis Cons_nth_drop_Suc)
      ultimately have "CHR '' '' \<in> set (drop (Suc p) cmd)" by simp
      then have "APOS \<in> set (drop (Suc p) cmd)"
        using assms(1) split unfolding quotes_closed_def by blast
      then obtain r where r: "find_from cmd [APOS] (p + 1) = Some r"
        using find_from_None_set[of "p + 1" cmd APOS] p by auto
      then have "Suc p \<le> r" "r < length cmd" using find_from_bound[OF r] by auto
      then have "\<exists>ts. tokenize_loop cmd (r + 1) (acc @ [c_str (quoted_part cmd p)]) = Some ts"
        using p by (intro less) auto
      then show ?thesis using tokenize_step_quote[OF Some True r] by simp
    next
      case False
      have "\<exists>ts. tokenize_loop cmd (q + 1) a = Some ts" for a using q by (intro less) auto
      then show ?thesis using tokenize_step_word[OF Some False] by simp
    qed
  qed
qed

text \<open>The four ways the scan goes on from the end of \<open>d\<close>.\<close>

lemma tokenize_end: "tokenize_loop d (length d) acc = Some acc"
  by (simp add: tokenize_step_last_word find_from_past)

lemma tokenize_space:
  "tokenize_loop (d @ CHR '' '' # r) (length d) acc =
     tokenize_loop ((d @ '' '') @ r) (length (d @ '' '')) acc"
proof -
  have "find_from (d @ CHR '' '' # r) '' '' (length d) = Some (length d)"
    "find_from (d @ CHR '' '' # r) [APOS] (length d) \<noteq> Some (length d)"
    by (simp_all add: find_char_at nth_append)
  then show ?thesis using tokenize_step_word[of "d @ CHR '' '' # r" "length d" "length d" acc] by simp
qed

lemma quoted_part_here: "APOS \<notin> set t \<Longrightarrow> quoted_part (d @ [APOS] @ t @ [APOS] @ r) (length d) = t"
proof -
  assume "APOS \<notin> set t"
  then have "find_from ((d @ [APOS]) @ t @ [APOS] @ r) [APOS] (length (d @ [APOS])) =
      Some (length (d @ [APOS]) + length t)"
    using find_sub_first[of APOS t "[]" r] by (simp only: find_from_append) simp
  then show ?thesis by (simp add: quoted_part_def)
qed

lemma quoted_close: "APOS \<notin> set t \<Longrightarrow>
  find_from (d @ [APOS] @ t @ [APOS] @ r) [APOS] (length d + 1) = Some (length d + 1 + length t)"
  using find_sub_first[of APOS t "[]" r] find_from_append[of "d @ [APOS]" "t @ [APOS] @ r" "[APOS]"] by simp

lemma tokenize_quoted:
  assumes "APOS \<notin> set t" and "NUL \<notin> set t" and "t \<noteq> []"
  shows "tokenize_loop (d @ [APOS] @ t @ [APOS] @ r) (length d) acc =
    (if CHR '' '' \<in> set (t @ r)
     then tokenize_loop ((d @ [APOS] @ t @ [APOS]) @ r) (length (d @ [APOS] @ t @ [APOS])) (acc @ [t])
     else Some (acc @ [t]))"
proof -
  let ?s = "d @ [APOS] @ t @ [APOS] @ r"
  have open_at: "find_from ?s [APOS] (length d) = Some (length d)" by (simp add: find_char_at)
  have part: "quoted_part ?s (length d) = t" using quoted_part_here[OF assms(1)] .
  have ne: "t \<noteq> [APOS, APOS]" using assms(1) by auto
  have sp: "find_from ?s '' '' (length d) = None \<longleftrightarrow> CHR '' '' \<notin> set (t @ r)"
    by (subst find_from_None_set) simp_all
  show ?thesis
  proof (cases "find_from ?s '' '' (length d)")
    case None
    from tokenize_step_last_quote[OF this open_at, unfolded part] show ?thesis
      using None ne assms sp by (simp add: c_str_id)
  next
    case (Some q)
    then have in_s: "CHR '' '' \<in> set (t @ r)" using sp by auto
    from tokenize_step_quote[OF Some open_at quoted_close[OF assms(1)], unfolded part] in_s
    show ?thesis using assms by (simp add: c_str_id)
  qed
qed

text \<open>The value a decoded component has for the command: \<open>quote_arg\<close> drops a pair of double
  quotes around it.\<close>

definition arg_value :: "string \<Rightarrow> string" where
  "arg_value t = (if t \<noteq> [] \<and> hd t = QUOTE \<and> last t = QUOTE then take (length t - 2) (drop 1 t) else t)"

definition clean_arg :: "string \<Rightarrow> bool" where
  "clean_arg t \<longleftrightarrow> APOS \<notin> set t \<and> NUL \<notin> set t \<and> arg_value t \<noteq> []"

lemma arg_value_set: "set (arg_value t) \<subseteq> set t"
  by (auto simp: arg_value_def dest!: in_set_takeD in_set_dropD)

lemma quote_arg_clean: "APOS \<notin> set t \<Longrightarrow> quote_arg t = '' '' @ [APOS] @ arg_value t @ [APOS]"
proof -
  assume "APOS \<notin> set t"
  then have "\<not> (t \<noteq> [] \<and> hd t = APOS \<and> last t = APOS)" by (metis list.set_sel(1))
  then show ?thesis by (auto simp: quote_arg_def arg_value_def)
qed

lemma tokenize_args:
  "\<forall>t \<in> set ts. clean_arg t \<Longrightarrow>
     tokenize_loop (d @ concat (map quote_arg ts)) (length d) acc = Some (acc @ map arg_value ts)"
proof (induction ts arbitrary: d acc)
  case (Cons t ts)
  have t: "APOS \<notin> set t" "APOS \<notin> set (arg_value t)" "NUL \<notin> set (arg_value t)" "arg_value t \<noteq> []"
    using Cons.prems arg_value_set[of t] by (auto simp: clean_arg_def)
  let ?r = "concat (map quote_arg ts)" and ?d = "(d @ '' '') @ [APOS] @ arg_value t @ [APOS]"
  have q: "d @ concat (map quote_arg (t # ts)) = d @ CHR '' '' # [APOS] @ arg_value t @ [APOS] @ ?r"
    using quote_arg_clean[OF t(1)] by simp
  have r: "CHR '' '' \<notin> set (arg_value t @ ?r) \<Longrightarrow> ts = []"
    using Cons.prems by (cases ts) (auto simp: quote_arg_clean clean_arg_def)
  have "tokenize_loop (d @ concat (map quote_arg (t # ts))) (length d) acc =
      tokenize_loop ((d @ '' '') @ [APOS] @ arg_value t @ [APOS] @ ?r) (length (d @ '' '')) acc"
    unfolding q by (rule tokenize_space)
  also have "\<dots> = (if CHR '' '' \<in> set (arg_value t @ ?r)
      then tokenize_loop (?d @ ?r) (length ?d) (acc @ [arg_value t]) else Some (acc @ [arg_value t]))"
    by (rule tokenize_quoted[OF t(2-4)])
  also have "\<dots> = Some (acc @ map arg_value (t # ts))"
    using Cons.IH[of ?d "acc @ [arg_value t]"] Cons.prems r by simp
  finally show ?case .
qed (simp add: tokenize_end)

lemma tokenize_cli:
  assumes "w \<noteq> []" and "set w \<inter> {CHR '' '', APOS, NUL} = {}" and "\<forall>t \<in> set ts. clean_arg t"
  shows "tokenizeOpCmd (w @ concat (map quote_arg ts)) = Some (w # map arg_value ts)"
proof (cases ts)
  case Nil
  have w0: "find_from w [APOS] 0 \<noteq> Some 0" "find_from w '' '' 0 = None"
    using assms(1,2) find_char_at[of w APOS 0] find_from_None_set[of 0 w "CHR '' ''"]
    by (cases w; auto)+
  have ne: "w \<noteq> [APOS, APOS]" using assms(2) by auto
  have "c_str w = w" using assms(2) by (intro c_str_id) auto
  then show ?thesis using Nil tokenize_step_last_word[OF w0(2,1)] assms(1) ne
    unfolding tokenizeOpCmd_def by simp
next
  case (Cons t ts')
  have t: "APOS \<notin> set t" using assms(3) Cons by (auto simp: clean_arg_def)
  let ?a = "concat (map quote_arg ts)"
  obtain r where a: "?a = CHR '' '' # r" using quote_arg_clean[OF t] Cons by auto
  have sp: "find_from (w @ ?a) '' '' 0 = Some (length w)"
    using find_sub_first[of "CHR '' ''" w "[]" r] assms(2) a by simp
  have nq: "find_from (w @ ?a) [APOS] 0 \<noteq> Some 0"
    using assms(1,2) find_char_at[of "w @ ?a" APOS 0] by (cases w; auto)
  moreover have "c_str w = w" using assms(2) by (intro c_str_id) auto
  ultimately have "tokenizeOpCmd (w @ ?a) = tokenize_loop (w @ ?a) (Suc (length w)) [w]"
    using tokenize_step_word[OF sp nq, of "[]"] assms(1) unfolding tokenizeOpCmd_def by simp
  also have "\<dots> = tokenize_loop (w @ ?a) (length w) [w]"
    unfolding a using tokenize_space[of w r "[w]"] by simp
  also have "\<dots> = Some (w # map arg_value ts)" using tokenize_args[OF assms(3), of w "[w]"] by simp
  finally show ?thesis .
qed

text \<open>An unclosed quote with a space after it sends the scan back to the start.\<close>

lemma tokenize_step_unclosed:
  "find_from s '' '' p = Some q \<Longrightarrow> find_from s [APOS] p = Some p \<Longrightarrow> find_from s [APOS] (p + 1) = None \<Longrightarrow>
     tokenize_loop s p acc = tokenize_loop s 0 (acc @ [c_str (quoted_part s p)])"
  by (subst tokenize_loop.simps) simp

lemma tokenize_unclosed:
  assumes "set w \<inter> {CHR '' '', APOS} = {}" and "w \<noteq> []" and "APOS \<notin> set v" and "CHR '' '' \<in> set v"
    and "tokenize_loop s p acc = Some ts" and "s = w @ '' '' @ [APOS] @ v"
  shows "p \<noteq> 0 \<and> p \<noteq> Suc (length w)"
proof -
  let ?s = "w @ '' '' @ [APOS] @ v"
  have w: "CHR '' '' \<notin> set w" "APOS \<notin> set w" using assms(1) by auto
  have sp0: "find_from ?s '' '' 0 = Some (length w)"
    using find_sub_first[OF w(1), of "[]" "[APOS] @ v"] by simp
  have q0: "find_from ?s [APOS] 0 \<noteq> Some 0"
    using find_char_at[of ?s APOS 0] assms(2) w(2) by (cases w; auto)
  have q1: "find_from ?s [APOS] (Suc (length w)) = Some (Suc (length w))"
    by (simp add: find_char_at nth_append)
  have c1: "find_from ?s [APOS] (Suc (length w) + 1) = None"
    by (subst find_from_None_set) (use assms(3) in simp_all)
  have "find_from ?s '' '' (Suc (length w)) \<noteq> None"
    by (subst find_from_None_set) (use assms(4) in simp_all)
  then obtain q where sp1: "find_from ?s '' '' (Suc (length w)) = Some q" by auto
  have "s = ?s \<longrightarrow> p \<noteq> 0 \<and> p \<noteq> Suc (length w)"
  proof (rule tokenize_loop.raw_induct[where P = "\<lambda>s p acc ts. s = ?s \<longrightarrow> p \<noteq> 0 \<and> p \<noteq> Suc (length w)",
        OF _ assms(5)], rule impI, rule ccontr)
    fix f :: "string \<Rightarrow> nat \<Rightarrow> string list \<Rightarrow> string list option" and s p acc y
    assume IH: "\<And>s p acc y. f s p acc = Some y \<Longrightarrow> s = ?s \<longrightarrow> p \<noteq> 0 \<and> p \<noteq> Suc (length w)"
      and eq: "(case find_from s '' '' p of
          None \<Rightarrow>
            (let part = (if find_from s [APOS] p = Some p then quoted_part s p else drop p s)
             in Some (if part \<noteq> [] \<and> part \<noteq> [APOS, APOS] then acc @ [c_str part] else acc))
        | Some seploc \<Rightarrow>
            if find_from s [APOS] p = Some p
            then f s (npos_plus (find_from s [APOS] (p + 1)) 1) (acc @ [c_str (quoted_part s p)])
            else (let part = take (seploc - p) (drop p s)
                  in f s (seploc + 1) (if part \<noteq> [] then acc @ [c_str part] else acc))) = Some y"
      and s: "s = ?s" and "\<not> (p \<noteq> 0 \<and> p \<noteq> Suc (length w))"
    then consider "p = 0" | "p = Suc (length w)" by blast
    then show False
    proof cases
      case 1
      then have "\<exists>a. f ?s (length w + 1) a = Some y"
        using eq[unfolded s 1 sp0 option.case] q0 unfolding Let_def by auto
      then show ?thesis using IH by auto
    next
      case 2
      then have "\<exists>a. f ?s 0 a = Some y"
        using eq[unfolded s 2 sp1 option.case] q1 unfolding c1 by auto
      then show ?thesis using IH by auto
    qed
  qed
  then show ?thesis using assms(6) by blast
qed

section \<open>Lemmas: arguments of the command\<close>

lemma fold_add_array:
  assumes "es \<noteq> []"
  shows "fold (\<lambda>t j. add_array ''args'' t False j) ts (JSON [] [(''args'', es)] []) =
     JSON [] [(''args'', es @ map (\<lambda>t. [QUOTE] @ t @ [QUOTE]) (filter (\<lambda>t. t \<noteq> []) ts))] []"
  using assms by (induction ts arbitrary: es) (simp_all add: add_array_def array_elem_def)

lemma args_json:
  "fold (\<lambda>t j. add_array ''args'' t False j) ts json_new =
     (let es = map (\<lambda>t. [QUOTE] @ t @ [QUOTE]) (filter (\<lambda>t. t \<noteq> []) ts)
      in if es = [] then json_new else JSON [] [(''args'', es)] [])"
proof (induction ts)
  case (Cons t ts)
  show ?case
  proof (cases "t = []")
    case True
    then show ?thesis using Cons by (simp add: add_array_def)
  next
    case False
    then have "add_array ''args'' t False json_new = JSON [] [(''args'', [[QUOTE] @ t @ [QUOTE]])] []"
      by (simp add: add_array_def json_new_def map_insert_def array_elem_def)
    then show ?thesis using False by (simp add: fold_add_array Let_def)
  qed
qed simp

lemma opc_args_eq:
  "opc_args ts =
     (let es = map (\<lambda>t. [QUOTE] @ t @ [QUOTE]) (filter (\<lambda>t. t \<noteq> []) ts)
      in ''OPC_ARGS='' @ (if es = [] then []
           else ''{'' @ [QUOTE] @ ''args'' @ [QUOTE] @ '':['' @ join '','' es @ '']}''))"
  unfolding opc_args_def args_json
  by (simp add: Let_def json_serialize_flat flat_def members_def array_member_def json_new_def)

text \<open>The argument list that a JSON reader finds in the variable: a list of strings between quotes, where a backslash
  takes the next character and a control character or a missing quote is an error.\<close>

definition json_escape :: "char \<Rightarrow> char option" where
  "json_escape d =
     (if d \<in> set [QUOTE, BSLASH, CHR ''/''] then Some d else if d = CHR ''n'' then Some NL
      else if d = CHR ''r'' then Some CR else if d = CHR ''t'' then Some TAB else None)"

fun read_string :: "string \<Rightarrow> (string \<times> string) option" where
  "read_string [] = None"
| "read_string [c] = (if c = QUOTE then Some ([], []) else None)"
| "read_string (c # d # s) =
     (if c = QUOTE then Some ([], d # s)
      else if c = BSLASH then
        (case (json_escape d, read_string s) of (Some x, Some (v, r)) \<Rightarrow> Some (x # v, r) | _ \<Rightarrow> None)
      else if CHR 0x20 \<le> c then map_option (\<lambda>(v, r). (c # v, r)) (read_string (d # s)) else None)"

lemma read_string_length: "read_string s = Some (v, r) \<Longrightarrow> length r < length s"
proof (induction s arbitrary: v r rule: read_string.induct)
  case (3 c d s)
  then show ?case by (fastforce split: if_splits option.splits prod.splits)
qed (auto split: if_splits)

function read_strings :: "string \<Rightarrow> string list option" where
  "read_strings s =
     (case s of [] \<Rightarrow> None
      | c # s1 \<Rightarrow> if c \<noteq> QUOTE then None
          else (case read_string s1 of None \<Rightarrow> None
                | Some (v, r) \<Rightarrow>
                    if r = '']}'' then Some [v]
                    else if r \<noteq> [] \<and> hd r = CHR '','' then map_option ((#) v) (read_strings (tl r))
                    else None))"
  by pat_completeness auto
termination
  by (relation "measure length") (auto dest!: read_string_length)

declare read_strings.simps [simp del]

definition opc_arguments :: "string \<Rightarrow> string list option" where
  "opc_arguments var =
     (let head = ''OPC_ARGS={'' @ [QUOTE] @ ''args'' @ [QUOTE] @ '':[''
      in if prefix head var then read_strings (drop (length head) var) else None)"

text \<open>Tokens that stand for themselves in a JSON string.\<close>

definition json_plain :: "string \<Rightarrow> bool" where
  "json_plain t \<longleftrightarrow> t \<noteq> [] \<and> list_all (\<lambda>c. c \<noteq> QUOTE \<and> c \<noteq> BSLASH \<and> CHR 0x20 \<le> c) t"

lemma json_plain_no_NUL:
  assumes "json_plain t"
  shows "NUL \<notin> set t"
proof
  assume "NUL \<in> set t"
  then have "CHR 0x20 \<le> NUL" using assms unfolding json_plain_def list_all_iff by blast
  then show False by (simp add: less_eq_char_def)
qed

lemma read_string_plain:
  "list_all (\<lambda>c. c \<noteq> QUOTE \<and> c \<noteq> BSLASH \<and> CHR 0x20 \<le> c) t \<Longrightarrow> read_string (t @ QUOTE # r) = Some (t, r)"
proof (induction t)
  case Nil
  show ?case by (cases r) simp_all
next
  case (Cons c t)
  then show ?case by (cases "t @ QUOTE # r") auto
qed

lemma read_strings_join:
  "ts \<noteq> [] \<Longrightarrow> \<forall>t \<in> set ts. json_plain t \<Longrightarrow>
   read_strings (join '','' (map (\<lambda>t. [QUOTE] @ t @ [QUOTE]) ts) @ '']}'') = Some ts"
proof (induction ts)
  case (Cons t ts)
  have t: "read_string (t @ QUOTE # r) = Some (t, r)" for r using Cons.prems by (simp add: json_plain_def read_string_plain)
  show ?case
  proof (cases ts)
    case Nil
    then show ?thesis using t by (subst read_strings.simps) simp
  next
    case (Cons u us)
    then have "join '','' (map (\<lambda>t. [QUOTE] @ t @ [QUOTE]) (t # ts)) @ '']}'' =
        QUOTE # t @ QUOTE # CHR '','' # (join '','' (map (\<lambda>t. [QUOTE] @ t @ [QUOTE]) ts) @ '']}'')" by simp
    then show ?thesis using t Cons.IH Cons.prems Cons by (subst read_strings.simps) simp
  qed
qed simp

lemma opc_arguments_args:
  assumes "ts \<noteq> []" "\<forall>t \<in> set ts. json_plain t"
  shows "opc_arguments (opc_args ts) = Some ts"
proof -
  have "filter (\<lambda>t. t \<noteq> []) ts = ts" using assms(2) by (intro filter_True) (auto simp: json_plain_def)
  then have "opc_args ts = (''OPC_ARGS={'' @ [QUOTE] @ ''args'' @ [QUOTE] @ '':['') @
      join '','' (map (\<lambda>t. [QUOTE] @ t @ [QUOTE]) ts) @ '']}''" using assms(1) by (simp add: opc_args_eq Let_def)
  then show ?thesis using read_strings_join[OF assms] unfolding opc_arguments_def Let_def by simp
qed

lemma opc_args_no_NUL:
  assumes "\<forall>t \<in> set ts. NUL \<notin> set t"
  shows "NUL \<notin> set (opc_args ts)"
proof -
  have "NUL \<notin> set (join '','' (map (\<lambda>t. [QUOTE] @ t @ [QUOTE]) (filter (\<lambda>t. t \<noteq> []) ts)))"
    using assms join_set[of "'',''" "map (\<lambda>t. [QUOTE] @ t @ [QUOTE]) (filter (\<lambda>t. t \<noteq> []) ts)"]
    by (auto split: if_splits)
  then show ?thesis by (auto simp: opc_args_eq Let_def)
qed

section \<open>Lemmas: output files\<close>

lemma end_file_neq: "end_file token \<noteq> chunk_file token"
  by (simp add: end_file_def chunk_file_def)

lemma append_file_other: "p \<noteq> path \<Longrightarrow> append_file wr fs path str p = fs p"
  by (cases wr) (simp_all add: append_file_def Let_def)

lemma reader_states_no_marker:
  "fs (end_file token) = None \<Longrightarrow>
     \<forall>f \<in> set (butlast (reader bufs wr wr_end fs tmp token)). f (end_file token) = None"
proof (induction bufs wr wr_end fs tmp token rule: reader.induct)
  case (1 wr wr_end fs tmp token)
  then show ?case
    by (simp add: process_chunk_end_def Let_def append_file_other end_file_neq split: option.splits)
next
  case (2 buf w bufs wr wr_end fs tmp token)
  let ?fs = "append_file w fs (chunk_file token) (tmp @ c_str buf)"
  have "?fs (end_file token) = None" using 2 by (simp add: append_file_other end_file_neq)
  then show ?case using 2 by (auto simp: process_chunk_def)
qed

definition file_text :: "files \<Rightarrow> string \<Rightarrow> string" where
  "file_text fs p = (case fs p of Some c \<Rightarrow> c | None \<Rightarrow> [])"

lemma append_file_text: "file_text (append_file W_ok fs p s) p = file_text fs p @ s"
  by (simp add: append_file_def file_text_def)

lemma append_file_prefix: "prefix (file_text fs p) (file_text (append_file wr fs q s) p)"
  by (cases wr) (simp_all add: append_file_def file_text_def Let_def split: option.splits)

lemma reader_nonempty: "reader bufs wr wr_end fs tmp token \<noteq> []"
  by (cases bufs) (auto simp: process_chunk_end_def Let_def split: prod.splits)

lemma reader_last_text:
  "\<forall>b \<in> set bufs. snd b = W_ok \<Longrightarrow>
     file_text (last (reader bufs W_ok wr_end fs [] token)) (chunk_file token) =
       file_text fs (chunk_file token) @ concat (map (c_str \<circ> fst) bufs)"
proof (induction bufs arbitrary: fs)
  case Nil
  have "chunk_file token \<noteq> end_file token" using end_file_neq[of token] by simp
  then show ?case using append_file_text[of fs "chunk_file token" "[]"]
    by (cases wr_end) (simp_all add: process_chunk_end_def Let_def file_text_def)
next
  case (Cons b bufs)
  obtain buf where b: "b = (buf, W_ok)" using Cons.prems by (cases b) auto
  show ?case using Cons by (simp add: b process_chunk_def append_file_text reader_nonempty)
qed

lemma reader_last_marker: "last (reader bufs wr W_ok fs tmp token) (end_file token) = Some ''end''"
  by (induction bufs wr W_ok fs tmp token rule: reader.induct)
    (auto simp: process_chunk_end_def process_chunk_def Let_def reader_nonempty)

section \<open>Properties\<close>

text \<open>The tokeniser returns on every command in which each apostrophe that a space follows
  has another apostrophe after it; a command that ends with an apostrophe is of this
  form.\<close>

theorem tokenize_returns:
  assumes "quotes_closed cmd"
  shows "\<exists>ts. tokenizeOpCmd cmd = Some ts"
  unfolding tokenizeOpCmd_def using tokenize_loop_returns[OF assms] by simp

theorem tokenize_returns_witness:
  "\<exists>ts. tokenizeOpCmd (''ping '' @ [APOS] @ ''a b'' @ [APOS]) = Some ts"
  using tokenize_returns[OF quotes_closed_last[of "''ping '' @ [APOS] @ ''a b'' @ [APOS]" "''ping '' @ [APOS] @ ''a b''"]]
  by simp

text \<open>C22: Tokenising a command line made of a word without blanks, apostrophes and NUL, and of arguments quoted the way
  \<open>translate_rest_to_cli\<close> quotes them, gives back the word and the arguments, less a pair of double quotes around an
  argument. The arguments contain no apostrophe and no NUL and are not empty, also without those double quotes.\<close>

theorem tokenize_roundtrip:
  assumes "w \<noteq> []" and "set w \<inter> {CHR '' '', APOS, NUL} = {}" and "\<forall>t \<in> set ts. clean_arg t"
  shows "tokenizeOpCmd (w @ concat (map quote_arg ts)) = Some (w # map arg_value ts)"
  using assms by (rule tokenize_cli)

theorem tokenize_roundtrip_witness:
  "tokenizeOpCmd (''show '' @ [APOS] @ ''log file'' @ [APOS] @ '' '' @ [APOS] @ ''5'' @ [APOS]) =
     Some [''show'', ''log file'', ''5'']"
  using tokenize_roundtrip[of "''show''" "[''log file'', ''5'']"]
  by (simp add: clean_arg_def arg_value_def quote_arg_def)

text \<open>On a word followed by a quote that is not closed and has a space after it the
  tokeniser never returns.\<close>

theorem tokenize_unclosed_hangs:
  assumes "w \<noteq> []" and "set w \<inter> {CHR '' '', APOS} = {}" and "APOS \<notin> set v" and "CHR '' '' \<in> set v"
  shows "tokenizeOpCmd (w @ '' '' @ [APOS] @ v) = None"
proof (rule ccontr)
  assume "tokenizeOpCmd (w @ '' '' @ [APOS] @ v) \<noteq> None"
  then obtain ts where "tokenize_loop (w @ '' '' @ [APOS] @ v) 0 [] = Some ts"
    by (auto simp: tokenizeOpCmd_def)
  from tokenize_unclosed[OF assms(2,1,3,4) this refl] show False by simp
qed

theorem tokenize_unclosed_hangs_witness:
  "tokenizeOpCmd (''show '' @ [APOS] @ ''a b'') = None"
  using tokenize_unclosed_hangs[of "''show''" "''a b''"] by simp

text \<open>The \<open>OPC_ARGS\<close> value is a well-formed JSON object when some token is not empty and
  every token is escaped string contents.\<close>

theorem opc_args_json:
  assumes "\<forall>t \<in> set ts. json_str_ok t" and "\<exists>t \<in> set ts. t \<noteq> []"
  shows "\<exists>j. opc_args ts = ''OPC_ARGS='' @ j \<and> json_text j"
proof -
  let ?es = "map (\<lambda>t. [QUOTE] @ t @ [QUOTE]) (filter (\<lambda>t. t \<noteq> []) ts)"
  have es: "?es \<noteq> []" using assms(2) by (auto simp: filter_empty_conv)
  have "\<forall>e \<in> set ?es. json_text e"
  proof
    fix e assume "e \<in> set ?es"
    then obtain t where "t \<in> set ts" "e = [QUOTE] @ t @ [QUOTE]" by auto
    then show "json_text e" using assms(1) json_str by blast
  qed
  then have "json_text (''['' @ join '','' ?es @ '']'')" by (rule json_arr)
  moreover have "json_str_ok ''args''" by simp
  ultimately have "json_text (''{'' @ [QUOTE] @ ''args'' @ [QUOTE] @ '':'' @ (''['' @ join '','' ?es @ '']'') @ ''}'')"
    using json_obj[of "[(''args'', ''['' @ join '','' ?es @ '']'')]"] by simp
  moreover have "opc_args ts = ''OPC_ARGS='' @ ''{'' @ [QUOTE] @ ''args'' @ [QUOTE] @ '':'' @ (''['' @ join '','' ?es @ '']'') @ ''}''"
    using es by (simp add: opc_args_eq Let_def)
  ultimately show ?thesis by blast
qed

theorem opc_args_json_witness:
  "\<exists>j. opc_args [''show'', ''version''] = ''OPC_ARGS='' @ j \<and> json_text j"
  by (rule opc_args_json) simp_all

text \<open>The tokens are not escaped: double quotes inside an argument end it, and what follows is read as further
  arguments.\<close>

theorem opc_args_injected:
  assumes "w \<noteq> []" and "a \<noteq> []" and "b \<noteq> []"
  shows "opc_args [w, a @ [QUOTE] @ '','' @ [QUOTE] @ b] = opc_args [w, a, b]"
  using assms by (simp add: opc_args_eq Let_def)

theorem opc_args_injected_witness:
  "opc_args [''show'', ''a'' @ [QUOTE] @ '','' @ [QUOTE] @ ''b''] = opc_args [''show'', ''a'', ''b'']"
  by (rule opc_args_injected) simp_all

text \<open>C14: Whatever the system calls answer, a command that is executed runs with the login,
  user and group number of the named account and with its groups.\<close>

theorem command_runs_as_user:
  assumes "start_new os fs cr pid_path token cmd user = (r, fs', ends)"
    and "Exec_opc c env \<in> set ends"
  shows "\<exists>uid gid groups. os_getpwnam os (c_str user) = Some (uid, gid) \<and>
     os_getgrouplist os (c_str user) gid = Some groups \<and>
     c_loginuid c = uid \<and> c_uid c = uid \<and> c_gid c = gid \<and> c_groups c = groups \<and>
     env = writer_env user cmd"
  using assms
  by (auto simp: start_new_def writer_proc_def writer_def Let_def split: if_splits option.splits prod.splits)

definition example_os :: spawn_os where
  "example_os = \<lparr>os_fork = True, os_pipe = True, os_fork_writer = True, os_getpgrp = 77, os_pidfile = W_ok, os_execve = True,
     os_getpwnam = (\<lambda>u. if u = ''vyatta'' then Some (1000, 100) else None),
     os_setloginuid = True, os_getgrouplist = (\<lambda>u g. Some [g, 110]),
     os_setgroups = True, os_setgid = True, os_setuid = True\<rparr>"

theorem command_runs_as_user_witness:
  "case start_new example_os Map.empty \<lparr>c_loginuid = 0, c_uid = 0, c_gid = 0, c_groups = []\<rparr>
      ''/tmp'' ''t'' ''show'' ''vyatta'' of
     (r, fs', ends) \<Rightarrow> (case ends ! 1 of Exec_opc c env \<Rightarrow> c_uid c = 1000 \<and> c_groups c = [100, 110] | _ \<Rightarrow> False)"
  using command_runs_as_user[of example_os Map.empty "\<lparr>c_loginuid = 0, c_uid = 0, c_gid = 0, c_groups = []\<rparr>"
      "''/tmp''" "''t''" "''show''" "''vyatta''"]
  by (simp add: start_new_def writer_proc_def writer_def example_os_def)

text \<open>C32: When every write succeeds, the end marker of a command is absent in every state of
  the files but the last, and in the last state the data file holds the whole output, up
  to the first NUL of each buffer.\<close>

theorem reader_marker_last:
  assumes "\<forall>b \<in> set bufs. snd b = W_ok" and "fs (end_file token) = None"
  shows "(\<forall>f \<in> set (butlast (reader bufs W_ok W_ok fs [] token)). f (end_file token) = None) \<and>
    last (reader bufs W_ok W_ok fs [] token) (end_file token) = Some ''end'' \<and>
    file_text (last (reader bufs W_ok W_ok fs [] token)) (chunk_file token) =
      file_text fs (chunk_file token) @ concat (map (c_str \<circ> fst) bufs)"
proof -
  have "last (reader bufs W_ok W_ok fs [] token) (end_file token) = Some ''end''"
    by (rule reader_last_marker)
  then show ?thesis using assms reader_states_no_marker reader_last_text by blast
qed

theorem reader_marker_last_witness:
  "file_text (last (reader [(''ab'', W_ok), (''c'', W_ok)] W_ok W_ok Map.empty [] ''t'')) (chunk_file ''t'') = ''abc''"
  using reader_marker_last[of "[(''ab'', W_ok), (''c'', W_ok)]" Map.empty "''t''"]
  by (simp add: file_text_def)

end
