(* ===== verification/Chunker_Manager.thy ===== *)
theory Chunker_Manager
  imports Chunker_Processor
begin

text \<open>
  \<open>chunker2_manager.hh\<close>, \<open>chunker2_manager.cc\<close> and the daemon loop of
  \<open>chunker2_main.cc\<close>: the table of background commands and the messages that act on it.
  The shell commands the manager runs, the processes it starts and the files are a
  \<open>world\<close> that every operation returns updated; time, the answers of the system calls and
  the contents of uninitialised memory are arguments.
\<close>

section \<open>State\<close>

definition CHUNKER_SOCKET :: string where [rest_consts]: "CHUNKER_SOCKET = ''/tmp/browser_pager2''"

datatype ProcStatus = K_NONE | K_RUNNING | K_DEAD

record ProcessData =
  start_time :: "64 word"
  last_update :: "64 word"
  pd_command :: string
  pd_token :: string
  pd_user :: string
  read_offset :: "64 word"
  pd_status :: ProcStatus

definition ProcessData_new :: ProcessData where
  "ProcessData_new = \<lparr>start_time = 0, last_update = 0, pd_command = [], pd_token = [], pd_user = [],
     read_offset = 0, pd_status = K_NONE\<rparr>"

record manager =
  proc_coll :: "(string \<times> ProcessData) list"
  m_pid :: string
  m_kill_timeout :: "64 word"
  chunk_size :: "64 word"

definition manager_new :: "string \<Rightarrow> 64 word \<Rightarrow> 64 word \<Rightarrow> manager" where
  "manager_new pid kt cs = \<lparr>proc_coll = [], m_pid = pid, m_kill_timeout = kt, chunk_size = cs\<rparr>"

record world =
  w_files :: files
  w_procs :: "proc_end list"
  w_cmds :: "string list"

text \<open>The answers of the system during the handling of one message: \<open>e_exists n path\<close> is the
  \<open>stat\<close> of attempt \<open>n\<close>, \<open>e_junk\<close> what follows the bytes read into the stack buffer of
  \<open>kill_process\<close>.\<close>

record manager_env =
  e_os :: spawn_os
  e_cred :: cred
  e_time :: "64 word"
  e_exists :: "nat \<Rightarrow> string \<Rightarrow> bool"
  e_junk :: string
  e_system :: "string \<Rightarrow> nat option"

section \<open>\<open>run_cmd\<close>, \<open>init\<close>\<close>

text \<open>\<open>system\<close> answers None for -1; the command goes to the trace of the world.\<close>

definition run_cmd :: "(string \<Rightarrow> nat option) \<Rightarrow> string \<Rightarrow> world \<Rightarrow> bool \<times> world" where
  "run_cmd sys cmd w =
     ((case sys (c_str cmd) of None \<Rightarrow> False
       | Some status \<Rightarrow> WIFEXITED status \<and> WEXITSTATUS status = 0),
      w\<lparr>w_cmds := w_cmds w @ [c_str cmd]\<rparr>)"

abbreviation exec_cmd :: "manager_env \<Rightarrow> string \<Rightarrow> world \<Rightarrow> world" where
  "exec_cmd e cmd w \<equiv> snd (run_cmd (e_system e) cmd w)"

definition clean_cmd :: string where
  "clean_cmd = ''rm -f '' @ CHUNKER_RESP_TOK_DIR @ ''/* >/dev/null''"

text \<open>The flag is whether the daemon ends up with a bound socket.\<close>

definition manager_init :: "manager_env \<Rightarrow> bool \<Rightarrow> bool \<Rightarrow> world \<Rightarrow> bool \<times> world" where
  "manager_init e sock_ok bind_ok w =
     (let w1 = exec_cmd e clean_cmd w;
          w2 = exec_cmd e (''rm -f '' @ CHUNKER_SOCKET) w1
      in (sock_ok \<and> bind_ok, w2))"

section \<open>Reading a message\<close>

text \<open>
  The text between the first opening tag and the first closing tag. The count is a
  \<open>size_t\<close> difference: when the closing tag starts before the end of the opening tag it
  wraps and the whole rest is taken (\<open>tag_count_word\<close>).
\<close>

definition tag_value :: "string \<Rightarrow> string \<Rightarrow> string \<Rightarrow> string option" where
  "tag_value open_tag close_tag command =
     (case (find_sub open_tag command, find_sub close_tag command) of
        (Some start_pos, Some stop_pos) \<Rightarrow>
          (let p = start_pos + length open_tag
           in Some (if p \<le> stop_pos then take (stop_pos - p) (drop p command) else drop p command))
      | _ \<Rightarrow> None)"

definition tag_or_empty :: "string \<Rightarrow> string \<Rightarrow> string \<Rightarrow> string" where
  "tag_or_empty o_tag c_tag command = (case tag_value o_tag c_tag command of Some v \<Rightarrow> v | None \<Rightarrow> [])"

section \<open>The message handlers\<close>

text \<open>\<open><command>\<close>: an empty statement for a known token only refreshes its time; anything
  else starts a process, and \<open>insert\<close> keeps an entry the token already has.\<close>

definition handle_command :: "manager_env \<Rightarrow> string \<Rightarrow> string \<Rightarrow> string \<Rightarrow> manager \<Rightarrow> world \<Rightarrow> manager \<times> world" where
  "handle_command e token statement user m w =
     (case (map_of (proc_coll m) token, statement = []) of
        (Some pd, True) \<Rightarrow>
          (m\<lparr>proc_coll := map_put token (pd\<lparr>last_update := e_time e\<rparr>) (proc_coll m)\<rparr>, w)
      | _ \<Rightarrow>
          (case start_new (e_os e) (w_files w) (e_cred e) (m_pid m) token statement user of
             (started, fs, ends) \<Rightarrow>
               (if started
                then m\<lparr>proc_coll := map_insert token
                   (ProcessData_new\<lparr>start_time := e_time e, last_update := e_time e, pd_token := token,
                      pd_command := statement, pd_user := user, pd_status := K_RUNNING\<rparr>) (proc_coll m)\<rparr>
                else m,
                w\<lparr>w_files := fs, w_procs := w_procs w @ ends\<rparr>)))"

text \<open>The fields of one table entry.\<close>

definition entry_text :: "ProcessData \<Rightarrow> string" where
  "entry_text pd = fmt_ld (start_time pd) @ ''%3A'' @ pd_command pd @ ''%3A'' @ pd_token pd @ ''%3A''
     @ pd_user pd @ ''%3A'' @ fmt_ld (read_offset pd)"

fun handle_process :: "string \<Rightarrow> (string \<times> ProcessData) list \<Rightarrow> string" where
  "handle_process user [] = []"
| "handle_process user ((k, pd) # r) =
     (if pd_user pd \<noteq> user then handle_process user r
      else entry_text pd @ ''%2C'' @ handle_process user r)"

fun handle_details :: "string \<Rightarrow> string \<Rightarrow> (string \<times> ProcessData) list \<Rightarrow> string" where
  "handle_details token user [] = []"
| "handle_details token user ((k, pd) # r) =
     (if pd_user pd \<noteq> user then handle_details token user r
      else if token \<noteq> pd_token pd then handle_details token user r
      else entry_text pd @ ''%2C'' @ handle_details token user r)"

text \<open>\<open><next>\<close> answers with the old offset and moves it on. \<open>(unsigned)s.st_size\<close> keeps the
  low 32 bits of the size; the sum of offset and chunk size is a 64-bit sum.\<close>

definition file_size :: "files \<Rightarrow> string \<Rightarrow> 64 word option" where
  "file_size fs p = map_option (\<lambda>c. of_nat (length c)) (fs p)"

definition advance :: "files \<Rightarrow> string \<Rightarrow> 64 word \<Rightarrow> ProcessData \<Rightarrow> ProcessData" where
  "advance fs token cs pd =
     (case file_size fs (chunk_file token) of None \<Rightarrow> pd
      | Some st_size \<Rightarrow>
          if read_offset pd + cs < take_bit 32 st_size
          then pd\<lparr>read_offset := read_offset pd + cs\<rparr>
          else (let pd' = pd\<lparr>read_offset := st_size\<rparr>
                in if fs (end_file token) \<noteq> None then pd'\<lparr>pd_status := K_DEAD\<rparr> else pd'))"

definition handle_next :: "files \<Rightarrow> string \<Rightarrow> string \<Rightarrow> manager \<Rightarrow> string \<times> manager" where
  "handle_next fs token user m =
     (case map_of (proc_coll m) token of
        None \<Rightarrow> (''  '', m)
      | Some pd \<Rightarrow>
          if user \<noteq> pd_user pd then ([], m)
          else
            (let pd1 = (if pd_status pd = K_DEAD then pd\<lparr>read_offset := - 1\<rparr> else pd);
                 resp = entry_text pd1 @ [NL];
                 pd2 = advance fs token (chunk_size m) pd1
             in (resp, m\<lparr>proc_coll := map_put token pd2 (proc_coll m)\<rparr>)))"

section \<open>\<open>kill_process\<close>, \<open>kill_all\<close>, \<open>shutdown\<close>\<close>

text \<open>Up to \<open>ct\<close> attempts, each followed by a check whether the process is still there.\<close>

fun term_loop :: "manager_env \<Rightarrow> string \<Rightarrow> string \<Rightarrow> nat \<Rightarrow> world \<Rightarrow> bool \<times> world" where
  "term_loop e term_cmd exist_file 0 w = (False, w)"
| "term_loop e term_cmd exist_file (Suc ct) w =
     (let w1 = exec_cmd e term_cmd w
      in if \<not> e_exists e (2 - ct) exist_file then (True, w1)
         else term_loop e term_cmd exist_file ct w1)"

definition kill_process :: "manager_env \<Rightarrow> string \<Rightarrow> manager \<Rightarrow> world \<Rightarrow> manager \<times> world" where
  "kill_process e key m w =
     (let file = c_str (CHUNKER_RESP_PID @ ''/'' @ key) in
      case w_files w file of
        None \<Rightarrow> (m, w)
      | Some content \<Rightarrow>
          if content = [] then (m, w)
          else
            (let pid = c_str (take 80 content @ e_junk e);
                 w1 = w\<lparr>w_files := (w_files w)(file := None)\<rparr>;
                 (killed, w2) = term_loop e (''kill -15 -'' @ pid) (''/proc/'' @ pid @ ''/stat'') 3 w1;
                 w3 = (if killed then w2 else exec_cmd e (''kill -9 -'' @ pid) w2)
             in (m\<lparr>proc_coll := map_erase key (proc_coll m)\<rparr>, w3)))"

text \<open>The iteration goes on with the iterator of the entry that \<open>kill_process\<close> erased.\<close>

fun kill_all_loop :: "manager_env \<Rightarrow> string list \<Rightarrow> manager \<Rightarrow> world \<Rightarrow> (manager \<times> world) res" where
  "kill_all_loop e [] m w = Inr (m, w)"
| "kill_all_loop e (key # keys) m w =
     (if key = [] then kill_all_loop e keys m w
      else case kill_process e key m w of
        (m1, w1) \<Rightarrow>
          if map_of (proc_coll m1) key = None then Inl DanglingIterator
          else kill_all_loop e keys m1 w1)"

definition kill_all :: "manager_env \<Rightarrow> manager \<Rightarrow> world \<Rightarrow> (manager \<times> world) res" where
  "kill_all e m w = kill_all_loop e (map fst (proc_coll m)) m w"

definition manager_shutdown :: "manager_env \<Rightarrow> manager \<Rightarrow> world \<Rightarrow> (manager \<times> world) res" where
  "manager_shutdown e m w =
     bind_res (kill_all e m w) (\<lambda>(m1, w1). Inr (m1, exec_cmd e clean_cmd w1))"

section \<open>\<open>process\<close> and \<open>read\<close>\<close>

text \<open>The reply is None when nothing is written to the socket.\<close>

definition manager_process :: "manager_env \<Rightarrow> int \<Rightarrow> string \<Rightarrow> manager \<Rightarrow> world \<Rightarrow> string option \<times> manager \<times> world" where
  "manager_process e sock buf m w =
     (if sock = 0 then (None, m, w)
      else let command = c_str buf in
      case tag_value ''<token>'' ''</token>'' command of
        None \<Rightarrow> (None, m, w)
      | Some token \<Rightarrow>
         (let statement = tag_or_empty ''<statement>'' ''</statement>'' command;
              user = tag_or_empty ''<user>'' ''</user>'' command
          in if contains command ''<command>'' then
               (None, handle_command e token statement user m w)
             else if contains command ''<process>'' then
               (Some (handle_process user (proc_coll m)), m, w)
             else if contains command ''<details>'' then
               (Some (handle_details token user (proc_coll m)), m, w)
             else if contains command ''<next>'' then
               (case handle_next (w_files w) token user m of (resp, m1) \<Rightarrow> (Some resp, m1, w))
             else if contains command ''<delete>'' then
               (None, kill_process e token m w)
             else (None, m, w)))"

text \<open>What \<open>accept\<close> and \<open>read\<close> deliver: no connection; a connection whose read fails, where
  the terminator is stored before the buffer; a connection with data, of which at most
  1024 bytes are read.\<close>

datatype connection = No_conn | Read_error | Conn int string

definition manager_read :: "manager_env \<Rightarrow> connection \<Rightarrow> manager \<Rightarrow> world \<Rightarrow> (string option \<times> manager \<times> world) res" where
  "manager_read e c m w =
     (case c of No_conn \<Rightarrow> Inr (None, m, w)
      | Read_error \<Rightarrow> Inl BufferOverflow
      | Conn sock bytes \<Rightarrow> Inr (manager_process e sock (take 1024 bytes) m w))"

section \<open>\<open>main\<close>: options and the daemon loop\<close>

datatype copt = Opt_s string | Opt_i string | Opt_p string | Opt_k string | Opt_d | Opt_help

record chunker_opts =
  o_pid_path :: string
  o_process_pid_path :: string
  o_chunk_size :: "64 word"
  o_kill_timeout :: "64 word"
  o_debug :: bool

definition opts_default :: chunker_opts where
  "opts_default = \<lparr>o_pid_path = CHUNKER_RESP_PID, o_process_pid_path = [],
     o_chunk_size = of_nat CHUNKER_READ_SIZE, o_kill_timeout = 300, o_debug = False\<rparr>"

text \<open>\<open>chunk_size\<close> is a \<open>long\<close>: the comparison is signed. None is the exit after the usage text.\<close>

fun chunker_getopt :: "copt list \<Rightarrow> chunker_opts \<Rightarrow> chunker_opts option" where
  "chunker_getopt [] c = Some c"
| "chunker_getopt (Opt_s a # r) c =
     (let v = (of_nat (strtoul10 a) :: 64 word)
      in chunker_getopt r (c\<lparr>o_chunk_size :=
           (if sint v < 1024 \<or> 131072 < sint v then of_nat CHUNKER_READ_SIZE else v)\<rparr>))"
| "chunker_getopt (Opt_i a # r) c = chunker_getopt r (c\<lparr>o_pid_path := a\<rparr>)"
| "chunker_getopt (Opt_p a # r) c = chunker_getopt r (c\<lparr>o_process_pid_path := a\<rparr>)"
| "chunker_getopt (Opt_k a # r) c =
     (let v = (of_nat (strtoul10 a) :: 64 word)
      in chunker_getopt r (c\<lparr>o_kill_timeout := (if 86400 < v then 86400 else v)\<rparr>))"
| "chunker_getopt (Opt_d # r) c = chunker_getopt r (c\<lparr>o_debug := True\<rparr>)"
| "chunker_getopt (Opt_help # r) c = None"

text \<open>The loop handles one connection per turn until the signal; in between the background
  processes change the files.\<close>

datatype chunker_event = Turn manager_env connection | Files_change files

fun chunker_loop :: "chunker_event list \<Rightarrow> manager \<Rightarrow> world \<Rightarrow> (string option list \<times> manager \<times> world) res" where
  "chunker_loop [] m w = Inr ([], m, w)"
| "chunker_loop (Files_change fs # evs) m w = chunker_loop evs m (w\<lparr>w_files := fs\<rparr>)"
| "chunker_loop (Turn e c # evs) m w =
     bind_res (manager_read e c m w) (\<lambda>(r, m1, w1).
       bind_res (chunker_loop evs m1 w1) (\<lambda>(rs, m2, w2). Inr (r # rs, m2, w2)))"

text \<open>The daemon from its options to its exit; None is the usage exit.\<close>

definition chunker_main :: "copt list \<Rightarrow> nat \<Rightarrow> manager_env \<Rightarrow> bool \<Rightarrow> bool \<Rightarrow> chunker_event list \<Rightarrow> world \<Rightarrow>
    (string option list \<times> manager \<times> world) res option" where
  "chunker_main args pid e sock_ok bind_ok evs w =
     (case chunker_getopt args opts_default of None \<Rightarrow> None
      | Some c \<Rightarrow>
          (let w1 = (if o_process_pid_path c \<noteq> []
                     then w\<lparr>w_files := fst (pid_output (os_pidfile (e_os e)) (w_files w) (o_process_pid_path c) pid)\<rparr>
                     else w);
               m = manager_new (o_pid_path c) (o_kill_timeout c) (o_chunk_size c);
               (_, w2) = manager_init e sock_ok bind_ok w1
           in Some (bind_res (chunker_loop evs m w2) (\<lambda>(rs, m3, w3).
                bind_res (manager_shutdown e m3 w3) (\<lambda>(m4, w4). Inr (rs, m4, w4))))))"

section \<open>Lemmas: messages\<close>

lemma take_size_t_wrap:
  assumes "length s < 2 ^ 32" and "q \<le> length s" and "p \<le> length s"
  shows "take (unat (of_nat q - of_nat p :: 64 word)) (drop p s) =
    (if p \<le> q then take (q - p) (drop p s) else drop p s)"
proof (cases "p \<le> q")
  case True
  then have "(of_nat q - of_nat p :: 64 word) = of_nat (q - p)" by (simp add: of_nat_diff)
  moreover have "unat (of_nat (q - p) :: 64 word) = q - p"
    by (rule unat_of_nat64) (use assms in simp)
  ultimately show ?thesis using True by (simp only: if_True)
next
  case False
  then have eq: "(of_nat q - of_nat p :: 64 word) = - of_nat (p - q)" by (simp add: of_nat_diff)
  have k: "unat (of_nat (p - q) :: 64 word) = p - q"
    by (rule unat_of_nat64) (use assms in simp)
  then have nz: "(of_nat (p - q) :: 64 word) \<noteq> 0" using False by (metis diff_is_0_eq unat_0)
  have "unat (- (of_nat (p - q) :: 64 word)) = 2 ^ 64 - unat (of_nat (p - q) :: 64 word)"
    by (rule unat_minus64[OF nz])
  then have "length (drop p s) \<le> unat (- (of_nat (p - q) :: 64 word))" using assms k by simp
  then show ?thesis using False eq by (simp only: if_False take_all)
qed

text \<open>The slice of \<open>tag_value\<close> is the one \<open>substr\<close> takes with its 64-bit count.\<close>

lemma tag_count_word:
  assumes "find_sub o_tag s = Some a" and "find_sub c_tag s = Some b" and "length s < 2 ^ 32"
  shows "tag_value o_tag c_tag s =
    Some (take (unat (of_nat b - of_nat a - of_nat (length o_tag) :: 64 word)) (drop (a + length o_tag) s))"
proof -
  have b: "b \<le> length s" "a + length o_tag \<le> length s"
    using assms(1,2) by (auto dest: find_sub_Some_bound)
  have "(of_nat b - of_nat a - of_nat (length o_tag) :: 64 word) = of_nat b - of_nat (a + length o_tag)"
    by (simp add: algebra_simps)
  then show ?thesis
    by (simp only: take_size_t_wrap[OF assms(3) b] tag_value_def Let_def assms(1,2) option.case prod.case)
qed

lemma tag_value_sub: "tag_value o_tag c_tag s = Some v \<Longrightarrow> length v \<le> length s \<and> set v \<subseteq> set s"
  by (auto simp: tag_value_def Let_def split: option.splits if_splits dest!: in_set_takeD in_set_dropD)

lemma tag_or_empty_sub: "length (tag_or_empty o_tag c_tag s) \<le> length s"
  by (auto simp: tag_or_empty_def split: option.splits dest: tag_value_sub)

section \<open>The invariant of the process table\<close>

definition entry_ok :: "string \<times> ProcessData \<Rightarrow> bool" where
  "entry_ok = (\<lambda>(k, pd). pd_token pd = k \<and> k \<noteq> [] \<and> pd_command pd \<noteq> [] \<and> pd_user pd \<noteq> [] \<and>
     pd_status pd \<noteq> K_NONE \<and> length k \<le> 1024 \<and> length (pd_command pd) \<le> 1024 \<and> length (pd_user pd) \<le> 1024)"

definition mgr_ok :: "manager \<Rightarrow> bool" where
  "mgr_ok m \<longleftrightarrow> sorted_map (proc_coll m) \<and> list_all entry_ok (proc_coll m)"

lemma mgr_ok_get: "mgr_ok m \<Longrightarrow> map_of (proc_coll m) k = Some pd \<Longrightarrow> entry_ok (k, pd)"
  by (auto simp: mgr_ok_def list_all_iff dest: map_of_SomeD)

lemma mgr_ok_put: "mgr_ok m \<Longrightarrow> entry_ok (k, pd) \<Longrightarrow> mgr_ok (m\<lparr>proc_coll := map_put k pd (proc_coll m)\<rparr>)"
  by (simp add: mgr_ok_def map_put_sorted map_put_all)

lemma mgr_ok_insert: "mgr_ok m \<Longrightarrow> entry_ok (k, pd) \<Longrightarrow> mgr_ok (m\<lparr>proc_coll := map_insert k pd (proc_coll m)\<rparr>)"
  by (simp add: map_insert_def mgr_ok_put)

lemma mgr_ok_erase: "mgr_ok m \<Longrightarrow> mgr_ok (m\<lparr>proc_coll := map_erase k (proc_coll m)\<rparr>)"
  by (auto simp: mgr_ok_def map_erase_sorted) (auto simp: map_erase_def list_all_iff)

lemmas mgr_ok_intros = mgr_ok_put mgr_ok_insert mgr_ok_erase

lemma entry_ok_update [simp]:
  "entry_ok (k, pd\<lparr>last_update := t\<rparr>) = entry_ok (k, pd)"
  "entry_ok (k, pd\<lparr>read_offset := off\<rparr>) = entry_ok (k, pd)"
  "entry_ok (k, pd) \<Longrightarrow> entry_ok (k, pd\<lparr>pd_status := K_DEAD\<rparr>)"
  by (simp_all add: entry_ok_def)

lemma entry_ok_advance: "entry_ok (k, pd) \<Longrightarrow> entry_ok (k, advance fs token cs pd)"
  by (simp add: advance_def Let_def split: option.splits)

lemma handle_command_ok:
  assumes "mgr_ok m" and "length token \<le> 1024" and "length statement \<le> 1024" and "length user \<le> 1024"
  shows "mgr_ok (fst (handle_command e token statement user m w))"
proof (cases "map_of (proc_coll m) token \<noteq> None \<and> statement = []")
  case True
  then obtain pd where "map_of (proc_coll m) token = Some pd" by auto
  then show ?thesis using True assms mgr_ok_get[OF assms(1)]
    by (auto simp: handle_command_def intro!: mgr_ok_intros)
next
  case False
  obtain st fs ends where s: "start_new (e_os e) (w_files w) (e_cred e) (m_pid m) token statement user = (st, fs, ends)"
    by (metis prod_cases3)
  then have "st \<Longrightarrow> token \<noteq> [] \<and> statement \<noteq> [] \<and> user \<noteq> []" by (auto simp: start_new_def split: if_splits)
  moreover have "handle_command e token statement user m w =
      (if st then m\<lparr>proc_coll := map_insert token
                   (ProcessData_new\<lparr>start_time := e_time e, last_update := e_time e, pd_token := token,
                      pd_command := statement, pd_user := user, pd_status := K_RUNNING\<rparr>) (proc_coll m)\<rparr>
       else m, w\<lparr>w_files := fs, w_procs := w_procs w @ ends\<rparr>)"
    using False s by (auto simp: handle_command_def split: option.splits bool.splits)
  ultimately show ?thesis using assms
    by (auto intro!: mgr_ok_intros simp: entry_ok_def)
qed

lemma handle_next_ok: "mgr_ok m \<Longrightarrow> mgr_ok (snd (handle_next fs token user m))"
  using mgr_ok_get[of m token]
  by (auto simp: handle_next_def Let_def split: option.splits intro!: mgr_ok_intros entry_ok_advance)

lemma kill_process_ok: "mgr_ok m \<Longrightarrow> mgr_ok (fst (kill_process e key m w))"
  by (auto simp: kill_process_def Let_def split: option.splits prod.splits intro!: mgr_ok_intros)

lemma kill_all_loop_ok: "mgr_ok m \<Longrightarrow> kill_all_loop e keys m w = Inr (m', w') \<Longrightarrow> mgr_ok m'"
proof (induction e keys m w rule: kill_all_loop.induct)
  case (2 e key keys m w)
  obtain m1 w1 where k: "kill_process e key m w = (m1, w1)" by fastforce
  then have "mgr_ok m1" using kill_process_ok[of m e key w] 2 by simp
  then show ?case using 2 k by (auto split: if_splits)
qed simp

lemma process_ok:
  assumes "mgr_ok m" and "length buf \<le> 1024"
  shows "mgr_ok (fst (snd (manager_process e sock buf m w)))"
proof -
  have len: "length (c_str buf) \<le> 1024"
    using assms(2) length_takeWhile_le[of "\<lambda>c. c \<noteq> NUL" buf] by (simp add: c_str_def)
  have tl: "length t \<le> 1024" if "tag_value a b (c_str buf) = Some t" for a b t
    using tag_value_sub[OF that] len by simp
  have el: "length (tag_or_empty a b (c_str buf)) \<le> 1024" for a b
    using tag_or_empty_sub[of a b "c_str buf"] len by simp
  show ?thesis using assms(1) handle_next_ok[OF assms(1)]
    by (auto simp: manager_process_def Let_def tl el handle_command_ok kill_process_ok
        split: option.splits prod.splits) (metis snd_conv)
qed

lemma read_ok: "mgr_ok m \<Longrightarrow> manager_read e c m w = Inr (r, m', w') \<Longrightarrow> mgr_ok m'"
  using process_ok[of m] by (auto simp: manager_read_def split: connection.splits) (metis fst_conv length_take min.cobounded2 snd_conv)

section \<open>The daemon as a step relation\<close>

text \<open>One turn of the loop, or a change of the files by a background process.\<close>

inductive chunker_step :: "manager \<times> world \<Rightarrow> manager \<times> world \<Rightarrow> bool" where
  turn: "manager_read e c m w = Inr (r, m', w') \<Longrightarrow> chunker_step (m, w) (m', w')"
| files_grow: "chunker_step (m, w) (m, w\<lparr>w_files := fs\<rparr>)"

inductive_cases chunker_stepE: "chunker_step (m, w) s"
inductive_simps chunker_step_simps: "chunker_step (m, w) (m', w')"

definition chunker_init :: "manager \<times> world \<Rightarrow> bool" where
  "chunker_init s \<longleftrightarrow> (\<exists>pid kt cs. fst s = manager_new pid kt cs)"

interpretation chunker: invariant_system chunker_init chunker_step "\<lambda>s. mgr_ok (fst s)"
proof unfold_locales
  fix s assume "chunker_init s"
  then show "mgr_ok (fst s)"
    by (auto simp: chunker_init_def manager_new_def mgr_ok_def cmap.wf_empty)
next
  fix s t assume "mgr_ok (fst s)" "chunker_step s t"
  then show "mgr_ok (fst t)" by (cases s) (auto elim!: chunker_stepE dest: read_ok)
qed

lemma chunker_loop_steps: "chunker_loop evs m w = Inr (rs, m', w') \<Longrightarrow> chunker_step\<^sup>*\<^sup>* (m, w) (m', w')"
proof (induction evs m w arbitrary: rs rule: chunker_loop.induct)
  case (2 fs evs m w)
  have "chunker_step (m, w) (m, w\<lparr>w_files := fs\<rparr>)" by (rule files_grow)
  moreover have "chunker_step\<^sup>*\<^sup>* (m, w\<lparr>w_files := fs\<rparr>) (m', w')" using 2 by simp
  ultimately show ?case by (rule converse_rtranclp_into_rtranclp)
next
  case (3 e c evs m w)
  then obtain r m1 w1 rs1 where r: "manager_read e c m w = Inr (r, m1, w1)"
    and l: "chunker_loop evs m1 w1 = Inr (rs1, m', w')"
    by (auto simp: bind_res_Inr_iff)
  show ?case using turn[OF r] "3.IH"[OF l] by (rule converse_rtranclp_into_rtranclp)
qed simp

section \<open>Lemmas: the queries\<close>

definition own_entries :: "string \<Rightarrow> (string \<times> ProcessData) list \<Rightarrow> (string \<times> ProcessData) list" where
  "own_entries user = filter (\<lambda>p. pd_user (snd p) = user)"

lemma handle_process_eq:
  "handle_process user ps = concat (map (\<lambda>p. entry_text (snd p) @ ''%2C'') (own_entries user ps))"
  by (induction user ps rule: handle_process.induct) (auto simp: own_entries_def)

lemma handle_details_eq:
  "handle_details token user ps = handle_process user (filter (\<lambda>p. pd_token (snd p) = token) ps)"
  by (induction token user ps rule: handle_details.induct) auto

lemma sorted_map_tail: "sorted_map (p # ps) \<Longrightarrow> sorted_map ps \<and> fst p \<notin> fst ` set ps"
  by (auto simp: sorted_map_def)

lemma filter_token:
  "sorted_map ps \<Longrightarrow> list_all entry_ok ps \<Longrightarrow>
     filter (\<lambda>p. pd_token (snd p) = token) ps =
       (case map_of ps token of None \<Rightarrow> [] | Some pd \<Rightarrow> [(token, pd)])"
proof (induction ps)
  case (Cons p ps)
  obtain k pd where p: "p = (k, pd)" by (cases p)
  have tail: "sorted_map ps" "k \<notin> fst ` set ps" using sorted_map_tail[OF Cons.prems(1)] p by auto
  then have "map_of ps k = None" by (simp add: map_of_eq_None_iff)
  then show ?case using Cons tail p by (auto simp: entry_ok_def)
qed simp

lemma handle_details_one:
  assumes "mgr_ok m"
  shows "handle_details token user (proc_coll m) =
    (case map_of (proc_coll m) token of
       Some pd \<Rightarrow> if pd_user pd = user then entry_text pd @ ''%2C'' else []
     | None \<Rightarrow> [])"
  using assms filter_token[of "proc_coll m" token]
  by (auto simp: handle_details_eq mgr_ok_def split: option.splits)

lemma take_bit_small:
  "n < 2 ^ 32 \<Longrightarrow> take_bit 32 (of_nat n :: 64 word) = of_nat n"
  by (rule word_unat_eq_iff[THEN iffD2]) (simp add: unsigned_take_bit_eq unat_of_nat take_bit_nat_eq_self)

lemma word_sum_less:
  assumes "unat (a :: 64 word) + unat b < 2 ^ 64" and "n < 2 ^ 64"
  shows "a + b < of_nat n \<longleftrightarrow> unat a + unat b < n"
proof -
  have "unat (a + b) = unat a + unat b" using assms(1) by (simp add: unat_plus_if')
  then show ?thesis using assms(2) by (simp add: word_less_nat_alt unat_of_nat)
qed

text \<open>One poll of a running command moves the offset by a chunk, or to the end of the file.\<close>

lemma advance_offset:
  assumes "fs (chunk_file token) = Some c" and "length c < 2 ^ 32" and "unat (read_offset pd) \<le> length c"
    and "unat cs < 2 ^ 32"
  shows "unat (read_offset (advance fs token cs pd)) = min (unat (read_offset pd) + unat cs) (length c)"
    and "pd_status (advance fs token cs pd) =
      (if length c \<le> unat (read_offset pd) + unat cs \<and> fs (end_file token) \<noteq> None then K_DEAD else pd_status pd)"
    and "entry_text (advance fs token cs pd\<lparr>read_offset := off\<rparr>) = entry_text (pd\<lparr>read_offset := off\<rparr>)"
proof -
  have bound: "unat (read_offset pd) + unat cs < 2 ^ 64" using assms(2-4) by simp
  then have sum: "unat (read_offset pd + cs) = unat (read_offset pd) + unat cs"
    by (simp add: unat_plus_if')
  have less: "read_offset pd + cs < take_bit 32 (of_nat (length c)) \<longleftrightarrow>
      unat (read_offset pd) + unat cs < length c"
    unfolding take_bit_small[OF assms(2)] using assms(2) by (intro word_sum_less[OF bound]) simp
  have len: "unat (of_nat (length c) :: 64 word) = length c" using assms(2) by (intro unat_of_nat64) simp
  show "unat (read_offset (advance fs token cs pd)) = min (unat (read_offset pd) + unat cs) (length c)"
    using assms(1) sum len by (simp add: advance_def file_size_def less Let_def)
  show "pd_status (advance fs token cs pd) =
      (if length c \<le> unat (read_offset pd) + unat cs \<and> fs (end_file token) \<noteq> None then K_DEAD else pd_status pd)"
    using assms(1) by (simp add: advance_def file_size_def less not_less Let_def)
  show "entry_text (advance fs token cs pd\<lparr>read_offset := off\<rparr>) = entry_text (pd\<lparr>read_offset := off\<rparr>)"
    by (simp add: advance_def entry_text_def Let_def split: option.splits)
qed

section \<open>Lemmas: killing\<close>

text \<open>The commands of \<open>ct\<close> attempts: one terminate command per attempt, and the attempts end with the
  first check that finds the process gone.\<close>

definition attempts :: "manager_env \<Rightarrow> string \<Rightarrow> nat \<Rightarrow> nat \<Rightarrow> bool \<Rightarrow> bool" where
  "attempts e exist_file ct n killed \<longleftrightarrow>
     (if killed then \<exists>k < ct. n = Suc k \<and> \<not> e_exists e (3 - ct + k) exist_file \<and> (\<forall>i < k. e_exists e (3 - ct + i) exist_file)
      else n = ct \<and> (\<forall>i < ct. e_exists e (3 - ct + i) exist_file))"

lemma attempts_Suc:
  assumes "ct \<le> 2" and "e_exists e (2 - ct) x" and "attempts e x ct n killed"
  shows "attempts e x (Suc ct) (Suc n) killed"
proof -
  have s: "3 - ct + i = 3 - Suc ct + Suc i" "2 - ct = 3 - Suc ct + 0" for i using assms(1) by simp_all
  show ?thesis
  proof (cases killed)
    case True
    then obtain k where "k < ct" "n = Suc k" "\<not> e_exists e (3 - ct + k) x" "\<forall>i < k. e_exists e (3 - ct + i) x"
      using assms(3) by (auto simp: attempts_def)
    then show ?thesis using True assms(2) unfolding s attempts_def
      by (auto simp: less_Suc_eq_0_disj intro!: exI[of _ "Suc k"])
  next
    case False
    then show ?thesis using assms(2,3) unfolding s attempts_def by (auto simp: less_Suc_eq_0_disj)
  qed
qed

lemma attempts_first:
  assumes "attempts e x 3 n killed" and "i < 3" and "\<not> e_exists e i x" and "\<forall>j < i. e_exists e j x"
  shows "killed \<and> n = Suc i"
proof -
  obtain k where k: killed "n = Suc k" "\<not> e_exists e k x" "\<forall>j < k. e_exists e j x"
    using assms by (auto simp: attempts_def split: if_splits)
  then have "k = i" using assms(3,4) by (meson linorder_neqE_nat)
  then show ?thesis using k by simp
qed

lemma term_loop_cmds:
  assumes "term_loop e t x ct w = (killed, w')" and "ct \<le> 3"
  shows "\<exists>n. w_cmds w' = w_cmds w @ replicate n (c_str t) \<and> attempts e x ct n killed \<and>
    w_files w' = w_files w \<and> w_procs w' = w_procs w"
  using assms
proof (induction e t x ct w arbitrary: killed w' rule: term_loop.induct)
  case (2 e t x ct w)
  let ?w = "exec_cmd e t w"
  have w: "w_cmds ?w = w_cmds w @ [c_str t]" "w_files ?w = w_files w" "w_procs ?w = w_procs w"
    by (simp_all add: run_cmd_def)
  show ?case
  proof (cases "e_exists e (2 - ct) x")
    case True
    then have "term_loop e t x ct ?w = (killed, w')" using "2.prems" by (simp add: Let_def)
    from "2.IH"[OF refl _ this] True "2.prems"(2) obtain n where n: "w_cmds w' = w_cmds ?w @ replicate n (c_str t)"
      "attempts e x ct n killed" "w_files w' = w_files ?w" "w_procs w' = w_procs ?w"
      by auto
    moreover have "attempts e x (Suc ct) (Suc n) killed" using attempts_Suc True n(2) "2.prems"(2) by simp
    ultimately show ?thesis using w by (intro exI[of _ "Suc n"]) auto
  next
    case False
    then show ?thesis using "2.prems" w by (intro exI[of _ 1]) (auto simp: Let_def attempts_def numeral_2_eq_2)
  qed
qed (simp add: attempts_def)

text \<open>Whatever is in the file is taken for a process id.\<close>

lemma kill_process_runs:
  assumes "w_files w (c_str (CHUNKER_RESP_PID @ ''/'' @ key)) = Some c" and "c \<noteq> []" and "pid = c_str (take 80 c @ e_junk e)"
  shows "\<exists>w' n killed. kill_process e key m w = (m\<lparr>proc_coll := map_erase key (proc_coll m)\<rparr>, w') \<and>
    w_files w' = (w_files w)(c_str (CHUNKER_RESP_PID @ ''/'' @ key) := None) \<and>
    attempts e (''/proc/'' @ pid @ ''/stat'') 3 n killed \<and>
    w_cmds w' = w_cmds w @ replicate n (''kill -15 -'' @ pid) @ (if killed then [] else [''kill -9 -'' @ pid])"
proof -
  let ?file = "c_str (CHUNKER_RESP_PID @ ''/'' @ key)"
  let ?w = "w\<lparr>w_files := (w_files w)(?file := None)\<rparr>"
  have pre: "c_str (''kill -15 -'' @ pid) = ''kill -15 -'' @ pid" "c_str (''kill -9 -'' @ pid) = ''kill -9 -'' @ pid"
    by (simp_all add: c_str_id c_str_no_NUL assms(3))
  obtain killed w2 where t: "term_loop e (''kill -15 -'' @ pid) (''/proc/'' @ pid @ ''/stat'') 3 ?w = (killed, w2)"
    by fastforce
  from term_loop_cmds[OF t] obtain n where n: "attempts e (''/proc/'' @ pid @ ''/stat'') 3 n killed"
    "w_cmds w2 = w_cmds w @ replicate n (''kill -15 -'' @ pid)" "w_files w2 = (w_files w)(?file := None)"
    unfolding pre by auto
  have k: "kill_process e key m w = (m\<lparr>proc_coll := map_erase key (proc_coll m)\<rparr>,
      if killed then w2 else exec_cmd e (''kill -9 -'' @ pid) w2)"
    unfolding kill_process_def Let_def using assms(1,2) t[unfolded assms(3)] assms(3) by (simp del: c_str_Cons append_Cons)
  have "w_cmds (exec_cmd e (''kill -9 -'' @ pid) w2) = w_cmds w2 @ [''kill -9 -'' @ pid]"
    "w_files (exec_cmd e (''kill -9 -'' @ pid) w2) = w_files w2"
    unfolding run_cmd_def pre by simp_all
  then show ?thesis using k n by (cases killed) fastforce+
qed

text \<open>The processes of other tokens are not touched.\<close>

lemma kill_process_other: "k \<noteq> key \<Longrightarrow> map_of (proc_coll (fst (kill_process e key m w))) k = map_of (proc_coll m) k"
  by (auto simp: kill_process_def Let_def map_erase_get split: option.splits prod.splits)

definition has_pid_file :: "world \<Rightarrow> string \<Rightarrow> bool" where
  "has_pid_file w key \<longleftrightarrow> (case w_files w (c_str (CHUNKER_RESP_PID @ ''/'' @ key)) of Some c \<Rightarrow> c \<noteq> [] | None \<Rightarrow> False)"

lemma kill_process_same:
  "map_of (proc_coll (fst (kill_process e key m w))) key =
     (if has_pid_file w key then None else map_of (proc_coll m) key)"
  by (auto simp: kill_process_def Let_def map_erase_get has_pid_file_def split: option.splits prod.splits)

lemma kill_process_no_pid: "\<not> has_pid_file w key \<Longrightarrow> kill_process e key m w = (m, w)"
  by (auto simp: kill_process_def Let_def has_pid_file_def split: option.splits)

lemma kill_all_loop_fault:
  assumes "\<forall>k \<in> set keys. k \<noteq> [] \<and> map_of (proc_coll m) k \<noteq> None"
  shows "kill_all_loop e keys m w =
    (if \<exists>k \<in> set keys. has_pid_file w k then Inl DanglingIterator else Inr (m, w))"
  using assms
proof (induction keys)
  case (Cons k ks)
  show ?case
  proof (cases "has_pid_file w k")
    case True
    then have "map_of (proc_coll (fst (kill_process e k m w))) k = None" by (simp add: kill_process_same)
    then show ?thesis using True Cons.prems by (auto split: prod.splits)
  next
    case False
    then show ?thesis using Cons kill_process_no_pid[OF False] by auto
  qed
qed simp

section \<open>Lemmas: options\<close>

definition opts_ok :: "chunker_opts \<Rightarrow> bool" where
  "opts_ok c \<longleftrightarrow> 1024 \<le> unat (o_chunk_size c) \<and> unat (o_chunk_size c) \<le> 131072 \<and> unat (o_kill_timeout c) \<le> 86400"

lemma sint_window:
  assumes "1024 \<le> sint (v :: 64 word)" and "sint v \<le> 131072"
  shows "1024 \<le> unat v \<and> unat v \<le> 131072"
proof -
  have "uint v = sint v" using assms by (simp add: uint_sint take_bit_int_eq_self)
  then show ?thesis using assms by (simp add: unat_eq_nat_uint) linarith
qed

lemma getopt_bounds: "chunker_getopt args c = Some c' \<Longrightarrow> opts_ok c \<Longrightarrow> opts_ok c'"
proof (induction args c rule: chunker_getopt.induct)
  case (2 a r c)
  then show ?case
    using sint_window[of "of_nat (strtoul10 a)"]
    by (auto simp: opts_ok_def Let_def rest_consts split: if_splits)
next
  case (5 a r c)
  have "unat v \<le> 86400" if "v \<le> (86400 :: 64 word)" for v using that by (simp add: word_le_nat_alt)
  then show ?case using 5 by (auto simp: opts_ok_def Let_def not_less split: if_splits)
qed (auto simp: opts_ok_def)

section \<open>Properties\<close>

text \<open>C19: In every state the daemon reaches, whatever messages arrive and whatever happens to
  the files, the process table is ordered by token, every entry is stored under its own
  token, and its token, command and user are not empty and at most 1024 characters.\<close>

theorem chunker_table_invariant:
  assumes "chunker_step\<^sup>*\<^sup>* (manager_new pid kt cs, w) (m, w')"
  shows "mgr_ok m"
  using chunker.inv_reachable[OF _ assms] by (auto simp: chunker_init_def)

definition example_env :: manager_env where
  "example_env = \<lparr>e_os = example_os, e_cred = \<lparr>c_loginuid = 0, c_uid = 0, c_gid = 0, c_groups = []\<rparr>, e_time = 9,
     e_exists = (\<lambda>n p. False), e_junk = [NUL], e_system = (\<lambda>c. Some 0)\<rparr>"

definition example_message :: string where
  "example_message = ''<command><token>42</token><user>vyatta</user><statement>show version</statement></command>''"

definition example_start :: "manager \<times> world" where
  "example_start = (manager_new ''/tmp'' 300 98304, \<lparr>w_files = Map.empty, w_procs = [], w_cmds = []\<rparr>)"

lemma example_tags:
  "tag_value ''<token>'' ''</token>'' (c_str (take 1024 example_message)) = Some ''42''"
  "tag_or_empty ''<statement>'' ''</statement>'' (c_str (take 1024 example_message)) = ''show version''"
  "tag_or_empty ''<user>'' ''</user>'' (c_str (take 1024 example_message)) = ''vyatta''"
  "contains (c_str (take 1024 example_message)) ''<command>''"
  by code_simp+

lemma example_submit:
  "manager_read example_env (Conn 1 example_message) (fst example_start) (snd example_start) =
     Inr (None, handle_command example_env ''42'' ''show version'' ''vyatta'' (fst example_start) (snd example_start))"
  by (simp add: manager_read_def manager_process_def Let_def example_tags)

theorem chunker_table_invariant_witness:
  "mgr_ok (fst (handle_command example_env ''42'' ''show version'' ''vyatta'' (fst example_start) (snd example_start)))"
proof -
  obtain m' w' where h: "handle_command example_env ''42'' ''show version'' ''vyatta'' (fst example_start) (snd example_start)
      = (m', w')" by fastforce
  have "chunker_step (fst example_start, snd example_start) (m', w')" by (rule turn[OF example_submit[unfolded h]])
  then have "chunker_step\<^sup>*\<^sup>* (manager_new ''/tmp'' 300 98304, snd example_start) (m', w')"
    by (simp add: example_start_def)
  from chunker_table_invariant[OF this] show ?thesis by (simp add: h)
qed

text \<open>The answers to a process query and a details query are made of the entries of the
  asking user alone: tables that agree on those entries give the same answers, and the
  details answer is the one entry with the token when that entry is the user's.\<close>

theorem query_isolation:
  assumes "mgr_ok m" and "mgr_ok m'"
    and "own_entries user (proc_coll m) = own_entries user (proc_coll m')"
  shows "handle_process user (proc_coll m) = handle_process user (proc_coll m') \<and>
    handle_details token user (proc_coll m) = handle_details token user (proc_coll m') \<and>
    handle_details token user (proc_coll m) =
      (case map_of (proc_coll m) token of
         Some pd \<Rightarrow> if pd_user pd = user then entry_text pd @ ''%2C'' else [] | None \<Rightarrow> [])"
proof -
  have "own_entries user (filter (\<lambda>p. pd_token (snd p) = token) ps) =
      filter (\<lambda>p. pd_token (snd p) = token) (own_entries user ps)" for ps
    by (simp add: own_entries_def conj_commute)
  then have "handle_process user (proc_coll m) = handle_process user (proc_coll m')"
    "handle_details token user (proc_coll m) = handle_details token user (proc_coll m')"
    using assms(3) by (simp_all add: handle_process_eq handle_details_eq)
  then show ?thesis using handle_details_one[OF assms(1), of token user] by blast
qed

definition example_entry :: "string \<Rightarrow> string \<Rightarrow> string \<times> ProcessData" where
  "example_entry token user = (token, \<lparr>start_time = 5, last_update = 5, pd_command = ''show version'',
     pd_token = token, pd_user = user, read_offset = 0, pd_status = K_RUNNING\<rparr>)"

definition example_manager :: "(string \<times> ProcessData) list \<Rightarrow> manager" where
  "example_manager ps = \<lparr>proc_coll = ps, m_pid = ''/tmp'', m_kill_timeout = 300, chunk_size = 98304\<rparr>"

theorem query_isolation_witness:
  "handle_process ''bob'' (proc_coll (example_manager [example_entry ''1'' ''bob'', example_entry ''2'' ''eve''])) =
   handle_process ''bob'' (proc_coll (example_manager [example_entry ''1'' ''bob'']))"
  using query_isolation[of "example_manager [example_entry ''1'' ''bob'', example_entry ''2'' ''eve'']"
      "example_manager [example_entry ''1'' ''bob'']" "''bob''" "''1''"]
  by (simp add: example_manager_def example_entry_def mgr_ok_def sorted_map_def entry_ok_def own_entries_def)

text \<open>A poll of a token that belongs to somebody else is answered with an empty text and
  changes nothing; the poll of the owner answers with the stored offset and moves it by
  one chunk or to the end of the output, and marks the command dead exactly when the end
  of a finished output is reached. Sizes are below four gigabytes.\<close>

theorem next_contract:
  assumes "map_of (proc_coll m) token = Some pd"
    and "fs (chunk_file token) = Some c" and "length c < 2 ^ 32"
    and "unat (read_offset pd) \<le> length c" and "unat (chunk_size m) < 2 ^ 32"
    and "pd_status pd = K_RUNNING"
  shows "(user \<noteq> pd_user pd \<longrightarrow> handle_next fs token user m = ([], m)) \<and>
    (user = pd_user pd \<longrightarrow>
       (case handle_next fs token user m of (resp, m') \<Rightarrow>
          resp = entry_text pd @ [NL] \<and>
          (\<exists>pd'. map_of (proc_coll m') token = Some pd' \<and>
             unat (read_offset pd') = min (unat (read_offset pd) + unat (chunk_size m)) (length c) \<and>
             pd_status pd' = (if length c \<le> unat (read_offset pd) + unat (chunk_size m) \<and>
               fs (end_file token) \<noteq> None then K_DEAD else K_RUNNING)) \<and>
          (\<forall>k. k \<noteq> token \<longrightarrow> map_of (proc_coll m') k = map_of (proc_coll m) k)))"
  using assms advance_offset[where fs = fs and token = token and pd = pd and c = c and cs = "chunk_size m"]
  by (auto simp: handle_next_def Let_def map_put_get)

theorem next_contract_witness:
  "handle_next [chunk_file ''1'' \<mapsto> ''out''] ''1'' ''eve'' (example_manager [example_entry ''1'' ''bob'']) =
     ([], example_manager [example_entry ''1'' ''bob''])"
  using next_contract[of "example_manager [example_entry ''1'' ''bob'']" "''1''"
      "snd (example_entry ''1'' ''bob'')" "[chunk_file ''1'' \<mapsto> ''out'']" "''out''" "''eve''"]
  by (simp add: example_manager_def example_entry_def)

text \<open>C31: Deleting a token, whoever asks, does nothing when its process id file is missing or
  empty. Otherwise the file is removed, the entry is erased, other entries stay, and the first 80 bytes of
  the file (with what the buffer held behind them) are taken for the process: when three checks in a row
  find it still there, three terminate commands and then one kill -9 are run; when a check finds it gone,
  one terminate command has been run per check up to that one, and no kill -9.\<close>

theorem delete_contract:
  "(\<not> has_pid_file w key \<longrightarrow> kill_process e key m w = (m, w)) \<and>
   (has_pid_file w key \<longrightarrow>
      (\<exists>c pid. w_files w (c_str (CHUNKER_RESP_PID @ ''/'' @ key)) = Some c \<and> pid = c_str (take 80 c @ e_junk e) \<and>
        (case kill_process e key m w of (m', w') \<Rightarrow>
           map_of (proc_coll m') = (map_of (proc_coll m))(key := None) \<and>
           w_files w' = (w_files w)(c_str (CHUNKER_RESP_PID @ ''/'' @ key) := None) \<and>
           (let there = (\<lambda>i. e_exists e i (''/proc/'' @ pid @ ''/stat'')) in
            ((\<forall>i < 3. there i) \<longrightarrow> w_cmds w' = w_cmds w @ replicate 3 (''kill -15 -'' @ pid) @ [''kill -9 -'' @ pid]) \<and>
            (\<forall>n < 3. \<not> there n \<and> (\<forall>i < n. there i) \<longrightarrow> w_cmds w' = w_cmds w @ replicate (Suc n) (''kill -15 -'' @ pid))))))"
proof (intro conjI impI)
  assume "has_pid_file w key"
  then obtain c where c: "w_files w (c_str (CHUNKER_RESP_PID @ ''/'' @ key)) = Some c" "c \<noteq> []"
    by (auto simp: has_pid_file_def split: option.splits)
  define pid where "pid = c_str (take 80 c @ e_junk e)"
  define there where "there = (\<lambda>i. e_exists e i (''/proc/'' @ pid @ ''/stat''))"
  obtain w' n killed where k: "kill_process e key m w = (m\<lparr>proc_coll := map_erase key (proc_coll m)\<rparr>, w')"
    "w_files w' = (w_files w)(c_str (CHUNKER_RESP_PID @ ''/'' @ key) := None)"
    "attempts e (''/proc/'' @ pid @ ''/stat'') 3 n killed"
    "w_cmds w' = w_cmds w @ replicate n (''kill -15 -'' @ pid) @ (if killed then [] else [''kill -9 -'' @ pid])"
    using kill_process_runs[OF c pid_def, of m] by blast
  have all: "\<not> killed \<and> n = 3" if "\<forall>i < 3. there i"
    using k(3) that by (auto simp: attempts_def there_def split: if_splits)
  have first: "killed \<and> n = Suc i" if "i < 3" "\<not> there i" "\<forall>j < i. there j" for i
    using attempts_first[OF k(3), of i] that unfolding there_def by blast
  show "\<exists>c pid. w_files w (c_str (CHUNKER_RESP_PID @ ''/'' @ key)) = Some c \<and> pid = c_str (take 80 c @ e_junk e) \<and>
        (case kill_process e key m w of (m', w') \<Rightarrow>
           map_of (proc_coll m') = (map_of (proc_coll m))(key := None) \<and>
           w_files w' = (w_files w)(c_str (CHUNKER_RESP_PID @ ''/'' @ key) := None) \<and>
           (let there = (\<lambda>i. e_exists e i (''/proc/'' @ pid @ ''/stat'')) in
            ((\<forall>i < 3. there i) \<longrightarrow> w_cmds w' = w_cmds w @ replicate 3 (''kill -15 -'' @ pid) @ [''kill -9 -'' @ pid]) \<and>
            (\<forall>n < 3. \<not> there n \<and> (\<forall>i < n. there i) \<longrightarrow> w_cmds w' = w_cmds w @ replicate (Suc n) (''kill -15 -'' @ pid))))"
    unfolding Let_def k(1) prod.case
    by (intro exI[of _ c] exI[of _ pid]) (use c(1) pid_def k(2,4) all first in \<open>auto simp: map_erase_get there_def simp del: c_str_Cons append_Cons\<close>)
qed (rule kill_process_no_pid)

theorem delete_contract_witness:
  "map_of (proc_coll (fst (kill_process example_env ''1'' (example_manager [example_entry ''1'' ''bob''])
     \<lparr>w_files = [''/tmp/1'' \<mapsto> ''77''], w_procs = [], w_cmds = []\<rparr>))) ''1'' = None"
  using delete_contract[of "\<lparr>w_files = [''/tmp/1'' \<mapsto> ''77''], w_procs = [], w_cmds = []\<rparr>" "''1''" example_env
      "example_manager [example_entry ''1'' ''bob'']"]
  by (auto simp: has_pid_file_def rest_consts split: prod.splits)

text \<open>Shutting down uses an invalidated iterator as soon as one command of the table has a
  process id file; only when none has one does it reach the cleaning of the output
  directory.\<close>

theorem shutdown_dangling:
  assumes "mgr_ok m"
  shows "manager_shutdown e m w =
    (if \<exists>k \<in> fst ` set (proc_coll m). has_pid_file w k then Inl DanglingIterator
     else Inr (m, exec_cmd e clean_cmd w))"
proof -
  have "\<forall>k \<in> set (map fst (proc_coll m)). k \<noteq> [] \<and> map_of (proc_coll m) k \<noteq> None"
    using assms by (auto simp: mgr_ok_def list_all_iff entry_ok_def map_of_eq_None_iff)
  from kill_all_loop_fault[OF this] show ?thesis
    by (simp add: manager_shutdown_def kill_all_def)
qed

theorem shutdown_dangling_witness:
  "manager_shutdown example_env (example_manager [example_entry ''1'' ''bob''])
     \<lparr>w_files = [''/tmp/1'' \<mapsto> ''77''], w_procs = [], w_cmds = []\<rparr> = Inl DanglingIterator"
  using shutdown_dangling[of "example_manager [example_entry ''1'' ''bob'']" example_env
      "\<lparr>w_files = [''/tmp/1'' \<mapsto> ''77''], w_procs = [], w_cmds = []\<rparr>"]
  by (simp add: example_manager_def example_entry_def mgr_ok_def sorted_map_def entry_ok_def has_pid_file_def rest_consts)

text \<open>C39: With any options the daemon accepts, its chunk size lies between 1024 and 131072
  bytes and its kill timeout is at most a day.\<close>

theorem option_bounds:
  assumes "chunker_getopt args opts_default = Some c"
  shows "1024 \<le> unat (o_chunk_size c) \<and> unat (o_chunk_size c) \<le> 131072 \<and> unat (o_kill_timeout c) \<le> 86400"
  using getopt_bounds[OF assms] by (simp add: opts_ok_def opts_default_def rest_consts)

theorem option_bounds_witness:
  "chunker_getopt [Opt_s ''2048'', Opt_d] opts_default =
     Some (opts_default\<lparr>o_chunk_size := 2048, o_debug := True\<rparr>) \<and> 1024 \<le> unat (2048 :: 64 word)"
  using option_bounds[of "[Opt_s ''2048'', Opt_d]" "opts_default\<lparr>o_chunk_size := 2048, o_debug := True\<rparr>"]
  by (simp add: Let_def strtoul10_def is_space_def to_ulong_def dec_val_def)

end
