(* ===== verification/Multi_Resp.thy ===== *)
theory Multi_Resp
  imports Chunker_Manager
begin

text \<open>
  \<open>multirespcmd.hh\<close> and \<open>multirespcmd.cc\<close>: the server's side of the conversation with the
  chunker daemon. The other end of the socket is the model of the daemon; whether the
  write and the read of the socket succeed is part of a \<open>link\<close>, and so is \<open>l_after\<close>, what the
  background commands have made of the files when the client goes on after an answer.
\<close>

section \<open>Messages\<close>

definition COMMAND_MSG :: "string \<Rightarrow> string \<Rightarrow> string \<Rightarrow> string" where
  "COMMAND_MSG tok cmd user = ''<vyatta><command><token>'' @ tok @ ''</token><statement>'' @ cmd
     @ ''</statement><user>'' @ user @ ''</user></command></vyatta>''"

definition PROCESS_MSG :: "string \<Rightarrow> string \<Rightarrow> string" where
  "PROCESS_MSG tok user = ''<vyatta><process><token>'' @ tok @ ''</token><user>'' @ user @ ''</user></process></vyatta>''"

definition DETAILS_MSG :: "string \<Rightarrow> string \<Rightarrow> string" where
  "DETAILS_MSG tok user = ''<vyatta><details><token>'' @ tok @ ''</token><user>'' @ user @ ''</user></details></vyatta>''"

definition NEXT_MSG :: "string \<Rightarrow> string \<Rightarrow> string" where
  "NEXT_MSG tok user = ''<vyatta><next><token>'' @ tok @ ''</token><user>'' @ user @ ''</user></next></vyatta>''"

definition DELETE_MSG :: "string \<Rightarrow> string \<Rightarrow> string" where
  "DELETE_MSG tok user = ''<vyatta><delete><token>'' @ tok @ ''</token><user>'' @ user @ ''</user></delete></vyatta>''"

text \<open>\<open>sprintf\<close> into a zeroed buffer of 1024 characters: the text and its terminator must fit.
  The whole buffer is sent.\<close>

definition sprintf1024 :: "string \<Rightarrow> string res" where
  "sprintf1024 msg = (if 1024 \<le> length msg then Inl BufferOverflow
     else Inr (msg @ replicate (1024 - length msg) NUL))"

section \<open>The socket\<close>

record link =
  l_env :: manager_env
  l_write :: bool
  l_read :: bool
  l_open :: bool
  l_after :: "files \<Rightarrow> files"

definition send :: "link \<Rightarrow> string \<Rightarrow> manager \<times> world \<Rightarrow> (string option \<times> manager \<times> world) option" where
  "send l buffer s =
     (if \<not> l_write l then None else Some (manager_process (l_env l) 1 (take 1024 buffer) (fst s) (snd s)))"

text \<open>The 8192 characters read are used as a C string; a reply that fills the buffer has no
  terminator in it.\<close>

definition recv :: "string option \<Rightarrow> string res" where
  "recv reply =
     (let out = take 8192 (case reply of Some r \<Rightarrow> r | None \<Rightarrow> [])
      in if length out = 8192 \<and> NUL \<notin> set out then Inl BufferOverflow else Inr (c_str out))"

section \<open>Operations\<close>

definition connect_ok :: "bool \<Rightarrow> bool \<Rightarrow> bool" where
  "connect_ok sock_ok conn_ok \<longleftrightarrow> sock_ok \<and> conn_ok"

definition mrc_start :: "link \<Rightarrow> string option \<Rightarrow> string \<Rightarrow> string \<Rightarrow> manager \<times> world \<Rightarrow> (string \<times> manager \<times> world) res" where
  "mrc_start l token user cmd s =
     (case token of None \<Rightarrow> Inl Hangs
      | Some tok \<Rightarrow>
          if length tok < 16 then Inr ([], s)
          else bind_res (sprintf1024 (COMMAND_MSG (c_str tok) (c_str cmd) (c_str user))) (\<lambda>buffer.
            case send l buffer s of None \<Rightarrow> Inr ([], s)
            | Some (r, s') \<Rightarrow> Inr (tok, s')))"

text \<open>The client's own \<open>ProcessData\<close> has no constructor: its start time is undefined until set.\<close>

record proc_info =
  p_username :: string
  p_start_time :: "64 word option"
  p_id :: string
  p_command :: string

definition proc_info_new :: proc_info where
  "proc_info_new = \<lparr>p_username = [], p_start_time = None, p_id = [], p_command = []\<rparr>"

definition parse_entry :: "string \<Rightarrow> proc_info" where
  "parse_entry t =
     (let sp2 = str_coll t ''%3A''
      in \<lparr>p_username = str_get sp2 3, p_start_time = Some (of_nat (strtoul10 (str_get sp2 0))),
          p_id = str_get sp2 2, p_command = str_get sp2 1\<rparr>)"

definition get_process_details :: "link \<Rightarrow> string \<Rightarrow> string \<Rightarrow> manager \<times> world \<Rightarrow> (proc_info \<times> manager \<times> world) res" where
  "get_process_details l user cid s =
     (if user = [] \<or> cid = [] then Inr (proc_info_new, s)
      else bind_res (sprintf1024 (DETAILS_MSG (c_str cid) (c_str user))) (\<lambda>buffer.
        case send l buffer s of None \<Rightarrow> Inr (proc_info_new, s)
        | Some (r, s') \<Rightarrow>
            if \<not> l_read l then Inr (proc_info_new, s')
            else bind_res (recv r) (\<lambda>out.
              Inr (case str_coll out ''%2C'' of [] \<Rightarrow> proc_info_new | t # _ \<Rightarrow> parse_entry t, s'))))"

definition get_processes :: "link \<Rightarrow> string \<Rightarrow> manager \<times> world \<Rightarrow> (proc_info list \<times> manager \<times> world) res" where
  "get_processes l user s =
     (if user = [] then Inr ([], s)
      else bind_res (sprintf1024 (PROCESS_MSG ''123456'' (c_str user))) (\<lambda>buffer.
        case send l buffer s of None \<Rightarrow> Inr ([], s)
        | Some (r, s') \<Rightarrow>
            if \<not> l_read l then Inr ([], s')
            else bind_res (recv r) (\<lambda>out. Inr (map parse_entry (str_coll out ''%2C''), s'))))"

text \<open>The read loop of \<open>get_chunk\<close> on what is left of the file. \<open>fread\<close> fills the buffer or
  reaches the end of the file; the buffer is used as a C string.\<close>

function chunk_loop :: "string \<Rightarrow> nat \<Rightarrow> nat \<Rightarrow> string \<Rightarrow> string" where
  "chunk_loop rest left ct resp =
     (if left = 0 then resp
      else let buf = take left rest; resp1 = (if buf \<noteq> [] then resp @ c_str buf else resp)
           in if length buf < left then resp1
              else if 5 < ct + 1 then resp1
              else chunk_loop (drop (length buf) rest) (left - length buf) (ct + 1) resp1)"
  by pat_completeness auto
termination
  by (relation "measure (\<lambda>(rest, left, ct, resp). left)") auto

declare chunk_loop.simps [simp del]

text \<open>\<open>einval\<close> is whether \<open>errno\<close> holds \<open>EINVAL\<close> after \<open>strtol\<close>, \<open>opens\<close> whether the data
  file can be opened. The files are those of the world the daemon works on; all of them are regular files.\<close>

definition read_chunk :: "bool \<Rightarrow> files \<Rightarrow> string \<Rightarrow> int \<Rightarrow> string \<times> files" where
  "read_chunk opens fs token chunk_pos =
     (case (fs (c_str (chunk_file token)), 0 \<le> chunk_pos) of
        (Some content, True) \<Rightarrow>
          (if opens then chunk_loop (drop (nat chunk_pos) content) CHUNKER_READ_SIZE 0 [] else [], fs)
      | _ \<Rightarrow>
          if fs (c_str (end_file token)) \<noteq> None
          then (''END'', fs(c_str (end_file token) := None, c_str (chunk_file token) := None))
          else ([], fs))"

definition get_chunk :: "link \<Rightarrow> bool \<Rightarrow> string \<Rightarrow> string \<Rightarrow> manager \<times> world \<Rightarrow> (string \<times> manager \<times> world) res" where
  "get_chunk l einval user token s =
     (if user = [] \<or> token = [] then Inr ([], s)
      else bind_res (sprintf1024 (NEXT_MSG (c_str token) (c_str user))) (\<lambda>buffer.
        case send l buffer s of None \<Rightarrow> Inr ([], s)
        | Some (r, s') \<Rightarrow>
            if \<not> l_read l then Inr ([], s')
            else bind_res (recv r) (\<lambda>out.
              let chunk = str_get (str_coll out ''%3A'') 4 in
              if chunk = [] then Inr ([], s')
              else let chunk_pos = strtol10 chunk in
              if chunk_pos = 0 \<and> einval then Inr ([], s')
              else case read_chunk (l_open l) (l_after l (w_files (snd s'))) token chunk_pos of
                (resp, fs) \<Rightarrow> Inr (resp, fst s', (snd s')\<lparr>w_files := fs\<rparr>))))"

definition mrc_kill :: "link \<Rightarrow> string \<Rightarrow> string \<Rightarrow> manager \<times> world \<Rightarrow> (manager \<times> world) res" where
  "mrc_kill l user tok s =
     (if user = [] \<or> tok = [] then Inr s
      else bind_res (sprintf1024 (DELETE_MSG (c_str tok) (c_str user))) (\<lambda>buffer.
        case send l buffer s of None \<Rightarrow> Inr s | Some (r, s') \<Rightarrow> Inr s'))"

section \<open>Lemmas: messages\<close>

definition msg_text :: "string \<Rightarrow> bool" where
  "msg_text t \<longleftrightarrow> CHR ''<'' \<notin> set t \<and> NUL \<notin> set t"

lemma msg_textD: "msg_text t \<Longrightarrow> CHR ''<'' \<notin> set t" "msg_text t \<Longrightarrow> NUL \<notin> set t" "msg_text t \<Longrightarrow> c_str t = t"
  by (simp_all add: msg_text_def c_str_id)

lemma sprintf1024_sent:
  assumes "sprintf1024 msg = Inr buffer" and "NUL \<notin> set msg"
  shows "c_str (take 1024 buffer) = msg"
proof -
  have "length msg < 1024" "buffer = msg @ replicate (1024 - length msg) NUL"
    using assms(1) by (auto simp: sprintf1024_def split: if_splits)
  then show ?thesis using assms(2) by (cases "1024 - length msg") (auto simp: c_str_append)
qed

lemmas tag_simps = find_sub_skip tag_value_def tag_or_empty_def Let_def

lemma tag_value_at:
  "find_sub o_tag s = Some (length u) \<Longrightarrow> find_sub c_tag s = Some (length (u @ o_tag @ v)) \<Longrightarrow>
     s = u @ o_tag @ v @ r \<Longrightarrow> tag_value o_tag c_tag s = Some v"
  by (simp add: tag_value_def)

lemma next_tags:
  assumes "msg_text tok" and "msg_text user"
  shows "tag_value ''<token>'' ''</token>'' (NEXT_MSG tok user) = Some tok"
    and "tag_or_empty ''<user>'' ''</user>'' (NEXT_MSG tok user) = user"
    and "\<not> contains (NEXT_MSG tok user) ''<command>''" and "\<not> contains (NEXT_MSG tok user) ''<process>''"
    and "\<not> contains (NEXT_MSG tok user) ''<details>''" and "contains (NEXT_MSG tok user) ''<next>''"
  using msg_textD[OF assms(1)] msg_textD[OF assms(2)]
  by (simp_all add: NEXT_MSG_def contains_def tag_simps)

lemma process_tags:
  assumes "msg_text tok" and "msg_text user"
  shows "tag_value ''<token>'' ''</token>'' (PROCESS_MSG tok user) = Some tok"
    and "tag_or_empty ''<user>'' ''</user>'' (PROCESS_MSG tok user) = user"
    and "\<not> contains (PROCESS_MSG tok user) ''<command>''" and "contains (PROCESS_MSG tok user) ''<process>''"
  using msg_textD[OF assms(1)] msg_textD[OF assms(2)]
  by (simp_all add: PROCESS_MSG_def contains_def tag_simps)

lemma details_tags:
  assumes "msg_text tok" and "msg_text user"
  shows "tag_value ''<token>'' ''</token>'' (DETAILS_MSG tok user) = Some tok"
    and "tag_or_empty ''<user>'' ''</user>'' (DETAILS_MSG tok user) = user"
    and "\<not> contains (DETAILS_MSG tok user) ''<command>''" and "\<not> contains (DETAILS_MSG tok user) ''<process>''"
    and "contains (DETAILS_MSG tok user) ''<details>''"
  using msg_textD[OF assms(1)] msg_textD[OF assms(2)]
  by (simp_all add: DETAILS_MSG_def contains_def tag_simps)

lemma delete_tags:
  assumes "msg_text tok" and "msg_text user"
  shows "tag_value ''<token>'' ''</token>'' (DELETE_MSG tok user) = Some tok"
    and "\<not> contains (DELETE_MSG tok user) ''<command>''" and "\<not> contains (DELETE_MSG tok user) ''<process>''"
    and "\<not> contains (DELETE_MSG tok user) ''<details>''" and "\<not> contains (DELETE_MSG tok user) ''<next>''"
    and "contains (DELETE_MSG tok user) ''<delete>''"
  using msg_textD[OF assms(1)] msg_textD[OF assms(2)]
  by (simp_all add: DELETE_MSG_def contains_def tag_simps)

lemma command_tags:
  assumes "msg_text tok" and "msg_text cmd" and "msg_text user"
  shows "tag_value ''<token>'' ''</token>'' (COMMAND_MSG tok cmd user) = Some tok"
    and "tag_or_empty ''<statement>'' ''</statement>'' (COMMAND_MSG tok cmd user) = cmd"
    and "contains (COMMAND_MSG tok cmd user) ''<command>''"
    and "tag_or_empty ''<user>'' ''</user>'' (COMMAND_MSG tok cmd user) = user"
proof -
  note t = msg_textD[OF assms(1)] msg_textD[OF assms(2)] msg_textD[OF assms(3)]
  show "tag_value ''<token>'' ''</token>'' (COMMAND_MSG tok cmd user) = Some tok"
    "tag_or_empty ''<statement>'' ''</statement>'' (COMMAND_MSG tok cmd user) = cmd"
    "contains (COMMAND_MSG tok cmd user) ''<command>''"
    using t by (simp_all add: COMMAND_MSG_def contains_def tag_simps)
  have "tag_value ''<user>'' ''</user>'' (COMMAND_MSG tok cmd user) = Some user"
    by (rule tag_value_at[where u = "''<vyatta><command><token>'' @ tok @ ''</token><statement>'' @ cmd @ ''</statement>''"
          and r = "''</user></command></vyatta>''"])
      (use t in \<open>simp_all add: COMMAND_MSG_def find_sub_skip\<close>)
  then show "tag_or_empty ''<user>'' ''</user>'' (COMMAND_MSG tok cmd user) = user"
    by (simp add: tag_or_empty_def)
qed

text \<open>The first user tag counts, also one inside the statement.\<close>

lemma command_tags_spoofed:
  assumes "msg_text tok" and "msg_text a" and "msg_text v"
  shows "tag_or_empty ''<user>'' ''</user>'' (COMMAND_MSG tok (a @ ''<user>'' @ v @ ''</user>'' @ b) user) = v"
proof -
  note t = msg_textD[OF assms(1)] msg_textD[OF assms(2)] msg_textD[OF assms(3)]
  have "tag_value ''<user>'' ''</user>'' (COMMAND_MSG tok (a @ ''<user>'' @ v @ ''</user>'' @ b) user) = Some v"
    by (rule tag_value_at[where u = "''<vyatta><command><token>'' @ tok @ ''</token><statement>'' @ a"
          and r = "''</user>'' @ b @ ''</statement><user>'' @ user @ ''</user></command></vyatta>''"])
      (use t in \<open>simp_all add: COMMAND_MSG_def find_sub_skip\<close>)
  then show ?thesis by (simp add: tag_or_empty_def)
qed

section \<open>Lemmas: replies\<close>

definition reply_text :: "string \<Rightarrow> bool" where
  "reply_text x \<longleftrightarrow> clean_field ''%3A'' x \<and> NUL \<notin> set x"

lemma fmt_ld_reply: "reply_text (fmt_ld w)"
proof -
  have "list_all (\<lambda>c. c \<notin> set [TAB, NL, CHR ''~'', CHR ''%'', NUL]) ''-0123456789''" by code_simp
  then have "list_all (\<lambda>c. c \<notin> set [TAB, NL, CHR ''~'', CHR ''%'', NUL]) (fmt_ld w)"
    using fmt_ld_set[of w] unfolding list_all_iff list.set(2)[of "CHR ''-''" "''0123456789''"] by blast
  then show ?thesis by (auto simp: reply_text_def clean_field_def list_all_iff)
qed

definition clean_entry :: "ProcessData \<Rightarrow> bool" where
  "clean_entry pd \<longleftrightarrow> reply_text (pd_command pd) \<and> reply_text (pd_token pd) \<and> reply_text (pd_user pd)"

definition entry_fields :: "ProcessData \<Rightarrow> string list" where
  "entry_fields pd = [fmt_ld (start_time pd), pd_command pd, pd_token pd, pd_user pd, fmt_ld (read_offset pd)]"

lemma entry_text_join: "entry_text pd = join ''%3A'' (entry_fields pd)"
  by (simp add: entry_text_def entry_fields_def)

lemma entry_fields_clean: "clean_entry pd \<Longrightarrow> \<forall>x \<in> set (entry_fields pd). reply_text x"
  by (simp add: entry_fields_def clean_entry_def fmt_ld_reply)

lemma entry_coll:
  assumes "clean_entry pd"
  shows "str_coll (entry_text pd) ''%3A'' = entry_fields pd"
    and "str_coll (entry_text pd @ [NL]) ''%3A'' = entry_fields pd"
proof -
  have "\<forall>x \<in> set (entry_fields pd). clean_field ''%3A'' x"
    using entry_fields_clean[OF assms] by (simp add: reply_text_def)
  from StrProc_join[OF _ _ this] show "str_coll (entry_text pd) ''%3A'' = entry_fields pd"
    "str_coll (entry_text pd @ [NL]) ''%3A'' = entry_fields pd"
    by (simp_all add: str_coll_def entry_text_join)
qed

definition entry_info :: "ProcessData \<Rightarrow> proc_info" where
  "entry_info pd = \<lparr>p_username = pd_user pd, p_start_time = Some (start_time pd), p_id = pd_token pd,
     p_command = pd_command pd\<rparr>"

lemma parse_entry_text: "clean_entry pd \<Longrightarrow> parse_entry (entry_text pd) = entry_info pd"
  by (simp add: parse_entry_def entry_coll entry_fields_def entry_info_def strtoul10_fmt_ld Let_def)

lemma entry_text_set: "clean_entry pd \<Longrightarrow> set (entry_text pd) \<inter> {TAB, NL, CHR ''~'', NUL} = {}"
  using entry_fields_clean[of pd] join_set[of "''%3A''" "entry_fields pd"]
  by (fastforce simp: entry_text_join reply_text_def dest: clean_fieldD)

lemma entry_find:
  assumes "clean_entry pd"
  shows "find_sub ''%2C'' (entry_text pd @ ''%2C'' @ r) = Some (length (entry_text pd))"
proof -
  have f: "CHR ''%'' \<notin> set x" if "x \<in> set (entry_fields pd)" for x
    using entry_fields_clean[OF assms] that clean_fieldD[of "''%3A''" x] by (auto simp: reply_text_def)
  then show ?thesis by (simp add: entry_text_def entry_fields_def find_sub_skip)
qed

lemma entries_coll:
  assumes "\<forall>pd \<in> set pds. clean_entry pd"
  shows "str_coll (concat (map (\<lambda>pd. entry_text pd @ ''%2C'') pds)) ''%2C'' = map entry_text pds"
proof -
  let ?r = "\<lambda>pds. concat (map (\<lambda>pd. entry_text pd @ ''%2C'') pds)"
  have no: "TAB \<notin> set (?r pds)" "NL \<notin> set (?r pds)"
    using assms by (auto dest!: entry_text_set)
  have "nonempty_fields (CHR ''~'') (replace_all ''%2C'' ''~'' (?r pds)) = map entry_text pds"
    using assms
  proof (induction pds)
    case (Cons pd pds)
    let ?t = "entry_text pd"
    have pd: "clean_entry pd" using Cons.prems by simp
    have "replace_all ''%2C'' ''~'' (?r (pd # pds)) = ?t @ CHR ''~'' # replace_all ''%2C'' ''~'' (?r pds)"
      using replace_all_find_Some[OF entry_find[OF pd, of "?r pds"], of "''~''"] by simp
    moreover have "CHR ''~'' \<notin> set ?t" "?t \<noteq> []" using entry_text_set[OF pd] by (auto simp: entry_text_def)
    ultimately show ?case using Cons by (simp add: nonempty_fields_skip)
  qed (simp add: nonempty_fields_def)
  then show ?thesis using no by (simp add: str_coll_spec replace_all_id remove_single_nl_id)
qed

lemma recv_reply: "NUL \<notin> set r \<Longrightarrow> length r < 8192 \<Longrightarrow> recv (Some r) = Inr r"
  by (simp add: recv_def Let_def c_str_id)

lemma entry_text_length: "entry_ok (k, pd) \<Longrightarrow> length (entry_text pd) < 4096"
  using fmt_ld_length[of "start_time pd"] fmt_ld_length[of "read_offset pd"]
  by (auto simp: entry_ok_def entry_text_def)

definition link_ok :: "link \<Rightarrow> bool" where
  "link_ok l \<longleftrightarrow> l_write l \<and> l_read l \<and> l_open l"

section \<open>The shape of a request\<close>

text \<open>The requests that read a reply: the message is not sent, the reply is not read, or it is read and
  handed on.\<close>

lemma reply_cases:
  assumes "bind_res (sprintf1024 msg) (\<lambda>buffer. case send l buffer s of None \<Rightarrow> Inr (d, s)
      | Some (r, s1) \<Rightarrow> if \<not> l_read l then Inr (d, s1) else bind_res (recv r) (\<lambda>out. k out s1)) = Inr (p, s')"
  obtains "p = d" "s' = s"
    | buffer r where "sprintf1024 msg = Inr buffer" "send l buffer s = Some (r, s')" "p = d"
    | buffer r s1 out where "sprintf1024 msg = Inr buffer" "send l buffer s = Some (r, s1)" "recv r = Inr out" "k out s1 = Inr (p, s')"
proof -
  obtain buffer where b: "sprintf1024 msg = Inr buffer" "(case send l buffer s of None \<Rightarrow> Inr (d, s)
      | Some (r, s1) \<Rightarrow> if \<not> l_read l then Inr (d, s1) else bind_res (recv r) (\<lambda>out. k out s1)) = Inr (p, s')"
    using assms by (simp only: bind_res_Inr_iff) blast
  show thesis
  proof (cases "send l buffer s")
    case None
    then show ?thesis using b that(1) by simp
  next
    case (Some a)
    obtain r s1 where a: "a = (r, s1)" by (cases a)
    show ?thesis
    proof (cases "l_read l")
      case True
      then obtain out where "recv r = Inr out" "k out s1 = Inr (p, s')" using b(2) Some a by (auto simp: bind_res_Inr_iff)
      then show ?thesis using that(3) b(1) Some a by blast
    next
      case False
      then show ?thesis using b Some a that(2) by simp
    qed
  qed
qed

section \<open>What the messages of a client keep\<close>

text \<open>A property of the daemon's table that every message keeps is kept by every request of a client. The
  invariant of the table is one, to have been reached in the table of jobs is another.\<close>

locale message_closed =
  fixes P :: "manager \<Rightarrow> bool"
  assumes message_keeps: "P m \<Longrightarrow> length buf \<le> 1024 \<Longrightarrow> P (fst (snd (manager_process e sock buf m w)))"
begin

lemma send_ok: "send l buffer s = Some (r, s') \<Longrightarrow> P (fst s) \<Longrightarrow> P (fst s')"
  using message_keeps[of "fst s" "take 1024 buffer" "l_env l" 1 "snd s"] by (auto simp: send_def split: if_splits)

lemma start_ok: "mrc_start l token user cmd s = Inr (i, s') \<Longrightarrow> P (fst s) \<Longrightarrow> P (fst s')"
  by (auto simp: mrc_start_def bind_res_Inr_iff split: option.splits if_splits dest: send_ok)

lemma reply_ok:
  assumes "bind_res (sprintf1024 msg) (\<lambda>buffer. case send l buffer s of None \<Rightarrow> Inr (d, s)
      | Some (r, s1) \<Rightarrow> if \<not> l_read l then Inr (d, s1) else bind_res (recv r) (\<lambda>out. k out s1)) = Inr (p, s')"
    and "\<And>out s1. k out s1 = Inr (p, s') \<Longrightarrow> fst s' = fst s1" and "P (fst s)"
  shows "P (fst s')"
  using assms(1)
proof (cases rule: reply_cases)
  case 1
  then show ?thesis using assms(3) by simp
next
  case 2
  then show ?thesis using send_ok assms(3) by blast
next
  case (3 buffer r s1 out)
  then have "P (fst s1)" using send_ok assms(3) by blast
  then show ?thesis using assms(2)[OF 3(4)] by simp
qed

lemma details_ok:
  assumes "get_process_details l user cid s = Inr (p, s')" "P (fst s)"
  shows "P (fst s')"
proof (cases "user = [] \<or> cid = []")
  case False
  show ?thesis using assms(1) False unfolding get_process_details_def by (simp only: if_False) (erule reply_ok, simp, rule assms(2))
qed (use assms in \<open>simp add: get_process_details_def\<close>)

lemma processes_ok:
  assumes "get_processes l user s = Inr (ps, s')" "P (fst s)"
  shows "P (fst s')"
proof (cases "user = []")
  case False
  show ?thesis using assms(1) False unfolding get_processes_def by (simp only: if_False) (erule reply_ok, simp, rule assms(2))
qed (use assms in \<open>simp add: get_processes_def\<close>)

lemma chunk_ok:
  assumes "get_chunk l einval user token s = Inr (c, s')" "P (fst s)"
  shows "P (fst s')"
proof (cases "user = [] \<or> token = []")
  case False
  show ?thesis using assms(1) False unfolding get_chunk_def
    by (simp only: if_False) (erule reply_ok, auto simp: Let_def split: if_splits prod.splits intro: assms(2))
qed (use assms in \<open>simp add: get_chunk_def\<close>)

lemma kill_ok: "mrc_kill l user tok s = Inr s' \<Longrightarrow> P (fst s) \<Longrightarrow> P (fst s')"
  by (auto simp: mrc_kill_def bind_res_Inr_iff split: option.splits if_splits dest: send_ok)

lemmas client_ok = start_ok details_ok processes_ok chunk_ok kill_ok

end

interpretation mgr: message_closed mgr_ok
  by unfold_locales (rule process_ok)

section \<open>Properties\<close>

definition example_link :: link where
  "example_link = \<lparr>l_env = example_env, l_write = True, l_read = True, l_open = True, l_after = (\<lambda>fs. fs)\<rparr>"

definition example_world :: world where
  "example_world = \<lparr>w_files = Map.empty, w_procs = [], w_cmds = []\<rparr>"

text \<open>C23: The process list a user asks for is, field by field, the list of that user's entries of
  the daemon's table, in its order, when the entries' texts are free of the separators'
  characters and the reply fits the client's buffer; nothing else changes.\<close>

theorem process_list_roundtrip:
  assumes "link_ok l" and "user \<noteq> []" and "msg_text user" and "length (PROCESS_MSG ''123456'' user) < 1024"
    and "\<forall>p \<in> set (own_entries user (proc_coll m)). clean_entry (snd p)"
    and "length (handle_process user (proc_coll m)) < 8192"
  shows "get_processes l user (m, w) =
    Inr (map (\<lambda>p. entry_info (snd p)) (own_entries user (proc_coll m)), m, w)"
proof -
  let ?es = "map snd (own_entries user (proc_coll m))"
  have tok: "msg_text ''123456''" by (simp add: msg_text_def)
  obtain buffer where b: "sprintf1024 (PROCESS_MSG ''123456'' user) = Inr buffer"
    using assms(4) by (auto simp: sprintf1024_def)
  have "NUL \<notin> set (PROCESS_MSG ''123456'' user)" using assms(3) by (simp add: PROCESS_MSG_def msg_text_def)
  then have c: "c_str (take 1024 buffer) = PROCESS_MSG ''123456'' user" using sprintf1024_sent[OF b] by simp
  have s: "send l buffer (m, w) = Some (Some (handle_process user (proc_coll m)), m, w)"
    using assms(1) process_tags[OF tok assms(3)] by (simp add: send_def manager_process_def Let_def c link_ok_def)
  have h: "handle_process user (proc_coll m) = concat (map (\<lambda>pd. entry_text pd @ ''%2C'') ?es)"
    by (simp add: handle_process_eq comp_def)
  have cl: "\<forall>pd \<in> set ?es. clean_entry pd" using assms(5) by auto
  then have "NUL \<notin> set (handle_process user (proc_coll m))"
    unfolding h by (auto dest!: entry_text_set)
  then have r: "recv (Some (handle_process user (proc_coll m))) = Inr (handle_process user (proc_coll m))"
    using assms(6) by (rule recv_reply)
  have "map parse_entry (str_coll (handle_process user (proc_coll m)) ''%2C'') = map entry_info ?es"
    unfolding h entries_coll[OF cl] using cl by (simp add: parse_entry_text)
  then show ?thesis using assms(1,2) b s r msg_textD(3)[OF assms(3)]
    by (simp add: get_processes_def link_ok_def comp_def)
qed

theorem process_list_roundtrip_witness:
  "get_processes example_link ''bob'' (example_manager [example_entry ''1'' ''bob''], example_world) =
     Inr ([\<lparr>p_username = ''bob'', p_start_time = Some 5, p_id = ''1'', p_command = ''show version''\<rparr>],
       example_manager [example_entry ''1'' ''bob''], example_world)"
proof -
  let ?m = "example_manager [example_entry ''1'' ''bob'']"
  have own: "own_entries ''bob'' (proc_coll ?m) = [example_entry ''1'' ''bob'']"
    by (simp add: own_entries_def example_manager_def example_entry_def)
  have ok: "entry_ok (example_entry ''1'' ''bob'')" by (simp add: entry_ok_def example_entry_def)
  have "length (handle_process ''bob'' (proc_coll ?m)) < 8192"
    using entry_text_length[of "''1''" "snd (example_entry ''1'' ''bob'')"] ok
    unfolding handle_process_eq own by (simp add: example_entry_def)
  then show ?thesis
    using process_list_roundtrip[of example_link "''bob''" ?m example_world]
    unfolding own
    by (simp add: link_ok_def example_link_def msg_text_def PROCESS_MSG_def example_entry_def clean_entry_def
        reply_text_def clean_field_def entry_info_def)
qed

text \<open>C40: The text of a request decides as whom the daemon runs it: when the statement contains a
  user tag, the name inside that tag, not the name of the authenticated user, reaches the
  process table and \<open>start_new\<close>.\<close>

theorem statement_user_tag:
  assumes "msg_text tok" and "msg_text a" and "msg_text v" and "msg_text user" and "NUL \<notin> set b"
    and "16 \<le> length tok" and "l_write l"
    and "length (COMMAND_MSG tok (a @ ''<user>'' @ v @ ''</user>'' @ b) user) < 1024"
  shows "\<exists>st. mrc_start l (Some tok) user (a @ ''<user>'' @ v @ ''</user>'' @ b) (m, w) =
    Inr (tok, handle_command (l_env l) tok st v m w)"
proof -
  let ?cmd = "a @ ''<user>'' @ v @ ''</user>'' @ b" and ?msg = "COMMAND_MSG tok (a @ ''<user>'' @ v @ ''</user>'' @ b) user"
  have nul: "NUL \<notin> set ?msg" "NUL \<notin> set ?cmd"
    using assms(1-5) by (simp_all add: COMMAND_MSG_def msg_text_def)
  obtain buffer where b: "sprintf1024 ?msg = Inr buffer" using assms(8) by (auto simp: sprintf1024_def)
  have c: "c_str (take 1024 buffer) = ?msg" using sprintf1024_sent[OF b nul(1)] .
  have tags: "tag_value ''<token>'' ''</token>'' ?msg = Some tok" "contains ?msg ''<command>''"
    "tag_or_empty ''<user>'' ''</user>'' ?msg = v"
    using msg_textD[OF assms(1)] command_tags_spoofed[OF assms(1-3)]
    by (simp_all add: COMMAND_MSG_def contains_def tag_simps)
  have "send l buffer (m, w) = Some (None, handle_command (l_env l) tok
      (tag_or_empty ''<statement>'' ''</statement>'' ?msg) v m w)"
    using assms(7) tags by (simp add: send_def manager_process_def Let_def c)
  then show ?thesis
    using assms(6) b c_str_id[OF nul(2)] msg_textD(3)[OF assms(1)] msg_textD(3)[OF assms(4)]
    by (intro exI[of _ "tag_or_empty ''<statement>'' ''</statement>'' ?msg"])
      (simp add: mrc_start_def del: c_str_Cons)
qed

theorem statement_user_tag_witness:
  "\<exists>st. mrc_start example_link (Some ''00000000000000AB'') ''bob'' ''show <user>root</user>''
     (example_manager [], example_world) =
     Inr (''00000000000000AB'', handle_command example_env ''00000000000000AB'' st ''root'' (example_manager []) example_world)"
  using statement_user_tag[of "''00000000000000AB''" "''show ''" "''root''" "''bob''" "[]" example_link
      "example_manager []" example_world]
  by (simp add: msg_text_def example_link_def COMMAND_MSG_def)

text \<open>A request whose message does not fit the 1024-character buffer, its token valid, writes
  past the end of the buffer.\<close>

theorem start_overflow:
  assumes "16 \<le> length tok" and "1024 \<le> length (COMMAND_MSG (c_str tok) (c_str cmd) (c_str user))"
  shows "mrc_start l (Some tok) user cmd s = Inl BufferOverflow"
  using assms by (simp add: mrc_start_def sprintf1024_def)

theorem start_overflow_witness:
  "mrc_start example_link (Some ''00000000000000AB'') ''bob'' (replicate 1000 (CHR ''x'')) (example_manager [], example_world) =
     Inl BufferOverflow"
  using start_overflow[of "''00000000000000AB''" "replicate 1000 (CHR ''x'')" "''bob''" example_link "(example_manager [], example_world)"]
  by (simp add: COMMAND_MSG_def c_str_id)

end
