(* ===== verification/Mode_Base.thy ===== *)
theory Mode_Base
  imports Multi_Resp
begin

text \<open>
  \<open>mode.hh\<close> and \<open>mode.cc\<close>: running a shell command with its output collected, turning the
  output into a response, and the contract every request mode keeps (the virtual
  \<open>process\<close> of class \<open>Mode\<close>). The shell is a parameter.
\<close>

section \<open>\<open>system_out\<close>\<close>

text \<open>What one turn of the parent's loop meets: a failing \<open>select\<close>, data, a read that would
  block, or the end of the pipe (also any other read error).\<close>

datatype pipe_event = P_select_fail | P_data string | P_again | P_end

fun pipe_loop :: "pipe_event list \<Rightarrow> string \<Rightarrow> string" where
  "pipe_loop [] acc = acc"
| "pipe_loop (P_select_fail # evs) acc = acc"
| "pipe_loop (P_data d # evs) acc = pipe_loop evs (acc @ d)"
| "pipe_loop (P_again # evs) acc = pipe_loop evs acc"
| "pipe_loop (P_end # evs) acc = acc"

text \<open>The shell answers with the turns of the loop and the wait status; None when the pipe
  cannot be made, where the output keeps its old value. The command is recorded.\<close>

type_synonym shell = "string \<Rightarrow> (pipe_event list \<times> nat) option"

definition system_out :: "shell \<Rightarrow> string \<Rightarrow> string \<Rightarrow> world \<Rightarrow> int \<times> string \<times> world" where
  "system_out sh cmd out w =
     (case sh (c_str cmd) of None \<Rightarrow> (- 1, out, w)
      | Some (evs, status) \<Rightarrow>
          (int (WEXITSTATUS status), pipe_loop evs [], w\<lparr>w_cmds := w_cmds w @ [c_str cmd]\<rparr>))"

section \<open>\<open>handle_cmd_output\<close>\<close>

definition to_lower :: "char \<Rightarrow> char" where
  "to_lower c = (if CHR ''A'' \<le> c \<and> c \<le> CHR ''Z'' then char_of (of_char c + 32 :: nat) else c)"

text \<open>\<open>strncasecmp(pat, s, strlen(pat)) == 0\<close> for a pattern literal.\<close>

definition ci_prefix :: "string \<Rightarrow> string \<Rightarrow> bool" where
  "ci_prefix pat s \<longleftrightarrow> map to_lower (take (length pat) (c_str s)) = map to_lower pat"

definition header_override :: "string \<Rightarrow> Session \<Rightarrow> Session" where
  "header_override line s =
     (if ci_prefix ''Content-Type:'' line then
        (if 14 < length line
         then s\<lparr>response := (http_set HTTP_RESP_CONTENT_TYPE (c_str (drop 14 line)) (response s))\<lparr>verbatim_body := True\<rparr>\<rparr>
         else s)
      else if ci_prefix ''Set-Cookie:'' line then
        (if 12 < length line then on_response (http_set HTTP_RESP_COOKIE (c_str (drop 12 line))) s else s)
      else if ci_prefix ''Cache-Control:'' line then
        (if 14 < length line
         then (let cache_control = c_str (drop 14 line)
               in if contains cache_control ''vyatta-disable''
                  then on_response (http_erase HTTP_RESP_CACHE_CONTROL) s
                  else on_response (http_set HTTP_RESP_CACHE_CONTROL cache_control) s)
         else s)
      else if ci_prefix ''Content-Disposition:'' line then
        (if 20 < length line
         then on_response (http_set HTTP_RESP_CONTENT_DISPOSITION (c_str (drop 20 line))) s else s)
      else s)"

abbreviation HEADER_END :: string where "HEADER_END \<equiv> [CR, NL, NL]"

definition handle_cmd_output :: "string \<Rightarrow> Session \<Rightarrow> Session" where
  "handle_cmd_output cmdout s =
     (case find_sub HEADER_END cmdout of
        None \<Rightarrow> on_response (http_set HTTP_BODY cmdout) s
      | Some pos \<Rightarrow>
          on_response (http_set HTTP_BODY (drop (pos + 3) cmdout))
            (fold header_override (str_coll (take pos cmdout) [NL]) s))"

section \<open>The contract of a request mode\<close>

text \<open>The parts of a session a mode must not change.\<close>

definition same_identity :: "Session \<Rightarrow> Session \<Rightarrow> bool" where
  "same_identity s t \<longleftrightarrow> request t = request s \<and> s_user t = s_user s \<and> s_access_level t = s_access_level s \<and>
     service_user t = service_user s \<and> auth_type t = auth_type s \<and> session_key t = session_key s \<and>
     s_debug t = s_debug s"

text \<open>A mode answers a session that is not authenticated with 401 and leaves the world as it
  is; on any session it keeps the identity and the well-formedness.\<close>

locale mode_handler =
  fixes process :: "Session \<Rightarrow> 'w \<Rightarrow> (Session \<times> 'w) res"
  assumes denied: "auth_type s = AUTH_TYPE_NONE \<Longrightarrow>
      \<exists>t. process s w = Inr (t, w) \<and> http_get (response t) HTTP_RESP_CODE = ''401''"
    and keeps: "process s w = Inr (t, w') \<Longrightarrow> same_identity s t \<and> (wf_session s \<longrightarrow> wf_session t)"
begin

lemma denied_world: "auth_type s = AUTH_TYPE_NONE \<Longrightarrow> process s w = Inr (t, w') \<Longrightarrow> w' = w"
  using denied[of s w] by auto

lemma denied_returns: "auth_type s = AUTH_TYPE_NONE \<Longrightarrow> process s w \<noteq> Inl e"
  using denied[of s w] by auto

lemma identity: "process s w = Inr (t, w') \<Longrightarrow> auth_type t = auth_type s \<and> s_user t = s_user s"
  using keeps by (simp add: same_identity_def)

end

section \<open>Lemmas\<close>

lemma same_identity_refl [simp]: "same_identity s s"
  by (simp add: same_identity_def)

lemma same_identity_trans: "same_identity s t \<Longrightarrow> same_identity t u \<Longrightarrow> same_identity s u"
  by (simp add: same_identity_def)

lemma same_identity_steps [simp]:
  "same_identity s (Error_msg t m u) = same_identity s u"
  "same_identity s (Error t u) = same_identity s u"
  "same_identity s (vyatta_debug d u) = same_identity s u"
  "same_identity s (on_response f u) = same_identity s u"
  by (simp_all add: same_identity_def)

lemma wf_on_response [simp]: "(\<And>h. wf_http h \<Longrightarrow> wf_http (f h)) \<Longrightarrow> wf_session s \<Longrightarrow> wf_session (on_response f s)"
  by (simp add: wf_session_def)

lemma pipe_loop_eq:
  "pipe_loop evs acc = acc @ concat (map (\<lambda>e. case e of P_data d \<Rightarrow> d | _ \<Rightarrow> [])
     (takeWhile (\<lambda>e. e \<noteq> P_end \<and> e \<noteq> P_select_fail) evs))"
  by (induction evs acc rule: pipe_loop.induct) simp_all

text \<open>The header lines of an output, the parameter a header line may change, and the lines that make
  the body be printed as it is.\<close>

definition header_lines :: "string \<Rightarrow> string list" where
  "header_lines cmdout =
     (case find_sub HEADER_END cmdout of None \<Rightarrow> [] | Some pos \<Rightarrow> str_coll (take pos cmdout) [NL])"

definition header_key :: "string \<Rightarrow> KEY option" where
  "header_key line =
     (if ci_prefix ''Content-Type:'' line then Some HTTP_RESP_CONTENT_TYPE
      else if ci_prefix ''Set-Cookie:'' line then Some HTTP_RESP_COOKIE
      else if ci_prefix ''Cache-Control:'' line then Some HTTP_RESP_CACHE_CONTROL
      else if ci_prefix ''Content-Disposition:'' line then Some HTTP_RESP_CONTENT_DISPOSITION
      else None)"

definition type_line :: "string \<Rightarrow> bool" where
  "type_line line \<longleftrightarrow> ci_prefix ''Content-Type:'' line \<and> 14 < length line"

definition overridable :: "KEY \<Rightarrow> bool" where
  "overridable k \<longleftrightarrow> k \<in> {HTTP_RESP_CONTENT_TYPE, HTTP_RESP_COOKIE, HTTP_RESP_CACHE_CONTROL, HTTP_RESP_CONTENT_DISPOSITION}"

lemma header_key_overridable: "header_key l = Some k \<Longrightarrow> overridable k"
  by (auto simp: header_key_def overridable_def split: if_splits)

lemma header_override_get: "header_key l \<noteq> Some k \<Longrightarrow> http_get (response (header_override l s)) k = http_get (response s) k"
  by (auto simp: header_override_def header_key_def Let_def)

lemma header_override_verbatim:
  "verbatim_body (response (header_override l s)) = (verbatim_body (response s) \<or> type_line l)"
  by (auto simp: header_override_def type_line_def Let_def http_set_def http_erase_def)

text \<open>Two sessions that differ in the parameters and the printing flag of the response at most.\<close>

definition response_only :: "Session \<Rightarrow> Session \<Rightarrow> bool" where
  "response_only s t \<longleftrightarrow> t = s\<lparr>response := (response s)\<lparr>param_coll := param_coll (response t), verbatim_body := verbatim_body (response t)\<rparr>\<rparr>"

lemma response_only_iff:
  "response_only s t \<longleftrightarrow> same_identity s t \<and> http_debug (response t) = http_debug (response s)"
  by (cases s; cases t; cases "response s"; cases "response t") (auto simp: response_only_def same_identity_def)

lemma header_override_debug: "http_debug (response (header_override l s)) = http_debug (response s)"
  by (simp add: header_override_def Let_def http_set_def http_erase_def)

lemma header_override_keeps: "same_identity s (header_override l s) \<and> (wf_session s \<longrightarrow> wf_session (header_override l s))"
  by (auto simp: header_override_def same_identity_def wf_session_def Let_def)

lemma fold_header_get:
  "Some k \<notin> header_key ` set ls \<Longrightarrow> http_get (response (fold header_override ls s)) k = http_get (response s) k"
  by (induction ls arbitrary: s) (auto simp: header_override_get image_iff)

lemma fold_header_verbatim:
  "verbatim_body (response (fold header_override ls s)) = (verbatim_body (response s) \<or> (\<exists>l \<in> set ls. type_line l))"
  by (induction ls arbitrary: s) (auto simp: header_override_verbatim)

lemma fold_header_debug: "http_debug (response (fold header_override ls s)) = http_debug (response s)"
  by (induction ls arbitrary: s) (auto simp: header_override_debug)

lemma fold_header_keeps: "same_identity s (fold header_override ls s) \<and> (wf_session s \<longrightarrow> wf_session (fold header_override ls s))"
proof (induction ls arbitrary: s)
  case (Cons l ls)
  show ?case using Cons[of "header_override l s"] header_override_keeps[of s l]
    by (auto intro: same_identity_trans)
qed simp

lemma handle_cmd_output_keeps:
  "same_identity s (handle_cmd_output c s) \<and> (wf_session s \<longrightarrow> wf_session (handle_cmd_output c s))"
  using fold_header_keeps by (auto simp: handle_cmd_output_def split: option.splits)

lemma handle_cmd_output_lines:
  "handle_cmd_output c s = on_response (http_set HTTP_BODY (case find_sub HEADER_END c of None \<Rightarrow> c | Some pos \<Rightarrow> drop (pos + 3) c))
     (fold header_override (header_lines c) s)"
  by (auto simp: handle_cmd_output_def header_lines_def split: option.splits)

lemma handle_cmd_output_only: "response_only s (handle_cmd_output c s)"
  using handle_cmd_output_keeps[of s c]
  by (simp add: response_only_iff) (simp add: handle_cmd_output_lines fold_header_debug http_set_def)

lemma handle_cmd_output_key:
  "Some k \<notin> header_key ` set (header_lines c) \<Longrightarrow> k \<noteq> HTTP_BODY \<Longrightarrow>
   http_get (response (handle_cmd_output c s)) k = http_get (response s) k"
  by (simp add: handle_cmd_output_lines fold_header_get)

lemma handle_cmd_output_get:
  "\<not> overridable k \<Longrightarrow> k \<noteq> HTTP_BODY \<Longrightarrow> http_get (response (handle_cmd_output c s)) k = http_get (response s) k"
  by (rule handle_cmd_output_key) (auto dest: header_key_overridable sym)

lemma handle_cmd_output_body:
  "http_get (response (handle_cmd_output c s)) HTTP_BODY =
     (case find_sub HEADER_END c of None \<Rightarrow> c | Some pos \<Rightarrow> drop (pos + 3) c)"
  by (auto simp: handle_cmd_output_def split: option.splits)

lemma header_merge:
  assumes "NL \<notin> set a" and "NL \<notin> set b" and "set (a @ b) \<inter> {TAB, CHR ''~''} = {}" and "a @ b \<noteq> []"
  shows "str_coll (a @ [NL] @ b) [NL] = [a @ b]"
proof -
  have "replace_all [TAB] ''    '' (a @ [NL] @ b) = a @ [NL] @ b" using assms(3) by (intro replace_all_id) auto
  moreover have "remove_single_nl (a @ NL # b) = a @ b" using assms by (simp add: remove_single_nl_one)
  moreover have "replace_all [NL] ''~'' (a @ b) = a @ b" using assms by (intro replace_all_id) auto
  moreover have "nonempty_fields (CHR ''~'') (a @ b) = [a @ b]"
    using assms(3,4) by (subst nonempty_fields_last) auto
  ultimately show ?thesis by (simp add: str_coll_spec)
qed

section \<open>Properties\<close>

text \<open>C33: The output of a script becomes the response body, from after the first empty header line
  when there is one. Its header lines can change the content type, the cookie, the cache control and the
  disposition, each only by a line that starts with its own name, and a content type line with a value
  also makes the body be printed as it is. Nothing else of the response and of the session changes: in
  particular not the status, the request or the identity.\<close>

theorem script_output_confined:
  "let t = handle_cmd_output c s in
   http_get (response t) HTTP_BODY = (case find_sub HEADER_END c of None \<Rightarrow> c | Some pos \<Rightarrow> drop (pos + 3) c) \<and>
   (\<forall>k. k = HTTP_BODY \<or> (\<exists>l \<in> set (header_lines c). header_key l = Some k) \<or>
      http_get (response t) k = http_get (response s) k) \<and>
   header_key ` set (header_lines c) \<subseteq>
     {None, Some HTTP_RESP_CONTENT_TYPE, Some HTTP_RESP_COOKIE, Some HTTP_RESP_CACHE_CONTROL, Some HTTP_RESP_CONTENT_DISPOSITION} \<and>
   verbatim_body (response t) = (verbatim_body (response s) \<or>
     (\<exists>l \<in> set (header_lines c). ci_prefix ''Content-Type:'' l \<and> 14 < length l)) \<and>
   t = s\<lparr>response := (response s)\<lparr>param_coll := param_coll (response t), verbatim_body := verbatim_body (response t)\<rparr>\<rparr>"
proof -
  let ?t = "handle_cmd_output c s"
  have "k = HTTP_BODY \<or> (\<exists>l \<in> set (header_lines c). header_key l = Some k) \<or> http_get (response ?t) k = http_get (response s) k" for k
    using handle_cmd_output_key[of k c s] by fastforce
  moreover have "header_key ` set (header_lines c) \<subseteq>
     {None, Some HTTP_RESP_CONTENT_TYPE, Some HTTP_RESP_COOKIE, Some HTTP_RESP_CACHE_CONTROL, Some HTTP_RESP_CONTENT_DISPOSITION}"
    by (auto simp: header_key_def)
  moreover have "verbatim_body (response ?t) = (verbatim_body (response s) \<or> (\<exists>l \<in> set (header_lines c). type_line l))"
    by (simp add: handle_cmd_output_lines http_set_def fold_header_verbatim)
  ultimately show ?thesis
    using handle_cmd_output_body[of c s] handle_cmd_output_only[of s c]
    unfolding Let_def type_line_def response_only_def by blast
qed

text \<open>A script that prints exactly two header lines loses the second: the line break between
  them is removed before the lines are split, so a cookie line after a content type line
  never sets the cookie and becomes part of the content type.\<close>

theorem two_headers_merge:
  assumes "NL \<notin> set v" and "NL \<notin> set c" and "set (v @ c) \<inter> {TAB, CR, CHR ''~'', NUL} = {}"
  shows "let s' = handle_cmd_output (''Content-Type: '' @ v @ [CR, NL] @ ''Set-Cookie: '' @ c @ HEADER_END @ body) s
    in http_get (response s') HTTP_RESP_COOKIE = http_get (response s) HTTP_RESP_COOKIE \<and>
       http_get (response s') HTTP_RESP_CONTENT_TYPE = v @ [CR] @ ''Set-Cookie: '' @ c"
proof -
  let ?a = "''Content-Type: '' @ v @ [CR]" and ?b = "''Set-Cookie: '' @ c"
  let ?out = "?a @ [NL] @ ?b @ HEADER_END @ body"
  have ab: "NL \<notin> set ?a" "NL \<notin> set ?b" "set (?a @ ?b) \<inter> {TAB, CHR ''~''} = {}" "?a @ ?b \<noteq> []"
    using assms by auto
  have f: "find_sub HEADER_END ?out = Some (length (?a @ [NL] @ ?b))"
  proof -
    have "find_sub HEADER_END ((''Content-Type: '' @ v) @ [CR, NL] @ ?b @ HEADER_END @ body) =
        map_option ((+) (length (''Content-Type: '' @ v))) (find_sub HEADER_END ([CR, NL] @ ?b @ HEADER_END @ body))"
      by (rule find_sub_skip) (use assms(3) in auto)
    moreover have "find_sub HEADER_END ([CR, NL] @ ?b @ HEADER_END @ body) = Some (2 + length ?b)"
      using find_sub_first[of CR ?b "[NL, NL]" body] assms(3) by (auto simp: find_sub_skip)
    ultimately show ?thesis by simp
  qed
  have tk: "take (length x) (x @ y) = x" for x y :: string by simp
  have ls: "str_coll (take (length (?a @ [NL] @ ?b)) ?out) [NL] = [?a @ ?b]"
    using header_merge[OF ab] tk[of "?a @ [NL] @ ?b" "HEADER_END @ body"] by (simp only: append_assoc)
  have "ci_prefix ''Content-Type:'' (?a @ ?b)" by (simp add: ci_prefix_def)
  moreover have "c_str (drop 14 (?a @ ?b)) = v @ [CR] @ ?b"
    using assms(3) by (subst c_str_id) auto
  ultimately have "header_override (?a @ ?b) s = s\<lparr>response := (http_set HTTP_RESP_CONTENT_TYPE (v @ [CR] @ ?b) (response s))\<lparr>verbatim_body := True\<rparr>\<rparr>"
    unfolding header_override_def by simp
  then have "handle_cmd_output ?out s = on_response (http_set HTTP_BODY (drop (length (?a @ [NL] @ ?b) + 3) ?out))
      (s\<lparr>response := (http_set HTTP_RESP_CONTENT_TYPE (v @ [CR] @ ?b) (response s))\<lparr>verbatim_body := True\<rparr>\<rparr>)"
    unfolding handle_cmd_output_def f option.case ls by simp
  then show ?thesis by (simp add: Let_def)
qed

theorem two_headers_merge_witness:
  "http_get (response (handle_cmd_output (''Content-Type: text'' @ [CR, NL] @ ''Set-Cookie: a=b'' @ HEADER_END @ ''x'') (session_new False)))
     HTTP_RESP_COOKIE = []"
  using two_headers_merge[of "''text''" "''a=b''" "''x''" "session_new False"]
  by (simp add: session_new_def Let_def)

end
