(* ===== verification/Auth.thy ===== *)
theory Auth
  imports Mode_Base
begin

text \<open>
  \<open>authbase.hh\<close>, \<open>authbasic.cc\<close>, \<open>authsession.cc\<close> and \<open>authenticate.cc\<close>: the two
  authentication schemes and the choice between them. The account database, PAM, the
  base64 decoder and the calls that change the process identity are parameters; the
  identity of the process and the files are state.
\<close>

section \<open>Environment and state\<close>

text \<open>The styles of a message of PAM's conversation. \<open>ae_junk\<close> is the contents of the stack buffer the decoder does
  not fill; \<open>ae_pam_authenticate\<close> is given the service, the user and the conversation function.\<close>

datatype pam_style = PAM_PROMPT_ECHO_OFF | PAM_PROMPT_ECHO_ON | PAM_ERROR_MSG | PAM_TEXT_INFO | PAM_other int

record auth_env =
  ae_debug :: bool
  ae_b64 :: "string \<Rightarrow> string option"
  ae_junk :: string
  ae_getpwnam :: "string \<Rightarrow> (nat \<times> nat) option"
  ae_getgrouplist :: "string \<Rightarrow> nat \<Rightarrow> nat list option"
  ae_getgrgid :: "nat \<Rightarrow> string option"
  ae_pam_start :: "string \<Rightarrow> string \<Rightarrow> bool"
  ae_strdup :: bool
  ae_calloc :: bool
  ae_pam_authenticate :: "string \<Rightarrow> string \<Rightarrow> (pam_style list \<Rightarrow> string list option) \<Rightarrow> bool"
  ae_pam_acct_mgmt :: "string \<Rightarrow> string \<Rightarrow> bool"
  ae_pam_end :: bool
  ae_setloginuid :: bool
  ae_setgroups :: bool
  ae_setegid :: bool
  ae_seteuid :: bool
  ae_time :: "64 word"
  ae_lock :: "nat \<Rightarrow> bool"
  ae_fopen :: bool
  ae_fopen_tmp :: bool
  ae_fputs :: bool

text \<open>The state: the identity of the server process and the files.\<close>

type_synonym auth_state = "cred \<times> files"

definition dbg_append :: "auth_env \<Rightarrow> string \<Rightarrow> Session \<Rightarrow> Session" where
  "dbg_append e d s = (if ae_debug e then on_response (http_append HTTP_RESP_DEBUG d) s else s)"

section \<open>\<open>AuthBasic\<close>\<close>

definition basic_handle :: "string \<Rightarrow> bool" where
  "basic_handle auth \<longleftrightarrow> length AUTH_BASIC \<le> length auth \<and> take (length AUTH_BASIC) auth = AUTH_BASIC"

text \<open>\<open>ae_b64\<close> is the stream behind OpenSSL's base64 filter over the given bytes, None when reading it fails;
  one \<open>BIO_read\<close> takes at most \<open>outLen\<close> bytes of it, and its result becomes the length.\<close>

definition base64Decode :: "auth_env \<Rightarrow> string \<Rightarrow> nat \<Rightarrow> string \<times> int" where
  "base64Decode e pIn outLen =
     (case ae_b64 e pIn of Some d \<Rightarrow> (take outLen d, int (length (take outLen d))) | None \<Rightarrow> ([], - 1))"

text \<open>The user and the password: the decoded bytes are read as a C string from the buffer; the
  length of the password is a \<open>size_t\<close> difference that wraps when the decoder reports too
  little.\<close>

definition basic_credentials :: "auth_env \<Rightarrow> string \<Rightarrow> (string \<times> string) option" where
  "basic_credentials e auth =
     (case base64Decode e auth 1024 of (out, len) \<Rightarrow>
      let str_out = c_str (out @ ae_junk e) in
      case find_sub '':'' str_out of None \<Rightarrow> None
      | Some pos \<Rightarrow>
          Some (take pos str_out,
            if int pos + 1 \<le> len then take (nat (len - int pos - 1)) (drop (pos + 1) str_out)
            else drop (pos + 1) str_out))"

text \<open>The scan of the user's groups for the configuration group.\<close>

fun group_scan :: "auth_env \<Rightarrow> nat list \<Rightarrow> Session \<Rightarrow> nat \<Rightarrow> Session \<times> nat" where
  "group_scan e [] s gid = (s, gid)"
| "group_scan e (g # gs) s gid =
     (if ae_getgrgid e g = Some ''vyattacfg''
      then group_scan e gs (dbg_append e ''AAF0'' (s\<lparr>s_access_level := k_VYATTACFG\<rparr>)) g
      else group_scan e gs s gid)"

text \<open>The account part: None when it fails. The groups of the process are set here.\<close>

definition basic_account :: "auth_env \<Rightarrow> string \<Rightarrow> Session \<Rightarrow> cred \<Rightarrow> ((nat \<times> nat) option \<times> Session \<times> cred)" where
  "basic_account e username s cr =
     (case ae_getpwnam e (c_str username) of
        None \<Rightarrow> (None, vyatta_debug ''AAC'' s, cr)
      | Some (uid, gid) \<Rightarrow>
          (case ae_getgrouplist e (c_str username) gid of
             None \<Rightarrow> (None, vyatta_debug ''AAF0'' s, cr)
           | Some groups \<Rightarrow>
               (case group_scan e groups s gid of
                  (s1, primary) \<Rightarrow>
                    if \<not> ae_setgroups e then (None, vyatta_debug ''AAF5'' s1, cr)
                    else (Some (uid, primary), s1, cr\<lparr>c_groups := groups\<rparr>))))"

text \<open>The conversation function: None when the answers cannot be allocated, otherwise every message, of whatever
  style, is answered with the password.\<close>

fun conv_loop :: "pam_style list \<Rightarrow> string \<Rightarrow> string list" where
  "conv_loop [] data = []"
| "conv_loop (m # msgs) data = data # conv_loop msgs data"

definition conv_fun :: "bool \<Rightarrow> string \<Rightarrow> pam_style list \<Rightarrow> string list option" where
  "conv_fun alloc data msgs = (if alloc then Some (conv_loop msgs data) else None)"

definition basic_pam :: "auth_env \<Rightarrow> string \<Rightarrow> string \<Rightarrow> string \<Rightarrow> Session \<Rightarrow> bool \<times> Session" where
  "basic_pam e service username password s =
     (if \<not> ae_strdup e then (False, s)
      else if \<not> ae_pam_start e service (c_str username) then (False, vyatta_debug ''AAG'' s)
      else if \<not> ae_pam_authenticate e service (c_str username) (conv_fun (ae_calloc e) (c_str password)) then (False, vyatta_debug ''AAH'' s)
      else if \<not> ae_pam_acct_mgmt e service (c_str username) then (False, vyatta_debug ''AAI'' s)
      else if \<not> ae_pam_end e then (False, vyatta_debug ''AAJ'' s)
      else (True, s))"

definition basic_identity :: "auth_env \<Rightarrow> nat \<times> nat \<Rightarrow> Session \<Rightarrow> cred \<Rightarrow> bool \<times> Session \<times> cred" where
  "basic_identity e pw s cr =
     (if \<not> ae_setloginuid e then (False, s, cr)
      else let cr1 = cr\<lparr>c_loginuid := fst pw\<rparr> in
      if \<not> ae_setegid e then (False, vyatta_debug ''AAK'' s, cr1)
      else let cr2 = cr1\<lparr>c_gid := snd pw\<rparr> in
      if \<not> ae_seteuid e then (False, vyatta_debug ''AAL'' s, cr2)
      else (True, s, cr2\<lparr>c_uid := fst pw\<rparr>))"

definition basic_service :: "Session \<Rightarrow> bool" where
  "basic_service s \<longleftrightarrow> find_sub SERVICE_REQ_ROOT (req_get s HTTP_REQ_URI) = Some 0 \<or>
     contains (req_get s HTTP_REQ_PRAGMA) PRAGMA_SERVICE_USER"

text \<open>From the account on: PAM decides, then the process takes on the identity.\<close>

definition basic_finish ::
    "auth_env \<Rightarrow> string \<Rightarrow> string \<Rightarrow> string \<Rightarrow> nat \<times> nat \<Rightarrow> Session \<Rightarrow> cred \<Rightarrow> bool \<times> Session \<times> cred" where
  "basic_finish e service username password pw s cr =
     (case basic_pam e service username password s of
        (False, s1) \<Rightarrow> (False, s1, cr)
      | (True, s1) \<Rightarrow>
          (case (if service_user s1 then (True, s1, cr) else basic_identity e pw s1 cr) of
             (False, s2, cr2) \<Rightarrow> (False, s2, cr2)
           | (True, s2, cr2) \<Rightarrow> (True, s2\<lparr>auth_type := AUTH_TYPE_BASIC\<rparr>, cr2)))"

definition basic_login :: "auth_env \<Rightarrow> string \<Rightarrow> string \<Rightarrow> Session \<Rightarrow> cred \<Rightarrow> bool \<times> Session \<times> cred" where
  "basic_login e username password s cr =
     (let s1 = s\<lparr>s_user := username\<rparr>;
          svc = basic_service s1;
          s2 = (if svc then s1\<lparr>service_user := True, s_access_level := k_VYATTASERVICE_USER\<rparr> else s1);
          service = (if svc then ''vyatta-service-users.conf'' else ''login'')
      in if service_user s2 then basic_finish e service username password (0, 0) s2 cr
         else case basic_account e username s2 cr of
           (None, s3, cr3) \<Rightarrow> (False, s3, cr3)
         | (Some pw, s3, cr3) \<Rightarrow> basic_finish e service username password pw s3 cr3)"

definition basic_authorized :: "auth_env \<Rightarrow> string \<Rightarrow> Session \<Rightarrow> auth_state \<Rightarrow> (bool \<times> Session \<times> auth_state) res" where
  "basic_authorized e val s st =
     (if length val < length AUTH_BASIC + 1 then Inr (False, s, st)
      else let auth = drop (length AUTH_BASIC + 1) val in
      if auth = [] then Inr (False, vyatta_debug ''AAB'' s, st)
      else case basic_credentials e auth of None \<Rightarrow> Inr (False, s, st)
      | Some (username, password) \<Rightarrow>
          (case basic_login e username password s (fst st) of (ok, s1, cr1) \<Rightarrow> Inr (ok, s1, cr1, snd st)))"

section \<open>\<open>Lock\<close>\<close>

definition session_file :: string where "session_file = ''/var/run/gui/session''"
definition session_timeout :: "64 word" where "session_timeout = 30 * 60"
definition tmp_file :: string where "tmp_file = session_file @ ''_tmp''"
definition lck_file :: string where "lck_file = session_file @ ''.lck''"

text \<open>\<open>ae_lock n\<close> is whether the exclusive creation of attempt \<open>n\<close> succeeds. The result is the
  number of failed attempts.\<close>

function lock_loop :: "(nat \<Rightarrow> bool) \<Rightarrow> nat \<Rightarrow> nat" where
  "lock_loop acquire ct =
     (if 5 \<le> ct then ct else if acquire ct then ct else lock_loop acquire (Suc ct))"
  by pat_completeness auto
termination by (relation "measure (\<lambda>(a, ct). 5 - ct)") auto

declare lock_loop.simps [simp del]

text \<open>The status and the files. The temporary file is truncated whether or not the lock was
  taken.\<close>

definition Lock_ctor :: "auth_env \<Rightarrow> files \<Rightarrow> bool \<times> files" where
  "Lock_ctor e fs =
     (let ct = lock_loop (ae_lock e) 0;
          fs1 = (if ct \<noteq> 5 then fs(lck_file \<mapsto> []) else fs);
          fp = (fs1 session_file \<noteq> None \<and> ae_fopen e);
          fs2 = (if ae_fopen_tmp e then fs1(tmp_file \<mapsto> []) else fs1)
      in (fp \<and> ae_fopen_tmp e \<and> ct \<noteq> 5, fs2))"

text \<open>The destructor renames the temporary file and removes the lock file in every case.\<close>

definition Lock_dtor :: "files \<Rightarrow> files" where
  "Lock_dtor fs =
     (let fs1 = (case fs tmp_file of Some c \<Rightarrow> fs(session_file \<mapsto> c, tmp_file := None) | None \<Rightarrow> fs)
      in fs1(lck_file := None))"

section \<open>\<open>AuthSession\<close>\<close>

definition AuthSession_ctor :: "files \<Rightarrow> files" where
  "AuthSession_ctor fs = fs(session_file := None, tmp_file := None, lck_file := None)"

definition session_handle :: "string \<Rightarrow> bool" where
  "session_handle auth \<longleftrightarrow> contains auth AUTH_VYATTA_PATH_LOC \<or>
     (length AUTH_VYATTA_SESSION \<le> length auth \<and> take (length AUTH_VYATTA_SESSION) auth = AUTH_VYATTA_SESSION)"

text \<open>The 16 characters after a marker and one more character.\<close>

definition key_after :: "string \<Rightarrow> string \<Rightarrow> string res" where
  "key_after marker val =
     (case find_sub marker val of None \<Rightarrow> Inr []
      | Some p \<Rightarrow> substr val (p + length marker + 1) (Some 16))"

text \<open>The lines \<open>fgets\<close> delivers with a buffer of 1024 characters.\<close>

function fgets_lines :: "string \<Rightarrow> string list" where
  "fgets_lines s = (case fgets 1024 s of None \<Rightarrow> [] | Some l \<Rightarrow> l # fgets_lines (drop (length l) s))"
  by pat_completeness auto
termination
proof (relation "measure length")
  fix s l assume "fgets 1024 s = Some l"
  then have "s \<noteq> [] \<and> l \<noteq> []" by (auto simp: fgets_def Let_def split: if_splits)
  then show "(drop (length l) s, s) \<in> measure length" by simp
qed simp

declare fgets_lines.simps [simp del]

text \<open>The account part of a matching line: the flag is whether the scan goes on. Each group list is read with the capacity of ten;
  in the source a second line with the same key would find the capacity that the first one left.\<close>

definition session_account ::
    "auth_env \<Rightarrow> Session \<Rightarrow> (nat \<times> nat) option \<times> nat list \<Rightarrow> bool \<times> Session \<times> (nat \<times> nat) option \<times> nat list" where
  "session_account e s pg =
     (if service_user s then (True, s, pg)
      else case ae_getpwnam e (c_str (s_user s)) of
        None \<Rightarrow> (False, dbg_append e ''AAC'' s, None, snd pg)
      | Some (uid, gid) \<Rightarrow>
          (case ae_getgrouplist e (c_str (s_user s)) gid of
             None \<Rightarrow> (False, dbg_append e ''AAF0'' s, Some (uid, gid), snd pg)
           | Some groups \<Rightarrow> (True, fst (group_scan e groups s 0), Some (uid, gid), groups)))"

definition session_line :: "string list \<Rightarrow> 64 word \<Rightarrow> string" where
  "session_line f t = str_get f 0 @ '','' @ str_get f 1 @ '','' @ fmt_ld t @ '','' @ str_get f 3 @ '','' @ str_get f 4 @ [NL]"

definition session_fresh :: "auth_env \<Rightarrow> string list \<Rightarrow> bool" where
  "session_fresh e f \<longleftrightarrow> ae_time e < of_nat (strtoul10 (str_get f 2)) + session_timeout"

text \<open>The state of the scan: the session, the account found last with its groups, whether a
  session was found, and the temporary file.\<close>

record scan =
  sc_session :: Session
  sc_pw :: "(nat \<times> nat) option"
  sc_groups :: "nat list"
  sc_found :: bool
  sc_out :: string

text \<open>How the handling of a line ends: on to the next line, out of the loop, or out of the
  function.\<close>

datatype line_step = L_next scan | L_stop scan | L_return scan
datatype scan_end = Scan_done scan | Scan_return scan

definition matched_session :: "auth_env \<Rightarrow> string list \<Rightarrow> Session \<Rightarrow> Session" where
  "matched_session e f s =
     (let s1 = (dbg_append e ''AABs8'' s)\<lparr>s_user := str_get f 1, session_key := str_get f 0\<rparr>
      in if str_get f 4 = ''service-user''
         then s1\<lparr>s_access_level := k_VYATTASERVICE_USER, service_user := True\<rparr> else s1)"

definition line_time :: "auth_env \<Rightarrow> string list \<Rightarrow> Session \<Rightarrow> 64 word" where
  "line_time e f s =
     (if contains (req_get s HTTP_REQ_PRAGMA) PRAGMA_NO_VYATTA_SESSION_UPDATE
      then of_nat (strtoul10 (str_get f 2)) else ae_time e)"

text \<open>The line of this session: it is replaced by an updated one.\<close>

definition match_line :: "auth_env \<Rightarrow> string list \<Rightarrow> scan \<Rightarrow> line_step res" where
  "match_line e f c =
     (case session_account e (matched_session e f (sc_session c)) (sc_pw c, sc_groups c) of
        (False, s2, pw, gs) \<Rightarrow> Inr (L_return (c\<lparr>sc_session := s2\<rparr>))
      | (True, s2, pw, gs) \<Rightarrow>
          (let line = session_line f (line_time e f s2);
               c1 = c\<lparr>sc_session := s2, sc_pw := pw, sc_groups := gs\<rparr>
           in if 1024 \<le> length line then Inl BufferOverflow
              else if \<not> ae_fputs e then Inr (L_next c1)
              else Inr (L_next (c1\<lparr>sc_session := s2\<lparr>auth_type := AUTH_TYPE_VYATTA_SESSION\<rparr>, sc_found := True,
                     sc_out := sc_out c1 @ line\<rparr>))))"

text \<open>Any line: an expired one is dropped, one of another session copied.\<close>

definition scan_line :: "auth_env \<Rightarrow> string \<Rightarrow> string \<Rightarrow> scan \<Rightarrow> line_step res" where
  "scan_line e auth buf c =
     (let f = str_coll (c_str buf) '','';
          c1 = c\<lparr>sc_session := dbg_append e ''AABs6'' (dbg_append e ''AABs5'' (sc_session c))\<rparr>
      in if \<not> session_fresh e f then Inr (L_next c1)
         else let c2 = c1\<lparr>sc_session := dbg_append e ''AABs7'' (sc_session c1)\<rparr> in
         if str_get f 0 = auth then match_line e f c2
         else if ae_fputs e then Inr (L_next (c2\<lparr>sc_out := sc_out c2 @ c_str buf\<rparr>))
         else Inr (L_stop c2))"

fun scan_lines :: "auth_env \<Rightarrow> string \<Rightarrow> string list \<Rightarrow> scan \<Rightarrow> scan_end res" where
  "scan_lines e auth [] c = Inr (Scan_done c)"
| "scan_lines e auth (buf # bufs) c =
     bind_res (scan_line e auth buf c) (\<lambda>r. case r of
         L_next d \<Rightarrow> scan_lines e auth bufs d
       | L_stop d \<Rightarrow> Inr (Scan_done d)
       | L_return d \<Rightarrow> Inr (Scan_return d))"

definition session_identity :: "auth_env \<Rightarrow> nat \<times> nat \<Rightarrow> nat list \<Rightarrow> Session \<Rightarrow> cred \<Rightarrow> bool \<times> Session \<times> cred" where
  "session_identity e pw groups s cr =
     (if \<not> ae_setloginuid e then (False, s, cr)
      else let cr1 = cr\<lparr>c_loginuid := fst pw\<rparr> in
      if \<not> ae_setgroups e then (False, dbg_append e ''AAF5'' s, cr1)
      else let cr2 = cr1\<lparr>c_groups := groups\<rparr> in
      if \<not> ae_setegid e then (False, dbg_append e ''AAF6'' s, cr2)
      else let cr3 = cr2\<lparr>c_gid := snd pw\<rparr> in
      if \<not> ae_seteuid e then (False, dbg_append e ''AAF7'' s, cr3)
      else (True, s, cr3\<lparr>c_uid := fst pw\<rparr>))"

text \<open>The destructor of the lock runs on every way out.\<close>

definition session_finish :: "auth_env \<Rightarrow> cred \<Rightarrow> files \<Rightarrow> scan_end \<Rightarrow> bool \<times> Session \<times> auth_state" where
  "session_finish e cr fs r =
     (case r of
        Scan_return c \<Rightarrow> (False, sc_session c, cr, Lock_dtor (fs(tmp_file \<mapsto> sc_out c)))
      | Scan_done c \<Rightarrow>
          (let fs' = Lock_dtor (fs(tmp_file \<mapsto> sc_out c))
           in if sc_found c \<and> \<not> service_user (sc_session c) then
                (case session_identity e (the (sc_pw c)) (sc_groups c) (sc_session c) cr of
                   (ok, s2, cr2) \<Rightarrow> (ok, s2, cr2, fs'))
              else (sc_found c, sc_session c, cr, fs')))"

definition scan_start :: "auth_env \<Rightarrow> Session \<Rightarrow> scan" where
  "scan_start e s = \<lparr>sc_session = dbg_append e ''AABs4'' (dbg_append e ''AABs3'' s), sc_pw = None, sc_groups = [],
     sc_found = False, sc_out = []\<rparr>"

definition session_scan :: "auth_env \<Rightarrow> string \<Rightarrow> Session \<Rightarrow> auth_state \<Rightarrow> (bool \<times> Session \<times> auth_state) res" where
  "session_scan e auth s st =
     (case Lock_ctor e (snd st) of
        (False, fs) \<Rightarrow> Inr (False, s, fst st, Lock_dtor fs)
      | (True, fs) \<Rightarrow>
          bind_res (scan_lines e auth (fgets_lines (case fs session_file of Some c \<Rightarrow> c | None \<Rightarrow> [])) (scan_start e s)) (\<lambda>r.
            Inr (session_finish e (fst st) fs r)))"

definition session_authorized :: "auth_env \<Rightarrow> string \<Rightarrow> Session \<Rightarrow> auth_state \<Rightarrow> (bool \<times> Session \<times> auth_state) res" where
  "session_authorized e val s st =
     (if length val < length AUTH_VYATTA_SESSION + 1 \<or> length val < length AUTH_VYATTA_PATH_LOC + 1
      then Inr (False, s, st)
      else bind_res (key_after AUTH_VYATTA_PATH_LOC val) (\<lambda>key.
           bind_res (key_after AUTH_VYATTA_SESSION val) (\<lambda>auth.
             if auth = [] \<and> key = [] then Inr (False, dbg_append e ''AABs1'' s, st)
             else session_scan e (if auth = [] then key else auth) s st)))"

section \<open>\<open>Authenticate\<close>\<close>

type_synonym auth_handler =
  "(string \<Rightarrow> bool) \<times> (string \<Rightarrow> Session \<Rightarrow> auth_state \<Rightarrow> (bool \<times> Session \<times> auth_state) res)"

definition auth_coll :: "auth_env \<Rightarrow> auth_handler list" where
  "auth_coll e = [(basic_handle, basic_authorized e), (session_handle, session_authorized e)]"

fun auth_loop :: "auth_handler list \<Rightarrow> string \<Rightarrow> Session \<Rightarrow> auth_state \<Rightarrow> (bool \<times> Session \<times> auth_state) res" where
  "auth_loop [] auth s st = Inr (False, s, st)"
| "auth_loop ((handle, authorized) # r) auth s st =
     (if handle auth then authorized auth s st else auth_loop r auth s st)"

definition auth_validate :: "auth_env \<Rightarrow> Session \<Rightarrow> auth_state \<Rightarrow> (bool \<times> Session \<times> auth_state) res" where
  "auth_validate e s st =
     (let a = req_get s HTTP_REQ_AUTHORIZATION; cookie = req_get s HTTP_REQ_COOKIE in
      if a = [] \<and> cookie = [] then Inr (False, vyatta_debug ''AAA'' s, st)
      else let auth = (if a = [] then cookie else a)
           in auth_loop (auth_coll e) auth (vyatta_debug (''AAAA:'' @ auth) s) st)"

section \<open>The contract of an authentication scheme\<close>

text \<open>
  A scheme that accepts has set the authentication type; unless it accepted a service user
  the process then runs under the login and effective user number of the session's
  user. The request is never changed.
\<close>

definition accepted_ok :: "(string \<Rightarrow> (nat \<times> nat) option) \<Rightarrow> Session \<Rightarrow> cred \<Rightarrow> bool" where
  "accepted_ok pwnam t cr \<longleftrightarrow> auth_type t \<noteq> AUTH_TYPE_NONE \<and>
     (service_user t \<longrightarrow> s_access_level t = k_VYATTASERVICE_USER) \<and>
     (\<not> service_user t \<longrightarrow> (\<exists>uid gid. pwnam (c_str (s_user t)) = Some (uid, gid) \<and> c_uid cr = uid \<and> c_loginuid cr = uid))"

locale auth_scheme =
  fixes authorized :: "string \<Rightarrow> Session \<Rightarrow> auth_state \<Rightarrow> (bool \<times> Session \<times> auth_state) res"
    and pwnam :: "string \<Rightarrow> (nat \<times> nat) option"
  assumes accepted: "authorized v s st = Inr (True, t, cr, fs) \<Longrightarrow> \<not> service_user s \<Longrightarrow> accepted_ok pwnam t cr"
    and kept: "authorized v s st = Inr (b, t, st') \<Longrightarrow>
      request t = request s \<and> s_debug t = s_debug s \<and> (wf_session s \<longrightarrow> wf_session t)"
begin

lemma accepted_user:
  "authorized v s st = Inr (True, t, cr, fs) \<Longrightarrow> \<not> service_user s \<Longrightarrow> \<not> service_user t \<Longrightarrow>
     map_option fst (pwnam (c_str (s_user t))) = Some (c_uid cr)"
  using accepted by (fastforce simp: accepted_ok_def)

end

section \<open>Lemmas: sessions after the steps\<close>

lemma dbg_append_simps [simp]:
  "request (dbg_append e d s) = request s"
  "s_user (dbg_append e d s) = s_user s"
  "s_access_level (dbg_append e d s) = s_access_level s"
  "service_user (dbg_append e d s) = service_user s"
  "auth_type (dbg_append e d s) = auth_type s"
  "session_key (dbg_append e d s) = session_key s"
  "s_debug (dbg_append e d s) = s_debug s"
  "wf_session s \<Longrightarrow> wf_session (dbg_append e d s)"
  by (simp_all add: dbg_append_def wf_session_def)

lemma wf_session_fields [simp]:
  "wf_session (s\<lparr>s_user := a\<rparr>) = wf_session s"
  "wf_session (s\<lparr>s_access_level := b\<rparr>) = wf_session s"
  "wf_session (s\<lparr>service_user := c\<rparr>) = wf_session s"
  "wf_session (s\<lparr>auth_type := d\<rparr>) = wf_session s"
  "wf_session (s\<lparr>session_key := f\<rparr>) = wf_session s"
  by (simp_all add: wf_session_def)

definition same_base :: "Session \<Rightarrow> Session \<Rightarrow> bool" where
  "same_base s t \<longleftrightarrow> request t = request s \<and> s_debug t = s_debug s \<and> (wf_session s \<longrightarrow> wf_session t)"

lemma same_base_refl [simp]: "same_base s s"
  by (simp add: same_base_def)

lemma same_base_trans: "same_base s t \<Longrightarrow> same_base t u \<Longrightarrow> same_base s u"
  by (simp add: same_base_def)

lemma group_scan_keeps:
  "group_scan e gs s g = (t, g') \<Longrightarrow> same_base s t \<and> s_user t = s_user s \<and> service_user t = service_user s \<and>
     auth_type t = auth_type s \<and> session_key t = session_key s"
proof (induction e gs s g rule: group_scan.induct)
  case (2 e g gs s gid)
  then show ?case by (auto simp: same_base_def split: if_splits)
qed simp

lemma basic_account_keeps:
  assumes "basic_account e u s cr = (acct, t, cr')"
  shows "same_base s t \<and> s_user t = s_user s \<and> service_user t = service_user s"
    and "acct = Some (uid, g) \<Longrightarrow> \<exists>gid. ae_getpwnam e (c_str u) = Some (uid, gid)"
  using assms group_scan_keeps
  by (auto simp: basic_account_def same_base_def split: option.splits prod.splits if_splits)

lemma basic_pam_keeps:
  "basic_pam e svc u p s = (ok, t) \<Longrightarrow> same_base s t \<and> s_user t = s_user s \<and> service_user t = service_user s \<and>
     s_access_level t = s_access_level s"
  by (auto simp: basic_pam_def same_base_def split: if_splits)

lemma basic_identity_keeps:
  "basic_identity e pw s cr = (ok, t, cr') \<Longrightarrow> same_base s t \<and> s_user t = s_user s \<and> service_user t = service_user s \<and>
     s_access_level t = s_access_level s \<and> (ok \<longrightarrow> c_uid cr' = fst pw \<and> c_loginuid cr' = fst pw)"
  by (auto simp: basic_identity_def same_base_def Let_def split: if_splits)


lemma basic_finish_keeps:
  assumes "basic_finish e svc u p pw s cr = (ok, t, cr')"
  shows "same_base s t \<and> s_user t = s_user s \<and> service_user t = service_user s \<and> s_access_level t = s_access_level s"
    and "ok \<Longrightarrow> auth_type t = AUTH_TYPE_BASIC \<and> ae_pam_authenticate e svc (c_str u) (conv_fun (ae_calloc e) (c_str p)) \<and>
      ae_pam_acct_mgmt e svc (c_str u) \<and> (\<not> service_user s \<longrightarrow> c_uid cr' = fst pw \<and> c_loginuid cr' = fst pw)"
proof -
  obtain b1 s1 where pam: "basic_pam e svc u p s = (b1, s1)" by fastforce
  note k1 = basic_pam_keeps[OF pam]
  have auth: "b1 \<Longrightarrow> ae_pam_authenticate e svc (c_str u) (conv_fun (ae_calloc e) (c_str p)) \<and> ae_pam_acct_mgmt e svc (c_str u)"
    using pam by (auto simp: basic_pam_def split: if_splits)
  obtain b2 s2 cr2 where ident: "basic_identity e pw s1 cr = (b2, s2, cr2)" by (metis prod_cases3)
  note k2 = basic_identity_keeps[OF ident]
  have base: "same_base s (s2\<lparr>auth_type := AUTH_TYPE_BASIC\<rparr>)" "same_base s s2" "same_base s (s1\<lparr>auth_type := AUTH_TYPE_BASIC\<rparr>)"
    using k1 k2 by (auto simp: same_base_def)
  show "same_base s t \<and> s_user t = s_user s \<and> service_user t = service_user s \<and> s_access_level t = s_access_level s"
    "ok \<Longrightarrow> auth_type t = AUTH_TYPE_BASIC \<and> ae_pam_authenticate e svc (c_str u) (conv_fun (ae_calloc e) (c_str p)) \<and>
      ae_pam_acct_mgmt e svc (c_str u) \<and> (\<not> service_user s \<longrightarrow> c_uid cr' = fst pw \<and> c_loginuid cr' = fst pw)"
    using assms k1 k2 auth base
    by (auto simp: basic_finish_def pam ident split: bool.splits if_splits)
qed

lemma basic_login_keeps:
  assumes "basic_login e u p s cr = (ok, t, cr')"
  shows "same_base s t \<and> s_user t = u"
    and "ok \<Longrightarrow> \<not> service_user s \<Longrightarrow> accepted_ok (ae_getpwnam e) t cr'"
    and "ok \<Longrightarrow> \<exists>svc. svc = (if basic_service s then ''vyatta-service-users.conf'' else ''login'') \<and>
      ae_pam_authenticate e svc (c_str u) (conv_fun (ae_calloc e) (c_str p)) \<and> ae_pam_acct_mgmt e svc (c_str u)"
proof -
  let ?svc = "basic_service s" and ?service = "if basic_service s then ''vyatta-service-users.conf'' else ''login''"
  let ?s1 = "s\<lparr>s_user := u\<rparr>"
  have svc: "basic_service ?s1 = ?svc" by (simp add: basic_service_def)
  define s2 where "s2 = (if ?svc then ?s1\<lparr>service_user := True, s_access_level := k_VYATTASERVICE_USER\<rparr> else ?s1)"
  have b2: "same_base s s2" "s_user s2 = u" by (auto simp: s2_def same_base_def)
  have lg: "basic_login e u p s cr = (if service_user s2 then basic_finish e ?service u p (0, 0) s2 cr
      else case basic_account e u s2 cr of (None, s3, cr3) \<Rightarrow> (False, s3, cr3)
           | (Some pw, s3, cr3) \<Rightarrow> basic_finish e ?service u p pw s3 cr3)"
    by (simp add: basic_login_def Let_def svc s2_def)
  consider (service) "service_user s2" "basic_finish e ?service u p (0, 0) s2 cr = (ok, t, cr')"
    | (fails) "basic_account e u s2 cr = (None, t, cr')" "\<not> ok"
    | (account) pw s3 cr3 where "\<not> service_user s2" "basic_account e u s2 cr = (Some pw, s3, cr3)"
        "basic_finish e ?service u p pw s3 cr3 = (ok, t, cr')"
    using assms unfolding lg by (auto split: if_splits prod.splits option.splits)
  then have "(same_base s t \<and> s_user t = u) \<and> (ok \<longrightarrow> \<not> service_user s \<longrightarrow> accepted_ok (ae_getpwnam e) t cr') \<and>
    (ok \<longrightarrow> ae_pam_authenticate e ?service (c_str u) (conv_fun (ae_calloc e) (c_str p)) \<and> ae_pam_acct_mgmt e ?service (c_str u))"
  proof cases
    case service
    have lvl: "\<not> service_user s \<Longrightarrow> s_access_level s2 = k_VYATTASERVICE_USER"
      using service(1) by (auto simp: s2_def split: if_splits)
    show ?thesis using basic_finish_keeps[OF service(2)] b2 service(1) lvl
      by (auto simp: accepted_ok_def intro: same_base_trans)
  next
    case fails
    show ?thesis using basic_account_keeps(1)[OF fails(1)] b2 fails(2) by (auto intro: same_base_trans)
  next
    case account
    obtain uid g where pw: "pw = (uid, g)" by fastforce
    note acct = basic_account_keeps[OF account(2)]
    obtain gid where "ae_getpwnam e (c_str u) = Some (uid, gid)" using acct(2) pw by blast
    then show ?thesis using acct(1) basic_finish_keeps[OF account(3)] b2 account(1) pw
      by (auto simp: accepted_ok_def intro: same_base_trans)
  qed
  then show "same_base s t \<and> s_user t = u" "ok \<Longrightarrow> \<not> service_user s \<Longrightarrow> accepted_ok (ae_getpwnam e) t cr'"
    "ok \<Longrightarrow> \<exists>svc. svc = (if basic_service s then ''vyatta-service-users.conf'' else ''login'') \<and>
      ae_pam_authenticate e svc (c_str u) (conv_fun (ae_calloc e) (c_str p)) \<and> ae_pam_acct_mgmt e svc (c_str u)" by blast+
qed

lemma basic_authorized_cases:
  assumes "basic_authorized e v s st = Inr (b, t, cr, fs)"
  shows "(\<not> b \<and> same_base s t) \<or>
    (\<exists>u p. basic_credentials e (drop (length AUTH_BASIC + 1) v) = Some (u, p) \<and> basic_login e u p s (fst st) = (b, t, cr))"
  using assms by (auto simp: basic_authorized_def Let_def same_base_def split: if_splits option.splits prod.splits)

interpretation basic: auth_scheme "basic_authorized e" "ae_getpwnam e" for e
proof (unfold_locales, goal_cases)
  case (1 v s st t cr fs)
  then show ?case using basic_authorized_cases[OF 1(1)] basic_login_keeps(2) by blast
next
  case (2 v s st b t st')
  obtain cr fs where "st' = (cr, fs)" by fastforce
  then show ?case using basic_authorized_cases[of e v s st b t cr fs] 2 basic_login_keeps(1)
    by (metis same_base_def)
qed

section \<open>Lemmas: the session file\<close>

definition scan_inv :: "auth_env \<Rightarrow> Session \<Rightarrow> scan \<Rightarrow> bool" where
  "scan_inv e s0 c \<longleftrightarrow> same_base s0 (sc_session c) \<and>
     (\<not> service_user s0 \<and> service_user (sc_session c) \<longrightarrow> s_access_level (sc_session c) = k_VYATTASERVICE_USER) \<and>
     (sc_found c \<longrightarrow> auth_type (sc_session c) = AUTH_TYPE_VYATTA_SESSION) \<and>
     (sc_found c \<and> \<not> service_user (sc_session c) \<longrightarrow>
        (\<exists>pw. sc_pw c = Some pw \<and> ae_getpwnam e (c_str (s_user (sc_session c))) = Some pw))"

fun step_scan :: "line_step \<Rightarrow> scan" where
  "step_scan (L_next c) = c"
| "step_scan (L_stop c) = c"
| "step_scan (L_return c) = c"

lemma session_account_keeps:
  assumes "session_account e s pg = (ok, t, pw, gs)"
  shows "same_base s t \<and> s_user t = s_user s \<and> service_user t = service_user s \<and> auth_type t = auth_type s \<and>
      session_key t = session_key s"
    and "service_user s \<Longrightarrow> t = s"
    and "ok \<Longrightarrow> \<not> service_user s \<Longrightarrow> (\<exists>p. pw = Some p \<and> ae_getpwnam e (c_str (s_user s)) = Some p)"
proof -
  have gs: "same_base s (fst (group_scan e g s 0)) \<and> s_user (fst (group_scan e g s 0)) = s_user s \<and>
      service_user (fst (group_scan e g s 0)) = service_user s \<and> auth_type (fst (group_scan e g s 0)) = auth_type s \<and>
      session_key (fst (group_scan e g s 0)) = session_key s" for g
    using group_scan_keeps[of e g s 0 "fst (group_scan e g s 0)" "snd (group_scan e g s 0)"] by simp
  show "same_base s t \<and> s_user t = s_user s \<and> service_user t = service_user s \<and> auth_type t = auth_type s \<and>
      session_key t = session_key s"
    "service_user s \<Longrightarrow> t = s"
    "ok \<Longrightarrow> \<not> service_user s \<Longrightarrow> (\<exists>p. pw = Some p \<and> ae_getpwnam e (c_str (s_user s)) = Some p)"
    using assms gs by (auto simp: session_account_def same_base_def split: if_splits option.splits prod.splits)
qed

lemma match_line_inv:
  assumes "scan_inv e s0 c" and "match_line e f c = Inr r"
  shows "(case r of L_return d \<Rightarrow> True | _ \<Rightarrow> scan_inv e s0 (step_scan r)) \<and> same_base s0 (sc_session (step_scan r))"
proof -
  define s1 where "s1 = matched_session e f (sc_session c)"
  have s1: "same_base s0 s1" "\<not> service_user s0 \<and> service_user s1 \<longrightarrow> s_access_level s1 = k_VYATTASERVICE_USER"
    "auth_type s1 = auth_type (sc_session c)"
    using assms(1) by (simp_all add: s1_def matched_session_def Let_def scan_inv_def same_base_def)
  obtain ok s2 pw gs where a: "session_account e s1 (sc_pw c, sc_groups c) = (ok, s2, pw, gs)" by (metis prod_cases4)
  note k = session_account_keeps[OF a]
  have b2: "same_base s0 s2" "same_base s0 (s2\<lparr>auth_type := AUTH_TYPE_VYATTA_SESSION\<rparr>)"
    using k(1) s1(1) by (auto simp: same_base_def)
  have lvl: "\<not> service_user s0 \<and> service_user s2 \<longrightarrow> s_access_level s2 = k_VYATTASERVICE_USER" using k(1,2) s1(2) by metis
  show ?thesis
  proof (cases ok)
    case False
    then have "r = L_return (c\<lparr>sc_session := s2\<rparr>)"
      using assms(2) a by (simp add: match_line_def s1_def[symmetric])
    then show ?thesis using b2 by simp
  next
    case True
    have pw: "\<not> service_user s2 \<longrightarrow> (\<exists>p. pw = Some p \<and> ae_getpwnam e (c_str (s_user s2)) = Some p)" using k True by metis
    have "sc_found c \<longrightarrow> auth_type s2 = AUTH_TYPE_VYATTA_SESSION" using k(1) s1(3) assms(1) by (simp add: scan_inv_def)
    then show ?thesis using assms(2) a True b2 lvl pw
      by (auto simp: match_line_def s1_def[symmetric] Let_def scan_inv_def split: if_splits)
  qed
qed

lemma same_base_dbg [simp]: "same_base s0 s \<Longrightarrow> same_base s0 (dbg_append e d s)"
  by (simp add: same_base_def)

lemma scan_inv_dbg [simp]: "scan_inv e s0 (c\<lparr>sc_session := s\<rparr>) \<Longrightarrow> scan_inv e s0 (c\<lparr>sc_session := dbg_append e d s\<rparr>)"
  by (simp add: scan_inv_def)

lemma scan_inv_out [simp]: "scan_inv e s0 (c\<lparr>sc_out := x\<rparr>) = scan_inv e s0 c"
  by (simp add: scan_inv_def)

lemma scan_inv_base: "scan_inv e s0 c \<Longrightarrow> same_base s0 (sc_session c)"
  by (simp add: scan_inv_def)

lemma scan_line_inv:
  assumes "scan_inv e s0 c" and "scan_line e auth buf c = Inr r"
  shows "(case r of L_return d \<Rightarrow> True | _ \<Rightarrow> scan_inv e s0 (step_scan r)) \<and> same_base s0 (sc_session (step_scan r))"
proof -
  let ?f = "str_coll (c_str buf) '',''"
  let ?c1 = "c\<lparr>sc_session := dbg_append e ''AABs6'' (dbg_append e ''AABs5'' (sc_session c))\<rparr>"
  let ?c2 = "c\<lparr>sc_session := dbg_append e ''AABs7'' (dbg_append e ''AABs6'' (dbg_append e ''AABs5'' (sc_session c)))\<rparr>"
  have inv: "scan_inv e s0 ?c1" "scan_inv e s0 ?c2" using assms(1) by simp_all
  show ?thesis
  proof (cases "session_fresh e ?f")
    case False
    then have "r = L_next ?c1" using assms(2) by (simp add: scan_line_def)
    then show ?thesis using inv scan_inv_base[OF assms(1)] by simp
  next
    case fresh: True
    show ?thesis
    proof (cases "str_get ?f 0 = auth")
      case True
      then have "match_line e ?f ?c2 = Inr r" using fresh assms(2) by (simp add: scan_line_def)
      from match_line_inv[OF inv(2) this] show ?thesis .
    next
      case False
      then have "r = (if ae_fputs e then L_next (?c2\<lparr>sc_out := sc_out c @ c_str buf\<rparr>) else L_stop ?c2)"
        using fresh assms(2) by (simp add: scan_line_def Let_def split: if_splits)
      then show ?thesis using inv scan_inv_base[OF assms(1)] by simp
    qed
  qed
qed

lemma scan_lines_inv:
  assumes "scan_inv e s0 c" and "scan_lines e auth bufs c = Inr r"
  shows "case r of Scan_done d \<Rightarrow> scan_inv e s0 d | Scan_return d \<Rightarrow> same_base s0 (sc_session d)"
  using assms
proof (induction bufs arbitrary: c)
  case (Cons b bs)
  obtain l where l: "scan_line e auth b c = Inr l" using Cons.prems(2) by (auto simp: bind_res_Inr_iff)
  note inv = scan_line_inv[OF Cons.prems(1) l]
  show ?case using Cons l inv by (cases l) auto
qed auto

lemma session_identity_keeps:
  "session_identity e pw gs s cr = (ok, t, cr') \<Longrightarrow> same_base s t \<and> s_user t = s_user s \<and> service_user t = service_user s \<and>
     auth_type t = auth_type s \<and> s_access_level t = s_access_level s \<and> (ok \<longrightarrow> c_uid cr' = fst pw \<and> c_loginuid cr' = fst pw)"
  by (auto simp: session_identity_def same_base_def Let_def split: if_splits)

lemma session_finish_keeps:
  assumes "case r of Scan_done d \<Rightarrow> scan_inv e s d | Scan_return d \<Rightarrow> same_base s (sc_session d)"
    and "session_finish e cr fs r = (b, t, cr', fs')"
  shows "same_base s t \<and> (b \<longrightarrow> \<not> service_user s \<longrightarrow> accepted_ok (ae_getpwnam e) t cr')"
proof (cases r)
  case (Scan_return c)
  then show ?thesis using assms by (auto simp: session_finish_def)
next
  case (Scan_done c)
  then have ci: "scan_inv e s c" using assms by simp
  obtain ok2 s2 cr2 where si: "session_identity e (the (sc_pw c)) (sc_groups c) (sc_session c) cr = (ok2, s2, cr2)"
    by (metis prod_cases3)
  note k = session_identity_keeps[OF si]
  show ?thesis
  proof (cases "sc_found c \<and> \<not> service_user (sc_session c)")
    case True
    then obtain pw where pw: "sc_pw c = Some pw" "ae_getpwnam e (c_str (s_user (sc_session c))) = Some pw"
      using ci by (auto simp: scan_inv_def)
    have "b = ok2" "t = s2" "cr' = cr2" using assms(2) Scan_done True si by (auto simp: session_finish_def)
    then show ?thesis using True ci k pw
      by (cases pw) (auto simp: scan_inv_def accepted_ok_def intro: same_base_trans)
  next
    case False
    then have "b = sc_found c" "t = sc_session c" using assms(2) Scan_done by (auto simp: session_finish_def Let_def split: if_splits)
    then show ?thesis using False ci by (auto simp: scan_inv_def accepted_ok_def)
  qed
qed

lemma scan_start_inv: "scan_inv e s (scan_start e s)"
  by (simp add: scan_inv_def scan_start_def same_base_def)

lemma session_scan_keeps:
  assumes "session_scan e auth s st = Inr (b, t, cr, fs)"
  shows "same_base s t \<and> (b \<longrightarrow> \<not> service_user s \<longrightarrow> accepted_ok (ae_getpwnam e) t cr)"
proof -
  obtain ok fs1 where lk: "Lock_ctor e (snd st) = (ok, fs1)" by fastforce
  show ?thesis
  proof (cases ok)
    case False
    then show ?thesis using assms lk by (simp add: session_scan_def)
  next
    case True
    then obtain r lines where r: "scan_lines e auth lines (scan_start e s) = Inr r" "session_finish e (fst st) fs1 r = (b, t, cr, fs)"
      using assms lk by (auto simp: session_scan_def bind_res_Inr_iff)
    show ?thesis using session_finish_keeps[OF scan_lines_inv[OF scan_start_inv r(1)] r(2)] .
  qed
qed

lemma session_authorized_cases:
  assumes "session_authorized e v s st = Inr (b, t, st')"
  shows "(\<not> b \<and> same_base s t \<and> st' = st) \<or> (\<exists>a. session_scan e a s st = Inr (b, t, st'))"
proof (cases "length v < length AUTH_VYATTA_SESSION + 1 \<or> length v < length AUTH_VYATTA_PATH_LOC + 1")
  case True
  then show ?thesis using assms by (simp add: session_authorized_def)
next
  case False
  then obtain k a where ka: "(if a = [] \<and> k = [] then Inr (False, dbg_append e ''AABs1'' s, st)
      else session_scan e (if a = [] then k else a) s st) = Inr (b, t, st')"
    using assms unfolding session_authorized_def by (simp only: if_False bind_res_Inr_iff) blast
  then show ?thesis by (cases "a = [] \<and> k = []") auto
qed

interpretation session: auth_scheme "session_authorized e" "ae_getpwnam e" for e
proof (unfold_locales, goal_cases)
  case (1 v s st t cr fs)
  then obtain a where "session_scan e a s st = Inr (True, t, cr, fs)" using session_authorized_cases[OF 1(1)] by auto
  from session_scan_keeps[OF this] 1(2) show ?case by blast
next
  case (2 v s st b t st')
  obtain cr fs where st': "st' = (cr, fs)" by fastforce
  have "same_base s t" using session_authorized_cases[OF 2] session_scan_keeps unfolding st' by blast
  then show ?case by (simp add: same_base_def)
qed

lemma auth_validate_cases:
  assumes "auth_validate e s st = Inr (b, t, st')"
  obtains "\<not> b" "same_base s t" "st' = st"
    | v where "basic_authorized e v (vyatta_debug (''AAAA:'' @ v) s) st = Inr (b, t, st')"
    | v where "session_authorized e v (vyatta_debug (''AAAA:'' @ v) s) st = Inr (b, t, st')"
proof -
  let ?a = "req_get s HTTP_REQ_AUTHORIZATION" and ?c = "req_get s HTTP_REQ_COOKIE"
  let ?v = "if ?a = [] then ?c else ?a"
  have base: "same_base s (vyatta_debug d s)" for d by (simp add: same_base_def)
  show thesis
  proof (cases "?a = [] \<and> ?c = []")
    case True
    then have "\<not> b" "t = vyatta_debug ''AAA'' s" "st' = st" using assms by (auto simp: auth_validate_def)
    then show ?thesis using that(1) base by blast
  next
    case False
    then have l: "auth_loop (auth_coll e) ?v (vyatta_debug (''AAAA:'' @ ?v) s) st = Inr (b, t, st')"
      using assms False unfolding auth_validate_def Let_def by (simp only: if_False)
    consider "basic_handle ?v" | "\<not> basic_handle ?v" "session_handle ?v" | "\<not> basic_handle ?v" "\<not> session_handle ?v" by blast
    then show ?thesis
    proof cases
      case 1
      then show ?thesis using l that(2) by (simp add: auth_coll_def)
    next
      case 2
      then show ?thesis using l that(3) by (simp add: auth_coll_def)
    next
      case 3
      then have "\<not> b" "t = vyatta_debug (''AAAA:'' @ ?v) s" "st' = st" using l by (simp_all add: auth_coll_def)
      then show ?thesis using that(1) base by blast
    qed
  qed
qed

text \<open>The choice between the schemes is itself a scheme.\<close>

interpretation validate: auth_scheme "\<lambda>_. auth_validate e" "ae_getpwnam e" for e
proof (unfold_locales, goal_cases)
  case (1 v s st t cr fs)
  from 1(1) show ?case
  proof (cases rule: auth_validate_cases)
    case (2 v)
    then show ?thesis using basic.accepted 1(2) by simp
  next
    case (3 v)
    then show ?thesis using session.accepted 1(2) by simp
  qed simp
next
  case (2 v s st b t st')
  from 2 show ?case
  proof (cases rule: auth_validate_cases)
    case 1
    then show ?thesis by (simp add: same_base_def)
  next
    case (2 v)
    then show ?thesis using basic.kept[OF 2] by simp
  next
    case (3 v)
    then show ?thesis using session.kept[OF 3] by simp
  qed
qed

section \<open>Lemmas: the files the schemes change\<close>

definition auth_files :: "string set" where "auth_files = {session_file, tmp_file, lck_file}"

lemma Lock_ctor_files: "p \<notin> auth_files \<Longrightarrow> snd (Lock_ctor e fs) p = fs p"
  by (simp add: Lock_ctor_def Let_def auth_files_def)

lemma Lock_dtor_files: "p \<notin> auth_files \<Longrightarrow> Lock_dtor fs p = fs p"
  by (auto simp: Lock_dtor_def Let_def auth_files_def split: option.splits)

lemma session_scan_files:
  assumes "session_scan e a s st = Inr (b, t, cr, fs)" "p \<notin> auth_files"
  shows "fs p = snd st p"
proof -
  obtain ok fs1 where lk: "Lock_ctor e (snd st) = (ok, fs1)" by fastforce
  have f1: "fs1 p = snd st p" using Lock_ctor_files[OF assms(2), of e "snd st"] lk by simp
  have "p \<noteq> tmp_file" using assms(2) by (simp add: auth_files_def)
  then have fin: "snd (snd (snd (session_finish e cr0 fs1 r))) p = fs1 p" for cr0 r
    using Lock_dtor_files[OF assms(2)] by (cases r) (auto simp: session_finish_def Let_def split: prod.splits)
  show ?thesis
  proof (cases ok)
    case True
    then obtain r where "session_finish e (fst st) fs1 r = (b, t, cr, fs)"
      using assms(1) lk by (auto simp: session_scan_def bind_res_Inr_iff)
    then show ?thesis using fin[of "fst st" r] f1 by simp
  next
    case False
    then show ?thesis using assms lk f1 by (auto simp: session_scan_def Lock_dtor_files)
  qed
qed

lemma auth_validate_files:
  assumes "auth_validate e s st = Inr (b, t, cr, fs)" "p \<notin> auth_files"
  shows "fs p = snd st p"
  using assms(1)
proof (cases rule: auth_validate_cases)
  case (2 v)
  then show ?thesis by (auto simp: basic_authorized_def Let_def split: if_splits option.splits prod.splits)
next
  case (3 v)
  from session_authorized_cases[OF 3] show ?thesis by (auto dest: session_scan_files[OF _ assms(2)])
qed auto

section \<open>The rewritten session file\<close>

text \<open>What becomes of a line, and the condition under which the scan reads the whole file.\<close>

definition line_fields :: "string \<Rightarrow> string list" where
  "line_fields buf = str_coll (c_str buf) '',''"

definition kept_line :: "auth_env \<Rightarrow> string \<Rightarrow> Session \<Rightarrow> string \<Rightarrow> string" where
  "kept_line e auth s buf =
     (let f = line_fields buf in
      if \<not> session_fresh e f then []
      else if str_get f 0 = auth then session_line f (line_time e f s) else c_str buf)"

definition account_known :: "auth_env \<Rightarrow> string \<Rightarrow> bool" where
  "account_known e u \<longleftrightarrow> (case ae_getpwnam e (c_str u) of None \<Rightarrow> False
     | Some (uid, gid) \<Rightarrow> ae_getgrouplist e (c_str u) gid \<noteq> None)"

definition line_ok :: "auth_env \<Rightarrow> string \<Rightarrow> Session \<Rightarrow> string \<Rightarrow> bool" where
  "line_ok e auth s buf \<longleftrightarrow> str_get (line_fields buf) 0 = auth \<longrightarrow>
     account_known e (str_get (line_fields buf) 1) \<and> length (session_line (line_fields buf) (line_time e (line_fields buf) s)) < 1024"

definition identity_calls_ok :: "auth_env \<Rightarrow> bool" where
  "identity_calls_ok e \<longleftrightarrow> ae_setloginuid e \<and> ae_setgroups e \<and> ae_setegid e \<and> ae_seteuid e"

definition own_line :: "auth_env \<Rightarrow> string \<Rightarrow> string \<Rightarrow> bool" where
  "own_line e auth buf \<longleftrightarrow> session_fresh e (line_fields buf) \<and> str_get (line_fields buf) 0 = auth"

lemma session_account_known:
  "account_known e (s_user s) \<Longrightarrow> \<exists>t pw gs. session_account e s pg = (True, t, pw, gs)"
  by (auto simp: session_account_def account_known_def split: option.splits)

lemma line_time_same: "request t = request s \<Longrightarrow> line_time e f t = line_time e f s"
  by (simp add: line_time_def)

lemma match_line_ok:
  assumes "ae_fputs e" "account_known e (str_get f 1)" "request (sc_session c) = request s"
    "length (session_line f (line_time e f s)) < 1024"
  shows "\<exists>d. match_line e f c = Inr (L_next d) \<and> request (sc_session d) = request s \<and> sc_found d \<and>
    sc_out d = sc_out c @ session_line f (line_time e f s)"
proof -
  let ?m = "matched_session e f (sc_session c)"
  have m: "s_user ?m = str_get f 1" "request ?m = request s" using assms(3) by (simp_all add: matched_session_def Let_def)
  obtain t pw gs where a: "session_account e ?m (sc_pw c, sc_groups c) = (True, t, pw, gs)"
    using session_account_known[of e ?m] assms(2) m(1) by metis
  have "request t = request s" using session_account_keeps(1)[OF a] m(2) by (simp add: same_base_def)
  then have "line_time e f t = line_time e f s" by (rule line_time_same)
  then show ?thesis using a assms(1,4) \<open>request t = request s\<close> by (simp add: match_line_def)
qed

lemma scan_line_ok:
  assumes "ae_fputs e" "line_ok e auth s b" "request (sc_session c) = request s"
  shows "\<exists>d. scan_line e auth b c = Inr (L_next d) \<and> request (sc_session d) = request s \<and>
    sc_found d = (sc_found c \<or> own_line e auth b) \<and> sc_out d = sc_out c @ kept_line e auth s b"
proof (cases "session_fresh e (line_fields b)")
  case False
  then show ?thesis using assms(3) by (simp add: scan_line_def own_line_def kept_line_def line_fields_def)
next
  case fresh: True
  show ?thesis
  proof (cases "str_get (line_fields b) 0 = auth")
    case True
    let ?c = "c\<lparr>sc_session := dbg_append e ''AABs7'' (dbg_append e ''AABs6'' (dbg_append e ''AABs5'' (sc_session c)))\<rparr>"
    have l: "scan_line e auth b c = match_line e (line_fields b) ?c"
      using fresh True by (simp add: scan_line_def line_fields_def)
    have "kept_line e auth s b = session_line (line_fields b) (line_time e (line_fields b) s)" "own_line e auth b"
      using fresh True by (simp_all add: kept_line_def own_line_def Let_def)
    then show ?thesis using match_line_ok[of e "line_fields b" ?c s] assms True unfolding l by (simp add: line_ok_def)
  next
    case False
    then show ?thesis using fresh assms by (simp add: scan_line_def own_line_def kept_line_def line_fields_def Let_def)
  qed
qed

lemma scan_lines_ok:
  assumes "ae_fputs e" "list_all (line_ok e auth s) bufs" "request (sc_session c) = request s"
  shows "\<exists>d. scan_lines e auth bufs c = Inr (Scan_done d) \<and> request (sc_session d) = request s \<and>
    sc_found d = (sc_found c \<or> list_ex (own_line e auth) bufs) \<and> sc_out d = sc_out c @ concat (map (kept_line e auth s) bufs)"
  using assms(2,3)
proof (induction bufs arbitrary: c)
  case (Cons b bs)
  then obtain d where d: "scan_line e auth b c = Inr (L_next d)" "request (sc_session d) = request s"
    "sc_found d = (sc_found c \<or> own_line e auth b)" "sc_out d = sc_out c @ kept_line e auth s b"
    using scan_line_ok[OF assms(1), of auth s b c] by auto
  show ?case using Cons.IH[of d] Cons.prems d by auto
qed simp

text \<open>The scan is left at the requester's line when its account is not known.\<close>

lemma scan_line_other:
  assumes "ae_fputs e" "\<not> own_line e auth b"
  shows "\<exists>d. scan_line e auth b c = Inr (L_next d) \<and> service_user (sc_session d) = service_user (sc_session c) \<and>
    sc_out d = sc_out c @ kept_line e auth s b"
  using assms by (auto simp: scan_line_def own_line_def kept_line_def line_fields_def Let_def dbg_append_def)

lemma match_line_unknown:
  assumes "\<not> service_user (sc_session c)" "str_get f 4 \<noteq> ''service-user''" "\<not> account_known e (str_get f 1)"
  shows "\<exists>s2. match_line e f c = Inr (L_return (c\<lparr>sc_session := s2\<rparr>))"
  using assms
  by (auto simp: match_line_def session_account_def matched_session_def account_known_def dbg_append_def Let_def
      split: option.splits prod.splits)

lemma scan_lines_left:
  assumes "ae_fputs e" "\<not> list_ex (own_line e auth) pre" "own_line e auth b" "\<not> service_user (sc_session c)"
    "str_get (line_fields b) 4 \<noteq> ''service-user''" "\<not> account_known e (str_get (line_fields b) 1)"
  shows "\<exists>d. scan_lines e auth (pre @ b # post) c = Inr (Scan_return d) \<and> sc_out d = sc_out c @ concat (map (kept_line e auth s) pre)"
  using assms(2,4)
proof (induction pre arbitrary: c)
  case Nil
  let ?c = "c\<lparr>sc_session := dbg_append e ''AABs7'' (dbg_append e ''AABs6'' (dbg_append e ''AABs5'' (sc_session c)))\<rparr>"
  have "scan_line e auth b c = match_line e (line_fields b) ?c"
    using assms(3) by (simp add: scan_line_def own_line_def line_fields_def)
  then show ?case using match_line_unknown[of ?c "line_fields b" e] Nil assms(5,6) by (auto simp: dbg_append_def)
next
  case (Cons a pre)
  then obtain d where "scan_line e auth a c = Inr (L_next d)" "service_user (sc_session d) = service_user (sc_session c)"
    "sc_out d = sc_out c @ kept_line e auth s a"
    using scan_line_other[OF assms(1), of auth a c s] by auto
  then show ?case using Cons.IH[of d] Cons.prems by auto
qed

lemma Lock_dtor_file [simp]: "Lock_dtor (fs(tmp_file \<mapsto> c)) session_file = Some c"
  by (simp add: Lock_dtor_def tmp_file_def session_file_def lck_file_def)

lemma lock_loop_first: "acquire 0 \<Longrightarrow> lock_loop acquire 0 = 0"
  by (simp add: lock_loop.simps)

lemma lock_loop_never: "\<forall>n < 5. \<not> acquire n \<Longrightarrow> lock_loop acquire 0 = 5"
  by (simp add: lock_loop.simps)

section \<open>Properties\<close>

text \<open>
  C7: a request is accepted only with an identity. When \<open>Authenticate::validate\<close> says yes for a
  fresh session, the session's authentication type is set, and the server process runs with
  the login and effective user number of exactly the account the session names; the
  only exception are service users, and those have the service access level.
\<close>

theorem validate_identity:
  assumes "auth_validate e s st = Inr (True, t, cr, fs)" and "\<not> service_user s"
  shows "auth_type t \<noteq> AUTH_TYPE_NONE \<and> request t = request s \<and>
    (if service_user t then s_access_level t = k_VYATTASERVICE_USER
     else c_loginuid cr = c_uid cr \<and> map_option fst (ae_getpwnam e (c_str (s_user t))) = Some (c_uid cr))"
  using validate.accepted[OF assms] validate.kept[OF assms(1)] by (auto simp: accepted_ok_def)

definition example_auth_env :: auth_env where
  "example_auth_env = \<lparr>ae_debug = False, ae_b64 = (\<lambda>x. Some ''alice:pw''), ae_junk = [NUL],
     ae_getpwnam = (\<lambda>u. if u = ''alice'' then Some (1000, 100) else None),
     ae_getgrouplist = (\<lambda>u g. Some [g, 110]), ae_getgrgid = (\<lambda>g. if g = 110 then Some ''vyattacfg'' else None),
     ae_pam_start = (\<lambda>x u. True), ae_strdup = True, ae_calloc = True,
     ae_pam_authenticate = (\<lambda>x u conv. u = ''alice'' \<and> conv [PAM_PROMPT_ECHO_OFF] = Some [''pw'']),
     ae_pam_acct_mgmt = (\<lambda>x u. True), ae_pam_end = True, ae_setloginuid = True, ae_setgroups = True,
     ae_setegid = True, ae_seteuid = True, ae_time = 1000, ae_lock = (\<lambda>n. n = 0), ae_fopen = True, ae_fopen_tmp = True,
     ae_fputs = True\<rparr>"

definition example_root :: cred where
  "example_root = \<lparr>c_loginuid = 0, c_uid = 0, c_gid = 0, c_groups = []\<rparr>"

definition auth_session :: "KEY \<Rightarrow> string \<Rightarrow> Session" where
  "auth_session k v = (session_new False)\<lparr>request := http_set k v (http_new False)\<rparr>"

theorem validate_identity_witness:
  "case auth_validate example_auth_env (auth_session HTTP_REQ_AUTHORIZATION ''Basic YWxpY2U6cHc='') (example_root, Map.empty) of
     Inl x \<Rightarrow> False | Inr (ok, t, cr, fs) \<Rightarrow> ok \<and> s_user t = ''alice'' \<and> c_uid cr = 1000 \<and> auth_type t \<noteq> AUTH_TYPE_NONE"
proof -
  have "\<exists>t cr fs. auth_validate example_auth_env (auth_session HTTP_REQ_AUTHORIZATION ''Basic YWxpY2U6cHc='') (example_root, Map.empty) =
      Inr (True, t, cr, fs) \<and> s_user t = ''alice'' \<and> \<not> service_user t"
    by (simp add: auth_validate_def auth_session_def example_auth_env_def auth_coll_def basic_handle_def rest_consts
        basic_authorized_def basic_credentials_def base64Decode_def Let_def basic_login_def basic_service_def basic_account_def
        basic_finish_def basic_pam_def conv_fun_def basic_identity_def c_str_def contains_def session_new_def)
  then obtain t cr fs where r: "auth_validate example_auth_env (auth_session HTTP_REQ_AUTHORIZATION ''Basic YWxpY2U6cHc='')
      (example_root, Map.empty) = Inr (True, t, cr, fs)" "s_user t = ''alice''" "\<not> service_user t" by blast
  from validate_identity[OF r(1)] r show ?thesis
    by (simp add: auth_session_def session_new_def example_auth_env_def c_str_def)
qed

text \<open>
  C8: the Basic scheme accepts only credentials that PAM accepts: the name and the
  password decoded from the header, the latter as the answer to every message of the conversation, passed
  authentication and account management of the login service, or of the service-user service exactly
  when the path is below the service root or the request has the service-user pragma.
\<close>

theorem basic_needs_pam:
  assumes "basic_authorized e v s st = Inr (True, t, cr, fs)"
  shows "\<exists>u p. basic_credentials e (drop 6 v) = Some (u, p) \<and> s_user t = u \<and>
    ae_pam_authenticate e (if basic_service s then ''vyatta-service-users.conf'' else ''login'') (c_str u) (conv_fun (ae_calloc e) (c_str p)) \<and>
    ae_pam_acct_mgmt e (if basic_service s then ''vyatta-service-users.conf'' else ''login'') (c_str u)"
proof -
  obtain u p where up: "basic_credentials e (drop (length AUTH_BASIC + 1) v) = Some (u, p)" "basic_login e u p s (fst st) = (True, t, cr)"
    using basic_authorized_cases[OF assms] by blast
  have "length AUTH_BASIC + 1 = 6" by (simp add: rest_consts)
  then show ?thesis using up(1) basic_login_keeps(1,3)[OF up(2)] by auto
qed

theorem basic_needs_pam_witness:
  "case basic_authorized example_auth_env ''Basic YWxpY2U6cHc='' (auth_session HTTP_REQ_URI ''/rest/conf'') (example_root, Map.empty) of
     Inl x \<Rightarrow> False | Inr (ok, t, st) \<Rightarrow> ok \<and> s_user t = ''alice'' \<and> ae_pam_authenticate example_auth_env ''login'' ''alice'' (conv_fun True ''pw'')"
proof -
  have "\<exists>t cr fs. basic_authorized example_auth_env ''Basic YWxpY2U6cHc='' (auth_session HTTP_REQ_URI ''/rest/conf'') (example_root, Map.empty) =
      Inr (True, t, cr, fs)"
    by (simp add: auth_session_def example_auth_env_def rest_consts
        basic_authorized_def basic_credentials_def base64Decode_def Let_def basic_login_def basic_service_def basic_account_def
        basic_finish_def basic_pam_def conv_fun_def basic_identity_def c_str_def contains_def session_new_def)
  then obtain t cr fs where r: "basic_authorized example_auth_env ''Basic YWxpY2U6cHc='' (auth_session HTTP_REQ_URI ''/rest/conf'')
      (example_root, Map.empty) = Inr (True, t, cr, fs)" by blast
  from basic_needs_pam[OF r] r show ?thesis
    by (auto simp: auth_session_def basic_service_def example_auth_env_def basic_credentials_def base64Decode_def Let_def c_str_def rest_consts contains_def)
qed

text \<open>
  C16: with the lock taken and the temporary file written, a session request rewrites the
  session file line by line (read in pieces of at most 1023 bytes): expired sessions disappear, the requester's
  own session is renewed with the current time (or keeps its time under the no-update pragma) and every other
  session is copied as it is, up to a NUL byte. This holds when the requester's own lines name a known account whose
  groups fit the buffer for ten of them, and their renewed text stays below the 1024 bytes of its buffer. The request is
  recognised only when an unexpired line has its key, and whenever one has it if the system calls that
  take on the account succeed.
\<close>

theorem session_file_rewritten:
  assumes "fst (Lock_ctor e (snd st))" "ae_fputs e" "snd st session_file = Some content"
    and "list_all (line_ok e auth s) (fgets_lines content)"
  shows "\<exists>ok t cr fs. session_scan e auth s st = Inr (ok, t, cr, fs) \<and>
    fs session_file = Some (concat (map (kept_line e auth s) (fgets_lines content))) \<and>
    (ok \<longrightarrow> list_ex (own_line e auth) (fgets_lines content)) \<and>
    (identity_calls_ok e \<longrightarrow> ok = list_ex (own_line e auth) (fgets_lines content))"
proof -
  obtain fs1 where lk: "Lock_ctor e (snd st) = (True, fs1)" using assms(1) by (metis prod.collapse)
  have old: "fs1 session_file = Some content"
    using lk assms(3) by (auto simp: Lock_ctor_def Let_def lck_file_def tmp_file_def session_file_def split: if_splits)
  obtain d where d: "scan_lines e auth (fgets_lines content) (scan_start e s) = Inr (Scan_done d)"
      "sc_found d = list_ex (own_line e auth) (fgets_lines content)" "sc_out d = concat (map (kept_line e auth s) (fgets_lines content))"
    using scan_lines_ok[OF assms(2,4), of "scan_start e s"] by (auto simp: scan_start_def)
  show ?thesis using lk old d
    by (auto simp: session_scan_def session_finish_def Let_def identity_calls_ok_def session_identity_def split: prod.splits)
qed

lemma fgets_single:
  assumes "NL \<notin> set l" "length l < 1023"
  shows "fgets_lines (l @ [NL]) = [l @ [NL]]"
proof -
  have "takeWhile (\<lambda>c. c \<noteq> NL) (l @ [NL]) = l" using assms(1) by (induction l) auto
  then have "fgets 1024 (l @ [NL]) = Some (l @ [NL])" using assms(2) by (simp add: fgets_def)
  then show ?thesis by (simp add: fgets_lines.simps[of "l @ [NL]"] fgets_lines.simps[of "[]"] fgets_def)
qed

definition example_line :: string where "example_line = ''0123456789ABCDEF,alice,100,x,y''"

lemma example_line_fields: "line_fields (example_line @ [NL]) = [''0123456789ABCDEF'', ''alice'', ''100'', ''x'', ''y'']"
  by (simp add: line_fields_def example_line_def str_coll_spec c_str_def nonempty_fields_def remove_single_nl_def)

lemma example_numbers: "int_dec 1000 = ''1000''" "strtoul10 ''100'' = 100"
  by (simp add: int_dec_def dec.simps[of 1000] dec.simps[of 100] dec.simps[of 10] dec.simps[of "Suc 0"] dec_digit_def)
    (simp add: strtoul10_def c_str_def is_space_def dec_val_def to_ulong_def)

lemma example_line_new: "session_line [''0123456789ABCDEF'', ''alice'', ''100'', ''x'', ''y''] 1000 = ''0123456789ABCDEF,alice,1000,x,y'' @ [NL]"
  by (simp add: session_line_def str_get_def fmt_ld_def example_numbers)

theorem session_file_rewritten_witness:
  "\<exists>ok t cr fs. session_scan example_auth_env ''0123456789ABCDEF'' (auth_session HTTP_REQ_COOKIE [])
      (example_root, [session_file \<mapsto> example_line @ [NL]]) = Inr (ok, t, cr, fs) \<and>
    fs session_file = Some (''0123456789ABCDEF,alice,1000,x,y'' @ [NL]) \<and> ok"
proof -
  let ?s = "auth_session HTTP_REQ_COOKIE []" and ?k = "''0123456789ABCDEF''"
  have l: "fgets_lines (example_line @ [NL]) = [example_line @ [NL]]" by (rule fgets_single) (simp_all add: example_line_def)
  have t: "line_time example_auth_env f ?s = 1000" for f
    by (simp add: line_time_def auth_session_def contains_def rest_consts example_auth_env_def)
  have fr: "session_fresh example_auth_env (line_fields (example_line @ [NL]))"
    by (simp add: session_fresh_def example_line_fields str_get_def session_timeout_def example_auth_env_def example_numbers)
  have ok: "line_ok example_auth_env ?k ?s (example_line @ [NL])"
    by (simp add: line_ok_def example_line_fields t[unfolded example_auth_env_def] example_line_new account_known_def str_get_def example_auth_env_def c_str_def)
  have env: "fst (Lock_ctor example_auth_env [session_file \<mapsto> example_line @ [NL]])" "ae_fputs example_auth_env"
      "identity_calls_ok example_auth_env"
    by (simp_all add: Lock_ctor_def Let_def lock_loop_first example_auth_env_def identity_calls_ok_def session_file_def lck_file_def)
  show ?thesis
    using session_file_rewritten[of example_auth_env "(example_root, [session_file \<mapsto> example_line @ [NL]])" "example_line @ [NL]" ?k ?s]
      l t fr ok env by (auto simp: kept_line_def own_line_def example_line_fields example_line_new)
qed

text \<open>
  Without the account the rest of the file is lost: when the requester's own line names an account that is not
  known or whose groups do not fit, the scan is left at once, and the destructor of the lock installs what
  has been copied so far. Every session that stands behind that line is gone.
\<close>

theorem unknown_account_loses_sessions:
  assumes "fst (Lock_ctor e (snd st))" "ae_fputs e" "snd st session_file = Some content"
    and "fgets_lines content = pre @ b # post" "\<not> list_ex (own_line e auth) pre" "own_line e auth b"
    and "\<not> service_user s" "str_get (line_fields b) 4 \<noteq> ''service-user''" "\<not> account_known e (str_get (line_fields b) 1)"
  shows "\<exists>t cr fs. session_scan e auth s st = Inr (False, t, cr, fs) \<and>
    fs session_file = Some (concat (map (kept_line e auth s) pre))"
proof -
  obtain fs1 where lk: "Lock_ctor e (snd st) = (True, fs1)" using assms(1) by (metis prod.collapse)
  have old: "fs1 session_file = Some content"
    using lk assms(3) by (auto simp: Lock_ctor_def Let_def lck_file_def tmp_file_def session_file_def split: if_splits)
  obtain d where "scan_lines e auth (pre @ b # post) (scan_start e s) = Inr (Scan_return d)"
      "sc_out d = concat (map (kept_line e auth s) pre)"
    using scan_lines_left[OF assms(2,5-6) _ assms(8,9), of "scan_start e s" post s] assms(7) by (auto simp: scan_start_def)
  then show ?thesis using lk old assms(4) by (simp add: session_scan_def session_finish_def)
qed

theorem unknown_account_loses_sessions_witness:
  "\<exists>t cr fs. session_scan (example_auth_env\<lparr>ae_getpwnam := \<lambda>u. None\<rparr>) ''0123456789ABCDEF'' (auth_session HTTP_REQ_COOKIE [])
      (example_root, [session_file \<mapsto> example_line @ [NL]]) = Inr (False, t, cr, fs) \<and> fs session_file = Some []"
proof -
  let ?e = "example_auth_env\<lparr>ae_getpwnam := \<lambda>u. None\<rparr>"
  have l: "fgets_lines (example_line @ [NL]) = [] @ (example_line @ [NL]) # []"
    using fgets_single[of example_line] by (simp add: example_line_def)
  have own: "own_line ?e ''0123456789ABCDEF'' (example_line @ [NL])"
    by (simp add: own_line_def session_fresh_def example_line_fields str_get_def session_timeout_def example_auth_env_def example_numbers)
  have env: "fst (Lock_ctor ?e [session_file \<mapsto> example_line @ [NL]])" "ae_fputs ?e"
    by (simp_all add: Lock_ctor_def Let_def lock_loop_first example_auth_env_def session_file_def lck_file_def)
  show ?thesis
    using unknown_account_loses_sessions[of ?e "(example_root, [session_file \<mapsto> example_line @ [NL]])" "example_line @ [NL]"
        "[]" "example_line @ [NL]" "[]" "''0123456789ABCDEF''" "auth_session HTTP_REQ_COOKIE []"] l own env
    by (simp add: example_line_fields str_get_def account_known_def auth_session_def session_new_def)
qed

text \<open>
  C36: when the lock cannot be taken within its five attempts, the request is refused, and
  on the way out the freshly truncated temporary file replaces the session file and the lock file of
  the process that holds the lock is removed: every session is lost.
\<close>

theorem lock_failure_wipes_sessions:
  assumes "\<forall>n < 5. \<not> ae_lock e n" "ae_fopen_tmp e"
  shows "\<exists>fs. session_scan e auth s st = Inr (False, s, fst st, fs) \<and> fs session_file = Some [] \<and> fs lck_file = None"
  using lock_loop_never[OF assms(1)] assms(2)
  by (simp add: session_scan_def Lock_ctor_def Let_def Lock_dtor_def session_file_def tmp_file_def lck_file_def)

theorem lock_failure_wipes_sessions_witness:
  "\<exists>fs. session_scan (example_auth_env\<lparr>ae_lock := \<lambda>n. False\<rparr>) ''k'' (auth_session HTTP_REQ_COOKIE [])
      (example_root, [session_file \<mapsto> ''line'', lck_file \<mapsto> []]) = Inr (False, auth_session HTTP_REQ_COOKIE [], example_root, fs) \<and>
    fs session_file = Some [] \<and> fs lck_file = None"
  using lock_failure_wipes_sessions[of "example_auth_env\<lparr>ae_lock := \<lambda>n. False\<rparr>" "''k''" "auth_session HTTP_REQ_COOKIE []"
      "(example_root, [session_file \<mapsto> ''line'', lck_file \<mapsto> []])"]
  by (simp add: example_auth_env_def)

text \<open>
  A cookie that ends in the name of the session cookie, after at least one other character,
  makes the slice of the key start past the end of the value: the exception leaves \<open>validate\<close>.
\<close>

theorem truncated_cookie_throws:
  assumes "find_sub AUTH_VYATTA_PATH_LOC v = Some p" "0 < p" "length v = p + length AUTH_VYATTA_PATH_LOC"
    and "req_get s HTTP_REQ_AUTHORIZATION = []" "req_get s HTTP_REQ_COOKIE = v" "\<not> basic_handle v"
  shows "auth_validate e s st = Inl OutOfRange"
proof -
  have h: "session_handle v" using assms(1) by (simp add: session_handle_def contains_def)
  have ne: "v \<noteq> []" using assms(2,3) by auto
  have k: "key_after AUTH_VYATTA_PATH_LOC v = Inl OutOfRange" using assms(1,3) by (simp add: key_after_def substr_def)
  have len: "\<not> (length v < length AUTH_VYATTA_SESSION + 1 \<or> length v < length AUTH_VYATTA_PATH_LOC + 1)"
    using assms(2,3) by (simp add: rest_consts)
  have "session_authorized e v t st = Inl OutOfRange" for t
    unfolding session_authorized_def using len k by (simp only: if_False) simp
  then show ?thesis using assms(4-6) h ne by (simp add: auth_validate_def auth_coll_def)
qed

theorem truncated_cookie_throws_witness:
  "auth_validate example_auth_env (auth_session HTTP_REQ_COOKIE ''a=1; vyatta2_path_loc'') (example_root, Map.empty) = Inl OutOfRange"
  using truncated_cookie_throws[of "''a=1; vyatta2_path_loc''" 5 "auth_session HTTP_REQ_COOKIE ''a=1; vyatta2_path_loc''"
      example_auth_env "(example_root, Map.empty)"]
  by (simp add: rest_consts auth_session_def basic_handle_def)

end
