(* ===== verification/Configuration.thy ===== *)
theory Configuration
  imports Http_Session
begin

text \<open>
  \<open>configuration.hh\<close> and \<open>configuration.cc\<close>: reading a node of the configuration or of the
  operational command tree. The two daemons are a record \<open>conf_api\<close> of the client calls
  the code makes, answering for a session number and a path; an absent vector and an
  empty one are both the empty list. \<open>curl_easy_escape\<close> is a parameter.
\<close>

section \<open>Data\<close>

datatype CONF_STATE = k_NONE | k_ACTIVE | k_SET | k_DELETE
datatype DISABLE_STATE = k_ENABLE | k_ENABLE_LOCAL | k_DISABLE | k_DISABLE_LOCAL

record NodeParams =
  np_name :: string
  np_state :: CONF_STATE
  np_is_changed :: string
  np_disabled_state :: DISABLE_STATE

definition NodeParams_new :: NodeParams where
  "NodeParams_new = \<lparr>np_name = [], np_state = k_NONE, np_is_changed = [], np_disabled_state = k_ENABLE\<rparr>"

text \<open>\<open>NODE_TYPE_UNSET\<close> is the value of the field before it is assigned, or an error code: a
  value that matches no case.\<close>

datatype node_kind =
  NODE_TYPE_LEAF | NODE_TYPE_MULTI | NODE_TYPE_CONTAINER | NODE_TYPE_TAG | NODE_TYPE_UNSET

datatype node_status =
  NODE_STATUS_UNCHANGED | NODE_STATUS_CHANGED | NODE_STATUS_ADDED | NODE_STATUS_DELETED | NODE_STATUS_ERROR

datatype database = RUNNING | CANDIDATE

record TemplateParams =
  tp_multi :: bool
  tp_multi_limit :: "64 word"
  tp_end :: bool
  tp_action :: bool
  tp_type :: node_type
  tp_type2 :: node_type
  tp_help :: string
  tp_comp_help :: string
  tp_val_help :: "string list"
  tp_mandatory :: bool
  tp_secret :: bool
  tp_default :: string
  tp_enum :: "string list"
  tp_enumeration_cmd :: string
  tp_allowed_cmd :: string
  tp_node_type :: node_kind
  tp_data :: NodeParams
  tp_children :: "NodeParams list"

definition TemplateParams_new :: TemplateParams where
  "TemplateParams_new = \<lparr>tp_multi = False, tp_multi_limit = 0, tp_end = False, tp_action = False,
     tp_type = NONE, tp_type2 = NONE, tp_help = [], tp_comp_help = [], tp_val_help = [],
     tp_mandatory = False, tp_secret = False, tp_default = [], tp_enum = [], tp_enumeration_cmd = [],
     tp_allowed_cmd = [], tp_node_type = NODE_TYPE_UNSET, tp_data = NodeParams_new, tp_children = []\<rparr>"

text \<open>The client calls. The first argument of a configuration call is the session number.\<close>

record conf_api =
  tmpl_validate_path :: "string \<Rightarrow> string \<Rightarrow> bool"
  tmpl_get :: "string \<Rightarrow> string \<Rightarrow> string list option"
  tmpl_get_children :: "string \<Rightarrow> string \<Rightarrow> string list"
  tmpl_get_allowed :: "string \<Rightarrow> string \<Rightarrow> string list"
  node_get_type :: "string \<Rightarrow> string \<Rightarrow> node_kind"
  node_get_status :: "string \<Rightarrow> string \<Rightarrow> node_status"
  node_exists :: "string \<Rightarrow> database \<Rightarrow> string \<Rightarrow> bool"
  node_get :: "string \<Rightarrow> database \<Rightarrow> string \<Rightarrow> string list"
  opd_tmpl :: "string \<Rightarrow> string list option"
  opd_allowed :: "string \<Rightarrow> string list"
  opd_children :: "string \<Rightarrow> string list"

section \<open>Template entries\<close>

text \<open>A map entry is a key and a value around the first equals sign.\<close>

definition split_entry :: "string \<Rightarrow> (string \<times> string) option" where
  "split_entry entry =
     (case find_sub ''='' entry of None \<Rightarrow> None
      | Some pos \<Rightarrow> Some (take pos entry, drop (pos + 1) entry))"

definition clean_help :: "string \<Rightarrow> string" where
  "clean_help value = mass_replace (mass_replace value [NL] []) [QUOTE] [APOS]"

definition op_tmpl_entry :: "conf_api \<Rightarrow> string \<Rightarrow> TemplateParams \<times> string \<Rightarrow> TemplateParams \<times> string" where
  "op_tmpl_entry api entry = (\<lambda>(p, cpath).
     case split_entry entry of None \<Rightarrow> (p, cpath)
     | Some (key, value) \<Rightarrow>
         if key = ''help'' then
           (p\<lparr>tp_mandatory := (contains value ''[REQUIRED]'' \<or> tp_mandatory p), tp_help := clean_help value\<rparr>, cpath)
         else if key = ''allowed'' then
           (let cpath1 = cpath @ ''/''
            in (p\<lparr>tp_allowed_cmd := value,
                  tp_enum := fold insort_insert (opd_allowed api cpath1) (tp_enum p)\<rparr>, cpath1))
         else if key = ''run'' then (p\<lparr>tp_action := (value \<noteq> [])\<rparr>, cpath)
         else (p, cpath))"

definition get_op_template_node :: "conf_api \<Rightarrow> string \<Rightarrow> TemplateParams \<Rightarrow> TemplateParams" where
  "get_op_template_node api path p =
     (case opd_tmpl api path of None \<Rightarrow> p
      | Some entries \<Rightarrow> fst (fold (op_tmpl_entry api) entries (p, path)))"

text \<open>\<open>split\<close> reads with \<open>getline\<close>: a delimiter at the end starts no further line.\<close>

definition getline_split :: "char \<Rightarrow> string \<Rightarrow> string list" where
  "getline_split delim s =
     (let xs = split_char delim s in if last xs = [] then butlast xs else xs)"

definition type_name :: "string \<Rightarrow> node_type option" where
  "type_name e =
     (if contains e ''txt'' then Some TEXT
      else if contains e ''ipv4net'' then Some IPV4NET
      else if contains e ''ipv4'' then Some IPV4
      else if contains e ''ipv6net'' then Some IPV6NET
      else if contains e ''ipv6'' then Some IPV6
      else if contains e ''u32'' then Some U32
      else if contains e ''bool'' then Some BOOL
      else if contains e ''macaddr'' then Some MACADDR
      else None)"

definition or_keep :: "'a option \<Rightarrow> 'a \<Rightarrow> 'a" where
  "or_keep new old = (case new of Some v \<Rightarrow> v | None \<Rightarrow> old)"

definition multi_limit :: "string \<Rightarrow> 64 word \<Rightarrow> 64 word" where
  "multi_limit value old =
     (let f = str_get (str_coll value '':'') 1
      in if f = [] then old else of_nat (strtoul10 f))"

text \<open>One alternative of a \<open>syntax\<close> entry, cut at a semicolon, trimmed and unquoted; the flag
  says that a semicolon was there, which ends the loop.\<close>

definition syntax_word :: "string \<Rightarrow> string \<times> bool" where
  "syntax_word b =
     (let (cut, fin) = (case find_sub '';'' b of Some pos \<Rightarrow> (take pos b, True) | None \<Rightarrow> (b, False));
          tmp = trim cut
      in (if tmp \<noteq> [] \<and> hd tmp = QUOTE
          then (case find_last_idx (\<lambda>c. c = QUOTE) tmp of
                  Some p \<Rightarrow> if p \<noteq> 0 then take (p - 1) (drop 1 tmp) else tmp
                | None \<Rightarrow> tmp)
          else tmp, fin))"

fun syntax_loop :: "string list \<Rightarrow> string list \<Rightarrow> string list" where
  "syntax_loop [] en = en"
| "syntax_loop (b # bs) en =
     (case syntax_word b of (tmp, fin) \<Rightarrow>
        if fin then (if tmp \<noteq> [] then insort_insert tmp en else en)
        else syntax_loop bs (if tmp \<noteq> [] then insort_insert tmp en else en))"

definition syntax_enum :: "string \<Rightarrow> string list \<Rightarrow> string list" where
  "syntax_enum value en =
     (let ws = str_coll value '' ''
      in if 3 < length ws \<and> str_get ws 2 = ''in''
         then syntax_loop (str_coll (str_get_range ws 3 (int (length ws))) '','') en
         else en)"

text \<open>One entry; None for a key that is skipped. The flag is \<open>is_value\<close>.\<close>

definition tmpl_key :: "string \<Rightarrow> string \<Rightarrow> TemplateParams \<times> bool \<Rightarrow> (TemplateParams \<times> bool) option" where
  "tmpl_key key value = (\<lambda>(p, is_value).
     if key = ''is_value'' then Some (p, True)
     else if key = ''tag'' then
       Some (p\<lparr>tp_multi := True, tp_multi_limit := multi_limit value (tp_multi_limit p)\<rparr>, is_value)
     else if key = ''multi'' then
       Some (p\<lparr>tp_multi := True, tp_end := True, tp_multi_limit := multi_limit value (tp_multi_limit p)\<rparr>, is_value)
     else if key = ''default'' then Some (p\<lparr>tp_default := value\<rparr>, is_value)
     else if key = ''type'' then
       (let ts = str_coll value '','';
            e2 = str_get ts 1
        in Some (p\<lparr>tp_type := or_keep (type_name (str_get ts 0)) (tp_type p),
                   tp_type2 := (if e2 = [] then tp_type2 p else or_keep (type_name e2) (tp_type2 p))\<rparr>, is_value))
     else if key = ''comp_help'' then
       Some (p\<lparr>tp_comp_help := mass_replace value [NL] [BSLASH, CHR ''n'']\<rparr>, is_value)
     else if key = ''val_help'' then
       Some (p\<lparr>tp_val_help := fold insort_insert
                (getline_split NL (mass_replace value [TAB] [BSLASH, CHR ''t''])) (tp_val_help p)\<rparr>, is_value)
     else if key = ''help'' then
       Some (p\<lparr>tp_mandatory := (contains value ''[REQUIRED]'' \<or> tp_mandatory p), tp_help := clean_help value\<rparr>, is_value)
     else if key = ''syntax'' then Some (p\<lparr>tp_enum := syntax_enum value (tp_enum p)\<rparr>, is_value)
     else if key = ''enumeration'' then Some (p\<lparr>tp_enumeration_cmd := value\<rparr>, is_value)
     else if key = ''allowed'' then Some (p\<lparr>tp_allowed_cmd := value\<rparr>, is_value)
     else if key = ''secret'' then Some (p\<lparr>tp_secret := True\<rparr>, is_value)
     else if key = ''run'' then Some (p\<lparr>tp_action := True\<rparr>, is_value)
     else None)"

definition tmpl_entry :: "conf_api \<Rightarrow> string \<Rightarrow> string \<Rightarrow> string \<Rightarrow> TemplateParams \<times> bool \<Rightarrow> TemplateParams \<times> bool" where
  "tmpl_entry api sid cpath entry pv =
     (case split_entry entry of None \<Rightarrow> pv
      | Some (key, value) \<Rightarrow>
          (case tmpl_key key value pv of None \<Rightarrow> pv
           | Some (p, is_value) \<Rightarrow>
               (if tmpl_get_children api sid cpath = [] then p\<lparr>tp_end := True\<rparr> else p, is_value)))"

definition tmpl_allowed :: "conf_api \<Rightarrow> string \<Rightarrow> string \<Rightarrow> TemplateParams \<Rightarrow> TemplateParams" where
  "tmpl_allowed api sid cpath p =
     (let p1 = p\<lparr>tp_node_type := node_get_type api sid cpath\<rparr>
      in if tp_node_type p1 = NODE_TYPE_CONTAINER then p1
         else p1\<lparr>tp_enum := fold (\<lambda>v. insort_insert (mass_replace v [BSLASH, CHR ''<'', BSLASH, CHR ''>''] ''*''))
                (tmpl_get_allowed api sid cpath) (tp_enum p1)\<rparr>)"

text \<open>A value below a tag node is shown without the texts of the tag.\<close>

definition reset_tag_value :: "bool \<Rightarrow> TemplateParams \<Rightarrow> TemplateParams" where
  "reset_tag_value is_value p =
     (if is_value \<and> tp_multi p \<and> \<not> tp_end p
      then p\<lparr>tp_type := NONE, tp_enum := [], tp_val_help := [], tp_help := [], tp_multi := False\<rparr> else p)"

definition infer_end :: "TemplateParams \<Rightarrow> TemplateParams" where
  "infer_end p = (if tp_type p \<noteq> NONE \<and> \<not> tp_multi p then p\<lparr>tp_end := True\<rparr> else p)"

definition get_template_node :: "conf_api \<Rightarrow> string \<Rightarrow> string \<Rightarrow> TemplateParams \<Rightarrow> bool \<times> TemplateParams" where
  "get_template_node api sid path p =
     (if \<not> tmpl_validate_path api sid path then (False, p)
      else case tmpl_get api sid path of
        None \<Rightarrow> (True, p)
      | Some entries \<Rightarrow>
          (let (p1, is_value) = fold (tmpl_entry api sid path) entries (p, False);
               p2 = reset_tag_value is_value (tmpl_allowed api sid path p1)
           in (True, if entries = [] then p2 else infer_end p2)))"

lemmas template_defs = get_template_node_def reset_tag_value_def infer_end_def

section \<open>Nodes and children\<close>

definition get_operational_node :: "conf_api \<Rightarrow> string \<Rightarrow> TemplateParams \<Rightarrow> TemplateParams" where
  "get_operational_node api node_path p =
     (let cpath = (if prefix ''/'' node_path then drop 1 node_path else node_path);
          p1 = get_op_template_node api cpath p;
          children = opd_children api cpath
      in if children = [] then p1\<lparr>tp_end := True\<rparr>
         else p1\<lparr>tp_children := tp_children p1 @
           map (\<lambda>c. NodeParams_new\<lparr>np_name := (if c = ''node.tag'' then ''*'' else c), np_state := k_ACTIVE\<rparr>) children\<rparr>)"

definition get_node_params :: "conf_api \<Rightarrow> string \<Rightarrow> string \<Rightarrow> NodeParams \<Rightarrow> NodeParams" where
  "get_node_params api sid cpath node =
     (let n = node\<lparr>np_name := (case rfind_sub ''/'' cpath of Some pos \<Rightarrow> drop (pos + 1) cpath | None \<Rightarrow> cpath)\<rparr>
      in case node_get_status api sid cpath of
           NODE_STATUS_DELETED \<Rightarrow> n\<lparr>np_state := k_DELETE, np_is_changed := ''true''\<rparr>
         | NODE_STATUS_CHANGED \<Rightarrow> n\<lparr>np_state := k_ACTIVE, np_is_changed := ''true''\<rparr>
         | NODE_STATUS_ADDED \<Rightarrow> n\<lparr>np_state := k_SET, np_is_changed := ''true''\<rparr>
         | NODE_STATUS_UNCHANGED \<Rightarrow>
             n\<lparr>np_state := (if node_exists api sid RUNNING cpath then k_ACTIVE else k_NONE), np_is_changed := ''false''\<rparr>
         | NODE_STATUS_ERROR \<Rightarrow> n\<lparr>np_state := k_NONE, np_is_changed := ''false''\<rparr>)"

text \<open>\<open>esc\<close> is \<open>curl_easy_escape\<close>; a null result reads as the empty string.\<close>

definition url_escape :: "(string \<Rightarrow> string option) \<Rightarrow> string \<Rightarrow> string" where
  "url_escape esc s = (case esc s of Some r \<Rightarrow> c_str r | None \<Rightarrow> [])"

definition child_path :: "string \<Rightarrow> string \<Rightarrow> string" where
  "child_path cpath child = (if cpath = [] then child else cpath @ ''/'' @ child)"

text \<open>The loops over the values: the node parameters, the names in order and their states.\<close>

type_synonym value_acc = "NodeParams \<times> string list \<times> (string \<times> CONF_STATE) list"

definition running_value :: "conf_api \<Rightarrow> (string \<Rightarrow> string option) \<Rightarrow> string \<Rightarrow> string \<Rightarrow> string \<Rightarrow> value_acc \<Rightarrow> value_acc" where
  "running_value api esc sid cpath child = (\<lambda>(np, value_coll, state_coll).
     let np1 = get_node_params api sid (child_path cpath (url_escape esc child)) np
     in (np1, value_coll @ [child], map_insert child (np_state np1) state_coll))"

definition candidate_value :: "conf_api \<Rightarrow> (string \<Rightarrow> string option) \<Rightarrow> string \<Rightarrow> string \<Rightarrow> string \<Rightarrow> value_acc \<Rightarrow> value_acc" where
  "candidate_value api esc sid cpath child = (\<lambda>(np, value_coll, state_coll).
     if map_of state_coll child \<noteq> None then (np, value_coll, state_coll)
     else running_value api esc sid cpath child (np, value_coll, state_coll))"

definition container_child :: "conf_api \<Rightarrow> string \<Rightarrow> string \<Rightarrow> string \<Rightarrow> value_acc \<Rightarrow> value_acc" where
  "container_child api sid cpath child = (\<lambda>(np, value_coll, state_coll).
     let p = child_path cpath child;
         state = (if node_exists api sid CANDIDATE p then k_SET else k_NONE);
         state = (if node_exists api sid RUNNING p
                  then (if state \<noteq> k_SET then k_DELETE else k_ACTIVE) else state)
     in (np, value_coll @ [child], map_insert child state state_coll))"

definition collect_children ::
    "conf_api \<Rightarrow> (string \<Rightarrow> string option) \<Rightarrow> string \<Rightarrow> string \<Rightarrow> node_kind \<Rightarrow> value_acc" where
  "collect_children api esc sid cpath kind =
     (case kind of
        NODE_TYPE_CONTAINER \<Rightarrow>
          fold (container_child api sid cpath) (tmpl_get_children api sid cpath) (NodeParams_new, [], [])
      | NODE_TYPE_UNSET \<Rightarrow> (NodeParams_new, [], [])
      | _ \<Rightarrow>
          fold (candidate_value api esc sid cpath) (node_get api sid CANDIDATE cpath)
            (fold (running_value api esc sid cpath) (node_get api sid RUNNING cpath) (NodeParams_new, [], [])))"

definition parse_value_and_state ::
    "conf_api \<Rightarrow> (string \<Rightarrow> string option) \<Rightarrow> string \<Rightarrow> string \<Rightarrow> TemplateParams \<Rightarrow> TemplateParams" where
  "parse_value_and_state api esc sid cpath p =
     (let p1 = p\<lparr>tp_data := get_node_params api sid cpath (tp_data p)\<rparr>;
          (np, value_coll, state_coll) = collect_children api esc sid cpath (tp_node_type p1)
      in p1\<lparr>tp_children := tp_children p1 @
           concat (map (\<lambda>v. case map_of state_coll v of
                         Some st \<Rightarrow> [np\<lparr>np_name := v, np_state := st\<rparr>] | None \<Rightarrow> []) value_coll)\<rparr>)"

text \<open>The session number is set from the configuration id first. The node's own disabled state
  has just been set to enabled when it is compared.\<close>

definition get_configured_node ::
    "conf_api \<Rightarrow> (string \<Rightarrow> string option) \<Rightarrow> string \<Rightarrow> string \<Rightarrow> TemplateParams \<Rightarrow> bool \<times> TemplateParams" where
  "get_configured_node api esc data_path conf_id p =
     (let sid = conv_conf_id conf_id in
      case get_template_node api sid data_path p of
        (False, p1) \<Rightarrow> (False, p1)
      | (True, p1) \<Rightarrow>
          (let p2 = parse_value_and_state api esc sid data_path p1;
               p3 = p2\<lparr>tp_data := (tp_data p2)\<lparr>np_disabled_state := k_ENABLE\<rparr>\<rparr>
           in (True, p3\<lparr>tp_children := map (\<lambda>i. i\<lparr>np_disabled_state :=
                 (if np_disabled_state (tp_data p3) \<noteq> k_ENABLE then np_disabled_state (tp_data p3) else k_ENABLE)\<rparr>)
                 (tp_children p3)\<rparr>)))"

section \<open>Lemmas: children of a value node\<close>

definition node_state :: "conf_api \<Rightarrow> string \<Rightarrow> string \<Rightarrow> CONF_STATE" where
  "node_state api sid cpath =
     (case node_get_status api sid cpath of
        NODE_STATUS_DELETED \<Rightarrow> k_DELETE | NODE_STATUS_CHANGED \<Rightarrow> k_ACTIVE | NODE_STATUS_ADDED \<Rightarrow> k_SET
      | NODE_STATUS_UNCHANGED \<Rightarrow> if node_exists api sid RUNNING cpath then k_ACTIVE else k_NONE
      | NODE_STATUS_ERROR \<Rightarrow> k_NONE)"

definition node_changed :: "conf_api \<Rightarrow> string \<Rightarrow> string \<Rightarrow> string" where
  "node_changed api sid cpath =
     (if node_get_status api sid cpath \<in> {NODE_STATUS_DELETED, NODE_STATUS_CHANGED, NODE_STATUS_ADDED}
      then ''true'' else ''false'')"

lemma get_node_params_fields [simp]:
  "np_state (get_node_params api sid cpath n) = node_state api sid cpath"
  "np_is_changed (get_node_params api sid cpath n) = node_changed api sid cpath"
  "np_disabled_state (get_node_params api sid cpath n) = np_disabled_state n"
  by (simp_all add: get_node_params_def node_state_def node_changed_def Let_def split: node_status.splits)

text \<open>What the accumulator of the loops holds: the states of exactly the names collected, each
  state a function of its name.\<close>

definition acc_ok :: "(string \<Rightarrow> CONF_STATE) \<Rightarrow> string list \<Rightarrow> value_acc \<Rightarrow> bool" where
  "acc_ok st names = (\<lambda>(np, vs, sts). vs = names \<and> map_of sts = (\<lambda>v. if v \<in> set names then Some (st v) else None))"

lemma acc_ok_add:
  "acc_ok st names (np, vs, sts) \<Longrightarrow> acc_ok st (names @ [c]) (np', vs @ [c], map_insert c (st c) sts)"
  by (auto simp: acc_ok_def map_insert_get fun_eq_iff)

abbreviation value_state :: "conf_api \<Rightarrow> (string \<Rightarrow> string option) \<Rightarrow> string \<Rightarrow> string \<Rightarrow> string \<Rightarrow> CONF_STATE" where
  "value_state api esc sid cpath c \<equiv> node_state api sid (child_path cpath (url_escape esc c))"

lemma running_values:
  "acc_ok (value_state api esc sid cpath) names a \<Longrightarrow>
     acc_ok (value_state api esc sid cpath) (names @ cs) (fold (running_value api esc sid cpath) cs a)"
proof (induction cs arbitrary: names a)
  case (Cons c cs)
  obtain np vs sts where a: "a = (np, vs, sts)" by (cases a)
  have "acc_ok (value_state api esc sid cpath) (names @ [c]) (running_value api esc sid cpath c a)"
    using acc_ok_add[of "value_state api esc sid cpath" names np vs sts c] Cons.prems
    by (simp add: a running_value_def Let_def)
  from Cons.IH[OF this] show ?case by simp
qed simp

lemma candidate_values:
  assumes "acc_ok (value_state api esc sid cpath) names a" and "distinct cs"
  shows "acc_ok (value_state api esc sid cpath) (names @ filter (\<lambda>c. c \<notin> set names) cs)
    (fold (candidate_value api esc sid cpath) cs a)"
  using assms
proof (induction cs arbitrary: names a)
  case (Cons c cs)
  obtain np vs sts where a: "a = (np, vs, sts)" by (cases a)
  have dom: "map_of sts c \<noteq> None \<longleftrightarrow> c \<in> set names" using Cons.prems(1) by (simp add: a acc_ok_def)
  have c: "c \<notin> set cs" "distinct cs" using Cons.prems(2) by auto
  show ?case
  proof (cases "c \<in> set names")
    case True
    then have "candidate_value api esc sid cpath c a = a" using dom by (simp add: a candidate_value_def)
    then show ?thesis using Cons.IH[OF Cons.prems(1) c(2)] True by simp
  next
    case False
    then have "candidate_value api esc sid cpath c a = running_value api esc sid cpath c a"
      using dom by (simp add: a candidate_value_def)
    moreover have "acc_ok (value_state api esc sid cpath) (names @ [c]) (running_value api esc sid cpath c a)"
      using running_values[OF Cons.prems(1), of "[c]"] by simp
    moreover have "filter (\<lambda>x. x \<notin> set (names @ [c])) cs = filter (\<lambda>x. x \<notin> set names) cs"
      using c(1) by (intro filter_cong) auto
    ultimately show ?thesis using Cons.IH[of "names @ [c]"] c(2) False by (simp del: set_append)
  qed
qed simp

definition container_state :: "conf_api \<Rightarrow> string \<Rightarrow> string \<Rightarrow> CONF_STATE" where
  "container_state api sid p =
     (case (node_exists api sid CANDIDATE p, node_exists api sid RUNNING p) of
        (True, True) \<Rightarrow> k_ACTIVE | (True, False) \<Rightarrow> k_SET | (False, True) \<Rightarrow> k_DELETE | (False, False) \<Rightarrow> k_NONE)"

lemma container_children:
  "acc_ok (\<lambda>c. container_state api sid (child_path cpath c)) names a \<Longrightarrow>
     acc_ok (\<lambda>c. container_state api sid (child_path cpath c)) (names @ cs) (fold (container_child api sid cpath) cs a)"
proof (induction cs arbitrary: names a)
  case (Cons c cs)
  obtain np vs sts where a: "a = (np, vs, sts)" by (cases a)
  have "container_child api sid cpath c a =
      (np, vs @ [c], map_insert c (container_state api sid (child_path cpath c)) sts)"
    by (simp add: a container_child_def Let_def container_state_def)
  then have "acc_ok (\<lambda>c. container_state api sid (child_path cpath c)) (names @ [c]) (container_child api sid cpath c a)"
    using acc_ok_add Cons.prems a by metis
  from Cons.IH[OF this] show ?case by simp
qed simp

text \<open>The names and states of the children a template ends up with.\<close>

definition child_view :: "TemplateParams \<Rightarrow> (string \<times> CONF_STATE) list" where
  "child_view p = map (\<lambda>n. (np_name n, np_state n)) (tp_children p)"

lemma children_of_acc:
  assumes "acc_ok st names (np, vs, sts)"
  shows "concat (map (\<lambda>v. case map_of sts v of Some s \<Rightarrow> [np\<lparr>np_name := v, np_state := s\<rparr>] | None \<Rightarrow> []) vs) =
    map (\<lambda>v. np\<lparr>np_name := v, np_state := st v\<rparr>) names"
proof -
  have "\<And>v. v \<in> set names \<Longrightarrow> map_of sts v = Some (st v)" "vs = names"
    using assms by (simp_all add: acc_ok_def)
  then have "map (\<lambda>v. case map_of sts v of Some s \<Rightarrow> [np\<lparr>np_name := v, np_state := s\<rparr>] | None \<Rightarrow> []) vs =
      map (\<lambda>v. [np\<lparr>np_name := v, np_state := st v\<rparr>]) names" by simp
  then show ?thesis by (simp only: concat_map_singleton)
qed

lemma acc_ok_start: "acc_ok st [] (NodeParams_new, [], [])"
  by (simp add: acc_ok_def fun_eq_iff)

lemma parse_children_value:
  assumes "tp_node_type p \<in> {NODE_TYPE_LEAF, NODE_TYPE_MULTI, NODE_TYPE_TAG}"
    and "distinct (node_get api sid CANDIDATE cpath)"
  shows "child_view (parse_value_and_state api esc sid cpath p) = child_view p @
    map (\<lambda>c. (c, value_state api esc sid cpath c))
      (node_get api sid RUNNING cpath @
       filter (\<lambda>c. c \<notin> set (node_get api sid RUNNING cpath)) (node_get api sid CANDIDATE cpath))"
proof -
  let ?st = "value_state api esc sid cpath" and ?r = "node_get api sid RUNNING cpath"
  obtain np vs sts where f: "fold (candidate_value api esc sid cpath) (node_get api sid CANDIDATE cpath)
      (fold (running_value api esc sid cpath) ?r (NodeParams_new, [], [])) = (np, vs, sts)"
    by (metis prod_cases3)
  have "acc_ok ?st (?r @ filter (\<lambda>c. c \<notin> set ?r) (node_get api sid CANDIDATE cpath)) (np, vs, sts)"
    using candidate_values[OF running_values[OF acc_ok_start] assms(2)] f by (metis append_Nil)
  from children_of_acc[OF this] show ?thesis using assms(1) f
    by (auto simp: parse_value_and_state_def collect_children_def child_view_def)
qed

lemma parse_children_container:
  assumes "tp_node_type p = NODE_TYPE_CONTAINER"
  shows "child_view (parse_value_and_state api esc sid cpath p) = child_view p @
    map (\<lambda>c. (c, container_state api sid (child_path cpath c))) (tmpl_get_children api sid cpath)"
proof -
  obtain np vs sts where f: "fold (container_child api sid cpath) (tmpl_get_children api sid cpath) (NodeParams_new, [], []) = (np, vs, sts)"
    by (metis prod_cases3)
  have "acc_ok (\<lambda>c. container_state api sid (child_path cpath c)) (tmpl_get_children api sid cpath) (np, vs, sts)"
    using container_children[OF acc_ok_start] f by (metis append_Nil)
  from children_of_acc[OF this] show ?thesis using assms f
    by (auto simp: parse_value_and_state_def collect_children_def child_view_def)
qed

lemma get_configured_children:
  assumes "get_configured_node api esc path conf_id p = (True, q)"
    and "get_template_node api (conv_conf_id conf_id) path p = (True, p1)"
  shows "child_view q = child_view (parse_value_and_state api esc (conv_conf_id conf_id) path p1)"
  using assms by (auto simp: get_configured_node_def Let_def child_view_def comp_def)

lemma tmpl_key_children:
  "tmpl_key k v pv = Some pv' \<Longrightarrow> tp_children (fst pv') = tp_children (fst pv) \<and> tp_data (fst pv') = tp_data (fst pv)"
  by (cases pv) (auto simp: tmpl_key_def Let_def split: if_splits)

lemma tmpl_entry_children: "tp_children (fst (tmpl_entry api sid path e pv)) = tp_children (fst pv)"
  using tmpl_key_children[of _ _ pv] by (auto simp: tmpl_entry_def split: option.splits prod.splits)

lemma tmpl_entries_children: "tp_children (fst (fold (tmpl_entry api sid path) es pv)) = tp_children (fst pv)"
  by (induction es arbitrary: pv) (auto simp: tmpl_entry_children)

lemma template_children:
  assumes "get_template_node api sid path p = (True, p1)"
  shows "tp_children p1 = tp_children p"
  using assms tmpl_entries_children[of api sid path _ "(p, False)"]
  by (auto simp: template_defs tmpl_allowed_def Let_def split: if_splits option.splits prod.splits)
    (metis fst_conv)+

lemma template_kind:
  assumes "get_template_node api sid path p = (True, p1)" and "tmpl_get api sid path \<noteq> None"
  shows "tp_node_type p1 = node_get_type api sid path"
  using assms
  by (auto simp: template_defs tmpl_allowed_def Let_def split: if_splits option.splits prod.splits)

section \<open>Lemmas: texts of a template\<close>

lemma clean_help_set: "NL \<notin> set (clean_help v) \<and> QUOTE \<notin> set (clean_help v)"
  by (auto simp: clean_help_def replace_all_single split: if_splits)

definition help_ok :: "TemplateParams \<Rightarrow> bool" where
  "help_ok p \<longleftrightarrow> NL \<notin> set (tp_help p) \<and> QUOTE \<notin> set (tp_help p) \<and>
     sorted (tp_enum p) \<and> distinct (tp_enum p) \<and> sorted (tp_val_help p) \<and> distinct (tp_val_help p)"

lemma insort_fold_ok: "sorted xs \<and> distinct xs \<Longrightarrow> sorted (fold (\<lambda>v. insort_insert (f v)) vs xs) \<and> distinct (fold (\<lambda>v. insort_insert (f v)) vs xs)"
  by (induction vs arbitrary: xs) (auto simp: sorted_insort_insert distinct_insort_insert)

lemma syntax_loop_ok: "sorted en \<and> distinct en \<Longrightarrow> sorted (syntax_loop bs en) \<and> distinct (syntax_loop bs en)"
  by (induction bs en rule: syntax_loop.induct)
    (auto simp: sorted_insort_insert distinct_insort_insert split: prod.splits)

lemma tmpl_key_help:
  "help_ok (fst pv) \<Longrightarrow> tmpl_key k v pv = Some pv' \<Longrightarrow> help_ok (fst pv')"
  using insort_fold_ok[of "tp_val_help (fst pv)" "\<lambda>v. v"] syntax_loop_ok[of "tp_enum (fst pv)"] clean_help_set[of v]
  by (cases pv) (auto simp: tmpl_key_def help_ok_def Let_def syntax_enum_def split: if_splits)

lemma help_ok_end [simp]: "help_ok (p\<lparr>tp_end := b\<rparr>) = help_ok p"
  by (simp add: help_ok_def)

lemma tmpl_entry_help: "help_ok (fst pv) \<Longrightarrow> help_ok (fst (tmpl_entry api sid path e pv))"
  using tmpl_key_help[of pv] by (auto simp: tmpl_entry_def split: option.splits prod.splits)

lemma tmpl_entries_help: "help_ok (fst pv) \<Longrightarrow> help_ok (fst (fold (tmpl_entry api sid path) es pv))"
  by (induction es arbitrary: pv) (auto simp: tmpl_entry_help)

lemma tmpl_allowed_help: "help_ok p \<Longrightarrow> help_ok (tmpl_allowed api sid path p)"
  using insort_fold_ok[of "tp_enum p" "\<lambda>v. mass_replace v [BSLASH, CHR ''<'', BSLASH, CHR ''>''] ''*''"]
  by (auto simp: tmpl_allowed_def help_ok_def Let_def)

lemma get_template_help: "help_ok p \<Longrightarrow> get_template_node api sid path p = (b, q) \<Longrightarrow> help_ok q"
proof -
  assume p: "help_ok p" and q: "get_template_node api sid path p = (b, q)"
  have "help_ok (tmpl_allowed api sid path (fst (fold (tmpl_entry api sid path) es (p, False))))" for es
    using tmpl_entries_help[of "(p, False)"] p by (intro tmpl_allowed_help) simp
  then have r: "help_ok (tmpl_allowed api sid path p1)" if "fold (tmpl_entry api sid path) es (p, False) = (p1, v)" for es p1 v
    using that by (metis fst_conv)
  have clear: "help_ok r \<Longrightarrow> help_ok (r\<lparr>tp_type := NONE, tp_enum := [], tp_val_help := [], tp_help := [], tp_multi := False\<rparr>)" for r
    by (simp add: help_ok_def)
  show ?thesis using p q r r[of "[]"] clear
    by (auto simp: template_defs Let_def split: if_splits option.splits prod.splits)
qed

section \<open>Lemmas: the changed flag of children\<close>

lemma parse_children_changed:
  "\<exists>ch. \<forall>n \<in> set (drop (length (tp_children p)) (tp_children (parse_value_and_state api esc sid cpath p))).
     np_is_changed n = ch"
proof -
  have all: "\<forall>n \<in> set (concat (map (\<lambda>v. case map_of sts v of Some st \<Rightarrow> [np\<lparr>np_name := v, np_state := st\<rparr>] | None \<Rightarrow> []) vs)).
      np_is_changed n = np_is_changed np" for np :: NodeParams and vs sts
    by (auto split: option.splits)
  obtain np vs sts where "collect_children api esc sid cpath (tp_node_type p) = (np, vs, sts)"
    by (metis prod_cases3)
  then have eq: "drop (length (tp_children p)) (tp_children (parse_value_and_state api esc sid cpath p)) =
      concat (map (\<lambda>v. case map_of sts v of Some st \<Rightarrow> [np\<lparr>np_name := v, np_state := st\<rparr>] | None \<Rightarrow> []) vs)"
    by (simp add: parse_value_and_state_def Let_def)
  show ?thesis unfolding eq using all by blast
qed

section \<open>Properties\<close>

text \<open>C24: The children reported for a leaf, multi or tag node are the values of the running
  configuration followed by those only the candidate has, each with the state its own
  status gives it.\<close>

theorem configured_values:
  assumes "get_configured_node api esc path conf_id TemplateParams_new = (True, q)"
    and "tmpl_get api (conv_conf_id conf_id) path \<noteq> None"
    and "node_get_type api (conv_conf_id conf_id) path \<in> {NODE_TYPE_LEAF, NODE_TYPE_MULTI, NODE_TYPE_TAG}"
    and "distinct (node_get api (conv_conf_id conf_id) CANDIDATE path)"
  shows "child_view q =
    map (\<lambda>c. (c, node_state api (conv_conf_id conf_id) (child_path path (url_escape esc c))))
      (node_get api (conv_conf_id conf_id) RUNNING path @
       filter (\<lambda>c. c \<notin> set (node_get api (conv_conf_id conf_id) RUNNING path))
         (node_get api (conv_conf_id conf_id) CANDIDATE path))"
proof -
  let ?sid = "conv_conf_id conf_id"
  obtain p1 where p1: "get_template_node api ?sid path TemplateParams_new = (True, p1)"
    using assms(1) by (auto simp: get_configured_node_def Let_def split: prod.splits bool.splits)
  have "tp_node_type p1 = node_get_type api ?sid path" using template_kind[OF p1 assms(2)] .
  moreover have "child_view p1 = []" using template_children[OF p1] by (simp add: child_view_def TemplateParams_new_def)
  ultimately show ?thesis
    using get_configured_children[OF assms(1) p1] parse_children_value[of p1 api ?sid path esc] assms(3,4) by auto
qed

definition example_api :: conf_api where
  "example_api = \<lparr>tmpl_validate_path = (\<lambda>s p. True), tmpl_get = (\<lambda>s p. Some [''help=Address'', ''type=ipv4'']),
     tmpl_get_children = (\<lambda>s p. [''address'', ''mtu'']), tmpl_get_allowed = (\<lambda>s p. []), node_get_type = (\<lambda>s p. NODE_TYPE_MULTI),
     node_get_status = (\<lambda>s p. if p = ''a/2'' then NODE_STATUS_ADDED else NODE_STATUS_UNCHANGED),
     node_exists = (\<lambda>s d p. True), node_get = (\<lambda>s d p. if d = RUNNING then [''1''] else [''1'', ''2'']),
     opd_tmpl = (\<lambda>p. None), opd_allowed = (\<lambda>p. []), opd_children = (\<lambda>p. [])\<rparr>"

theorem configured_values_witness:
  "child_view (snd (get_configured_node example_api Some ''a'' ''1'' TemplateParams_new)) =
     [(''1'', k_ACTIVE), (''2'', k_SET)]"
proof -
  have t: "fst (get_configured_node example_api Some ''a'' ''1'' TemplateParams_new)"
    by (simp add: get_configured_node_def template_defs example_api_def Let_def split: prod.splits)
  then have "get_configured_node example_api Some ''a'' ''1'' TemplateParams_new =
      (True, snd (get_configured_node example_api Some ''a'' ''1'' TemplateParams_new))" by (simp add: prod_eq_iff)
  from configured_values[OF this] show ?thesis
    by (simp add: example_api_def child_path_def url_escape_def node_state_def)
qed

text \<open>The children reported for a container are the template's children in order, a child being
  active when both configurations have it, set when only the candidate has it, deleted
  when only the running one has it.\<close>

theorem configured_container:
  assumes "get_configured_node api esc path conf_id TemplateParams_new = (True, q)"
    and "tmpl_get api (conv_conf_id conf_id) path \<noteq> None"
    and "node_get_type api (conv_conf_id conf_id) path = NODE_TYPE_CONTAINER"
  shows "child_view q = map (\<lambda>c. (c,
      case (node_exists api (conv_conf_id conf_id) CANDIDATE (child_path path c),
            node_exists api (conv_conf_id conf_id) RUNNING (child_path path c)) of
        (True, True) \<Rightarrow> k_ACTIVE | (True, False) \<Rightarrow> k_SET | (False, True) \<Rightarrow> k_DELETE | (False, False) \<Rightarrow> k_NONE))
    (tmpl_get_children api (conv_conf_id conf_id) path)"
proof -
  let ?sid = "conv_conf_id conf_id"
  obtain p1 where p1: "get_template_node api ?sid path TemplateParams_new = (True, p1)"
    using assms(1) by (auto simp: get_configured_node_def Let_def split: prod.splits bool.splits)
  have "tp_node_type p1 = NODE_TYPE_CONTAINER" using template_kind[OF p1 assms(2)] assms(3) by simp
  moreover have "child_view p1 = []" using template_children[OF p1] by (simp add: child_view_def TemplateParams_new_def)
  ultimately show ?thesis
    using get_configured_children[OF assms(1) p1] parse_children_container[of p1 api esc ?sid path]
    by (simp add: container_state_def)
qed

theorem configured_container_witness:
  "child_view (snd (get_configured_node (example_api\<lparr>node_get_type := \<lambda>s p. NODE_TYPE_CONTAINER\<rparr>) Some ''a'' ''1'' TemplateParams_new)) =
     [(''address'', k_ACTIVE), (''mtu'', k_ACTIVE)]"
proof -
  let ?api = "example_api\<lparr>node_get_type := \<lambda>s p. NODE_TYPE_CONTAINER\<rparr>"
  have t: "fst (get_configured_node ?api Some ''a'' ''1'' TemplateParams_new)"
    by (simp add: get_configured_node_def template_defs example_api_def Let_def split: prod.splits)
  then have "get_configured_node ?api Some ''a'' ''1'' TemplateParams_new =
      (True, snd (get_configured_node ?api Some ''a'' ''1'' TemplateParams_new))" by (simp add: prod_eq_iff)
  from configured_container[OF this] show ?thesis by (simp add: example_api_def)
qed

text \<open>All children reported for one node carry the same changed flag, whatever their own
  statuses are: the flag is that of the last child examined.\<close>

theorem children_share_changed_flag:
  "\<exists>ch. list_all (\<lambda>n. np_is_changed n = ch)
     (drop (length (tp_children p)) (tp_children (parse_value_and_state api esc sid cpath p)))"
  using parse_children_changed[of p api esc sid cpath] by (simp add: list_all_iff)

text \<open>The help text of a template never contains a newline or a double quote, and its
  enumerations are ordered and free of duplicates, whatever entries the daemon sends.\<close>

theorem template_texts_clean:
  "case get_template_node api sid path TemplateParams_new of (b, q) \<Rightarrow>
     NL \<notin> set (tp_help q) \<and> QUOTE \<notin> set (tp_help q) \<and> sorted (tp_enum q) \<and> distinct (tp_enum q) \<and>
     sorted (tp_val_help q) \<and> distinct (tp_val_help q)"
proof -
  have "help_ok TemplateParams_new" by (simp add: help_ok_def TemplateParams_new_def)
  then show ?thesis using get_template_help[of TemplateParams_new api sid path]
    by (cases "get_template_node api sid path TemplateParams_new") (auto simp: help_ok_def)
qed

end
