(* ===== verification/Simple_Modes.thy ===== *)
theory Simple_Modes
  imports Mode_Base Configuration
begin

text \<open>
  \<open>appmode.cc\<close>, \<open>servicemode.cc\<close> and \<open>permissions.cc\<close>: the request modes that run one script or
  one query per request. The shell, the file operations, \<open>stat\<close>, the daemons and the JSON
  printer of the permission answer are parameters.
\<close>

section \<open>Environment\<close>

text \<open>The permission maps of the two daemons are None when the connection fails. The
  configuration daemon may answer the questions of one request differently as time passes:
  \<open>me_api e k\<close> holds its answers at the \<open>k\<close>-th of them.\<close>

record mode_env =
  me_debug :: bool
  me_shell :: shell
  me_write :: write_outcome
  me_append :: write_outcome
  me_stat :: "string \<Rightarrow> bool"
  me_api :: "nat \<Rightarrow> conf_api"
  me_conf_perms :: "string list option"
  me_op_perms :: "string list option"

text \<open>Writing the request body to the input file of the scripts.\<close>

definition write_input :: "write_outcome \<Rightarrow> string \<Rightarrow> world \<Rightarrow> bool \<times> world" where
  "write_input wr json w =
     (case wr of W_no_open \<Rightarrow> (False, w)
      | W_fail part \<Rightarrow> (False, w\<lparr>w_files := (w_files w)(JSON_INPUT \<mapsto> part)\<rparr>)
      | W_ok \<Rightarrow> (True, w\<lparr>w_files := (w_files w)(JSON_INPUT \<mapsto> json)\<rparr>))"

definition remove_input :: "bool \<Rightarrow> world \<Rightarrow> world" where
  "remove_input debug w = (if debug then w else w\<lparr>w_files := (w_files w)(JSON_INPUT := None)\<rparr>)"

definition trace_input :: "bool \<Rightarrow> write_outcome \<Rightarrow> string \<Rightarrow> world \<Rightarrow> world" where
  "trace_input debug wr cmd w =
     (if debug then w\<lparr>w_files := append_file wr (w_files w) JSON_INPUT (''XE: '' @ [APOS] @ c_str cmd @ [APOS, NL])\<rparr>
      else w)"

section \<open>\<open>AppMode\<close>\<close>

definition app_environment :: "Session \<Rightarrow> string" where
  "app_environment s =
     ''export REQUEST_METHOD='' @ req_get s HTTP_REQ_METHOD @ '';''
     @ ''export COMMIT_VIA=gui2_app;''
     @ (if session_key s = [] then [] else ''export SESSION='' @ session_key s @ '';'')
     @ (if s_user s = [] then [] else ''export USERNAME='' @ s_user s @ '';'')"

definition appmodecmd :: "Session \<Rightarrow> string \<Rightarrow> string" where
  "appmodecmd s command =
     ''/bin/bash -p -c '' @ [APOS] @ app_environment s
     @ ''umask 000; source /usr/lib/cgi-bin/vyatta-app;_vyatta_app_run '' @ command @ '' < '' @ JSON_INPUT @ [APOS]"

definition app_process :: "mode_env \<Rightarrow> Session \<Rightarrow> world \<Rightarrow> (Session \<times> world) res" where
  "app_process e s0 w =
     (let s = vyatta_debug ''XC'' s0 in
      if auth_type s = AUTH_TYPE_NONE then Inr (Error AUTHORIZATION_FAILURE s, w)
      else let path = req_get s HTTP_REQ_URI in
      if path = [] then Inr (Error VALIDATION_FAILURE s, w)
      else bind_res (substr path (length APP_REQ_ROOT) None) (\<lambda>command.
        if command = [] then Inr (Error VALIDATION_FAILURE s, w)
        else case write_input (me_write e) (req_get s HTTP_BODY) w of
          (False, w1) \<Rightarrow> Inr (Error SERVER_ERROR s, w1)
        | (True, w1) \<Rightarrow>
            (let cmd = appmodecmd s command;
                 (err, out, w2) = system_out (me_shell e) cmd [] w1;
                 s1 = (if err \<noteq> 0 then Error APPMODE_SCRIPT_ERROR s else s);
                 w3 = remove_input (me_debug e) w2;
                 s2 = handle_cmd_output out s1;
                 s3 = vyatta_debug (''XE:'' @ cmd) s2
             in Inr (s3, trace_input (me_debug e) (me_append e) cmd w3))))"

section \<open>\<open>ServiceMode\<close>\<close>

definition service_item :: "string \<Rightarrow> string \<Rightarrow> string" where
  "service_item name help =
     [CHR ''{'', QUOTE] @ ''id'' @ [QUOTE, CHR '':'', QUOTE] @ name @ [QUOTE, CHR '','', QUOTE] @ ''description''
     @ [QUOTE, CHR '':'', QUOTE] @ help @ [QUOTE, CHR ''}'']"

text \<open>The iterator stands still when the template of a child cannot be read, so the next turn asks
  for the same child again. The loop need not end, and None is its not returning. The question
  number counts the turns; the session number has not been set (the empty string).\<close>

partial_function (option) service_loop :: "(nat \<Rightarrow> conf_api) \<Rightarrow> nat \<Rightarrow> NodeParams list \<Rightarrow> JSON \<Rightarrow> JSON option" where
  "service_loop api k is json =
     (case is of [] \<Rightarrow> Some json
      | i # js \<Rightarrow>
          (case get_template_node (api k) [] (SERVICE_COMMAND_DIR @ ''/'' @ np_name i) TemplateParams_new of
             (found, p) \<Rightarrow>
               if \<not> found then service_loop api (Suc k) is json
               else service_loop api (Suc k) js
                 (add_array ''services'' (service_item (np_name i) (tp_help p)) True json)))"

definition service_index :: "mode_env \<Rightarrow> Session \<Rightarrow> Session res" where
  "service_index e s =
     (let params = get_operational_node (me_api e 0) SERVICE_COMMAND_DIR TemplateParams_new
      in case service_loop (me_api e) 1 (tp_children params) json_new of
           None \<Rightarrow> Inl Hangs
         | Some json \<Rightarrow> Inr (on_response (http_set HTTP_BODY (json_serialize [] json)) s))"

definition service_environment :: "Session \<Rightarrow> string" where
  "service_environment s =
     ''export REQUEST_METHOD='' @ req_get s HTTP_REQ_METHOD @ '';''
     @ (if session_key s = [] then [] else ''export SESSION='' @ session_key s @ '';'')
     @ (if s_user s = [] then [] else ''export VYATTA_SESSION_USERNAME='' @ s_user s @ '';'')
     @ ''export VYATTA_ACCESS_LEVEL=service-user;''"

definition servicecmd :: "Session \<Rightarrow> string \<Rightarrow> string" where
  "servicecmd s command =
     ''/bin/bash -p -c '' @ [APOS] @ service_environment s
     @ ''umask 000; source /usr/lib/cgi-bin/vyatta-service;_vyatta_service_run '' @ command @ '' < '' @ JSON_INPUT @ [APOS]"

definition execute_service :: "mode_env \<Rightarrow> Session \<Rightarrow> string \<Rightarrow> world \<Rightarrow> (Session \<times> world) res" where
  "execute_service e s path w =
     bind_res (substr path (length SERVICE_REQ_ROOT) None) (\<lambda>command.
       if command = [] then Inr (Error VALIDATION_FAILURE s, w)
       else case write_input (me_write e) (req_get s HTTP_BODY) w of
         (False, w1) \<Rightarrow> Inr (Error SERVER_ERROR s, w1)
       | (True, w1) \<Rightarrow>
           (let cmd = servicecmd s command;
                (err, out, w2) = system_out (me_shell e) cmd [] w1;
                s1 = (if err \<noteq> 0 then Error SERVICEMODE_SCRIPT_ERROR s else s);
                w3 = remove_input (me_debug e) w2
            in Inr (handle_cmd_output out s1, trace_input (me_debug e) (me_append e) cmd w3)))"

fun validate_loop :: "(string \<Rightarrow> bool) \<Rightarrow> string list \<Rightarrow> string \<Rightarrow> string" where
  "validate_loop st [] path = path"
| "validate_loop st (c # cs) path =
     (if st (path @ ''/'' @ c) then validate_loop st cs (path @ ''/'' @ c)
      else if st (path @ ''/node.tag'') then validate_loop st cs (path @ ''/node.tag'')
      else [])"

definition validate_service_cmd :: "(string \<Rightarrow> bool) \<Rightarrow> string \<Rightarrow> string" where
  "validate_service_cmd st cmd =
     (if length cmd \<le> length SERVICE_REQ_ROOT then []
      else validate_loop st (str_coll (drop (length SERVICE_REQ_ROOT) cmd) ''/'') SERVICE_COMMAND_DIR)"

definition service_process :: "mode_env \<Rightarrow> Session \<Rightarrow> world \<Rightarrow> (Session \<times> world) res" where
  "service_process e s w =
     (if auth_type s = AUTH_TYPE_NONE then Inr (Error AUTHORIZATION_FAILURE s, w)
      else let path = req_get s HTTP_REQ_URI; meth = req_get s HTTP_REQ_METHOD in
      if path = [] then Inr (Error VALIDATION_FAILURE s, w)
      else if meth = ''GET'' \<and> path = SERVICE_REQ_ROOT
        then bind_res (service_index e s) (\<lambda>s1. Inr (s1, w))
      else if meth = ''GET'' \<and> validate_service_cmd (me_stat e) path \<noteq> [] then execute_service e s path w
      else Inr (Error VALIDATION_FAILURE s, w))"

section \<open>\<open>Permissions\<close>\<close>

text \<open>\<open>atoi\<close>: the \<open>long\<close> of \<open>strtol\<close> cut to an \<open>int\<close>.\<close>

definition atoi :: "string \<Rightarrow> int" where
  "atoi s = sint (of_int (strtol10 s) :: 32 word)"

record perm_rule =
  pr_rule :: int
  pr_path :: string
  pr_perms :: int

definition perm_entry :: "string \<Rightarrow> perm_rule option res" where
  "perm_entry entry =
     (case find_sub ''='' entry of None \<Rightarrow> Inr None
      | Some pos \<Rightarrow>
          (let key = take pos entry; perm = drop (pos + 1) entry in
           if key = ''DEFAULT''
           then Inr (Some \<lparr>pr_rule = atoi ''10000'', pr_path = key, pr_perms = atoi perm\<rparr>)
           else case find_sub '':'' key of None \<Rightarrow> Inr None
             | Some p \<Rightarrow>
                 bind_res (substr key (p + 2) (Some (length entry - p + 1))) (\<lambda>path.
                   Inr (Some \<lparr>pr_rule = atoi (take p key), pr_path = path, pr_perms = atoi perm\<rparr>))))"

fun maptojson :: "string list \<Rightarrow> perm_rule list res" where
  "maptojson [] = Inr []"
| "maptojson (entry # es) =
     bind_res (perm_entry entry) (\<lambda>r.
       bind_res (maptojson es) (\<lambda>rs. Inr (case r of None \<Rightarrow> rs | Some x \<Rightarrow> x # rs)))"

text \<open>The object that is printed: a member for each daemon that could be reached.\<close>

definition perm_object :: "mode_env \<Rightarrow> (string \<times> perm_rule list) list res" where
  "perm_object e =
     bind_res (case me_conf_perms e of None \<Rightarrow> Inr [] | Some m \<Rightarrow> bind_res (maptojson m) (\<lambda>a. Inr [(''conf'', a)])) (\<lambda>c.
     bind_res (case me_op_perms e of None \<Rightarrow> Inr [] | Some m \<Rightarrow> bind_res (maptojson m) (\<lambda>a. Inr [(''op'', a)])) (\<lambda>d.
       Inr (c @ d)))"

text \<open>\<open>dumps\<close> is the printer of the JSON library; a null result is turned into a string.\<close>

definition perm_process ::
    "((string \<times> perm_rule list) list \<Rightarrow> string option) \<Rightarrow> mode_env \<Rightarrow> Session \<Rightarrow> world \<Rightarrow> (Session \<times> world) res" where
  "perm_process dumps e s w =
     (if auth_type s = AUTH_TYPE_NONE then Inr (Error AUTHORIZATION_FAILURE s, w)
      else let path = req_get s HTTP_REQ_URI in
      if path = [] then Inr (Error VALIDATION_FAILURE (vyatta_debug ''perm:1'' s), w)
      else if length path < length PERM_REQ_ROOT then Inr (Error VALIDATION_FAILURE s, w)
      else if req_get s HTTP_REQ_METHOD = ''GET'' then
        bind_res (perm_object e) (\<lambda>obj.
          case dumps obj of None \<Rightarrow> Inl NullString
          | Some buf \<Rightarrow> Inr (on_response (http_set HTTP_BODY (c_str buf)) s, w))
      else Inr (Error VALIDATION_FAILURE s, w))"

section \<open>The modes keep the contract\<close>

lemma keeps_error [simp]: "wf_session s \<Longrightarrow> wf_session (Error t s)"
  by simp

lemma app_keeps: "app_process e s w = Inr (t, w') \<Longrightarrow> same_identity s t \<and> (wf_session s \<longrightarrow> wf_session t)"
  using handle_cmd_output_keeps
  by (auto simp: app_process_def Let_def bind_res_Inr_iff split: if_splits prod.splits bool.splits
      intro: same_identity_trans) (fastforce intro: same_identity_trans simp: same_identity_def)+

lemma execute_keeps: "execute_service e s path w = Inr (t, w') \<Longrightarrow> same_identity s t \<and> (wf_session s \<longrightarrow> wf_session t)"
  using handle_cmd_output_keeps
  by (auto simp: execute_service_def Let_def bind_res_Inr_iff split: if_splits prod.splits bool.splits)
    (fastforce simp: same_identity_def)+

lemma service_keeps: "service_process e s w = Inr (t, w') \<Longrightarrow> same_identity s t \<and> (wf_session s \<longrightarrow> wf_session t)"
  using execute_keeps
  by (auto simp: service_process_def service_index_def Let_def bind_res_Inr_iff split: if_splits option.splits)

lemma perm_keeps: "perm_process dumps e s w = Inr (t, w') \<Longrightarrow> same_identity s t \<and> (wf_session s \<longrightarrow> wf_session t)"
  by (auto simp: perm_process_def Let_def bind_res_Inr_iff split: if_splits option.splits)

lemma Error_401 [simp]: "http_get (response (Error AUTHORIZATION_FAILURE s)) HTTP_RESP_CODE = ''401''"
  by simp

interpretation app: mode_handler "app_process e" for e
proof (unfold_locales, goal_cases)
  case (1 s w)
  then show ?case by (simp add: app_process_def Let_def)
next
  case (2 s w t w')
  then show ?case by (rule app_keeps)
qed

interpretation service: mode_handler "service_process e" for e
proof (unfold_locales, goal_cases)
  case (1 s w)
  then show ?case by (simp add: service_process_def Let_def)
next
  case (2 s w t w')
  then show ?case by (rule service_keeps)
qed

interpretation perm: mode_handler "perm_process dumps e" for dumps e
proof (unfold_locales, goal_cases)
  case (1 s w)
  then show ?case by (simp add: perm_process_def Let_def)
next
  case (2 s w t w')
  then show ?case by (rule perm_keeps)
qed

section \<open>Lemmas\<close>

text \<open>Whether the template of a listed service can be read, and the entry it then gives.\<close>

definition service_readable :: "conf_api \<Rightarrow> NodeParams \<Rightarrow> bool" where
  "service_readable api i \<longleftrightarrow> tmpl_validate_path api [] (SERVICE_COMMAND_DIR @ ''/'' @ np_name i)"

definition service_entry :: "conf_api \<Rightarrow> NodeParams \<Rightarrow> string" where
  "service_entry api i =
     service_item (np_name i)
       (tp_help (snd (get_template_node api [] (SERVICE_COMMAND_DIR @ ''/'' @ np_name i) TemplateParams_new)))"

lemma service_readable_fst:
  "service_readable api i \<longleftrightarrow>
     fst (get_template_node api [] (SERVICE_COMMAND_DIR @ ''/'' @ np_name i) TemplateParams_new)"
  by (auto simp: service_readable_def template_defs Let_def split: option.splits prod.splits)

lemma service_loop_Nil [simp]: "service_loop api k [] json = Some json"
  by (simp add: service_loop.simps)

lemma service_loop_Cons:
  "service_loop api k (i # js) json =
     (if service_readable (api k) i
      then service_loop api (Suc k) js (add_array ''services'' (service_entry (api k) i) True json)
      else service_loop api (Suc k) (i # js) json)"
  by (subst service_loop.simps) (auto simp: service_readable_fst service_entry_def split: prod.split)

text \<open>As long as the template cannot be read the loop asks again and nothing else changes.\<close>

lemma service_loop_repeats:
  "(\<And>j. k \<le> j \<Longrightarrow> j < k + n \<Longrightarrow> \<not> service_readable (api j) i) \<Longrightarrow>
   service_loop api k (i # js) json = service_loop api (k + n) (i # js) json"
proof (induction n)
  case (Suc n)
  then show ?case using service_loop_Cons[of api "k + n" i js json] by simp
qed simp

lemma service_loop_returns:
  "sorted_wrt (<) ks \<Longrightarrow> \<forall>m \<in> set ks. k \<le> m \<Longrightarrow> list_all2 (\<lambda>m. service_readable (api m)) ks is \<Longrightarrow>
   \<exists>j. service_loop api k is json = Some j"
proof (induction "is" arbitrary: k ks json)
  case (Cons i js)
  then obtain m ms where ks: "ks = m # ms" and m: "service_readable (api m) i" "k \<le> m"
    by (auto simp: list_all2_Cons2)
  define n where "n = (LEAST n. service_readable (api (k + n)) i)"
  have n: "service_readable (api (k + n)) i" "n \<le> m - k"
    unfolding n_def using m LeastI[of "\<lambda>n. service_readable (api (k + n)) i" "m - k"] by (auto intro: Least_le)
  have least: "\<not> service_readable (api j) i" if "k \<le> j" "j < k + n" for j
    using not_less_Least[of "j - k" "\<lambda>n. service_readable (api (k + n)) i"] that unfolding n_def by simp
  have "\<forall>x \<in> set ms. Suc (k + n) \<le> x" using Cons.prems(1) ks n(2) m(2) by fastforce
  then show ?case
    using Cons.IH[of ms "Suc (k + n)"] Cons.prems ks n(1)
      service_loop_repeats[OF least, where js = js and json = json] service_loop_Cons[of api "k + n" i js json]
    by simp
qed simp

lemma service_loop_read:
  assumes ret: "service_loop api k is json = Some j"
  shows "\<exists>ks. sorted_wrt (<) ks \<and> (\<forall>m \<in> set ks. k \<le> m) \<and> list_all2 (\<lambda>m. service_readable (api m)) ks is"
proof (rule service_loop.raw_induct[where P = "\<lambda>api k is json j. \<exists>ks. sorted_wrt (<) ks \<and> (\<forall>m \<in> set ks. k \<le> m) \<and>
    list_all2 (\<lambda>m. service_readable (api m)) ks is", OF _ ret], goal_cases)
  case (1 f api k "is" json j)
  show ?case
  proof (cases "is")
    case (Cons i js)
    let ?g = "get_template_node (api k) [] (SERVICE_COMMAND_DIR @ ''/'' @ np_name i) TemplateParams_new"
    show ?thesis
    proof (cases "fst ?g")
      case True
      then obtain json' where "f api (Suc k) js json' = Some j"
        using 1(2) Cons by (auto split: prod.splits)
      then obtain ks where ks: "sorted_wrt (<) ks" "\<forall>m \<in> set ks. Suc k \<le> m" "list_all2 (\<lambda>m. service_readable (api m)) ks js"
        using 1(1) by blast
      then show ?thesis using True Cons
        by (intro exI[of _ "k # ks"]) (auto simp: service_readable_fst)
    next
      case False
      then have "f api (Suc k) is json = Some j" using 1(2) Cons by (auto split: prod.splits)
      then show ?thesis using 1(1) Suc_leD by meson
    qed
  qed simp
qed

lemma service_loop_constant:
  "list_all (service_readable a) is \<Longrightarrow>
   service_loop (\<lambda>_. a) k is json = Some (fold (\<lambda>i. add_array ''services'' (service_entry a i) True) is json)"
  by (induction "is" arbitrary: k json) (auto simp: service_loop_Cons)

lemma write_input_ok: "write_input wr json w = (True, w1) \<Longrightarrow> wr = W_ok \<and> w1 = w\<lparr>w_files := (w_files w)(JSON_INPUT \<mapsto> json)\<rparr>"
  by (cases wr) (auto simp: write_input_def)

text \<open>The entries the parser accepts, the ones it skips and the ones on which it throws.\<close>

definition perm_key :: "string \<Rightarrow> string option" where
  "perm_key entry = map_option (\<lambda>pos. take pos entry) (find_sub ''='' entry)"

lemma perm_entry_throws:
  "perm_entry entry = Inl f \<longleftrightarrow> f = OutOfRange \<and>
     (\<exists>k p. perm_key entry = Some k \<and> k \<noteq> ''DEFAULT'' \<and> find_sub '':'' k = Some p \<and> p + 1 = length k)"
  by (cases "find_sub ''='' entry"; auto simp: perm_entry_def perm_key_def Let_def substr_def
      split: option.splits if_splits dest!: find_sub_Some_bound)

lemma maptojson_throws: "(\<exists>f. maptojson es = Inl f) \<longleftrightarrow> (\<exists>e \<in> set es. \<exists>f. perm_entry e = Inl f)"
proof (induction es)
  case (Cons e es)
  then show ?case by (cases "perm_entry e"; cases "maptojson es") auto
qed simp

lemma maptojson_ok: "maptojson es = Inr rs \<Longrightarrow>
    rs = concat (map (\<lambda>e. case perm_entry e of Inr (Some r) \<Rightarrow> [r] | _ \<Rightarrow> []) es)"
proof (induction es arbitrary: rs)
  case (Cons e es)
  then show ?case by (auto simp: bind_res_Inr_iff split: option.splits sum.splits)
qed simp

lemma maptojson_only_range: "maptojson es = Inl f \<Longrightarrow> f = OutOfRange"
proof (induction es)
  case (Cons e es)
  then show ?case by (cases "perm_entry e"; cases "maptojson es") (auto simp: perm_entry_throws)
qed simp

section \<open>Properties\<close>

text \<open>C34: An authenticated application request whose input file can be written runs exactly one
  shell command, made of the session's identity and the rest of the path, answers 400
  exactly when the script fails and keeps the former status otherwise, and outside debug
  mode leaves no input file behind.\<close>

theorem app_request_runs_script:
  assumes "auth_type s \<noteq> AUTH_TYPE_NONE" and "req_get s HTTP_REQ_URI = APP_REQ_ROOT @ command" and "command \<noteq> []"
    and "me_write e = W_ok" and "\<not> me_debug e"
    and "me_shell e (c_str (appmodecmd s command)) = Some (evs, status)"
  shows "\<exists>t. app_process e s w = Inr (t, w\<lparr>w_files := (w_files w)(JSON_INPUT := None),
      w_cmds := w_cmds w @ [c_str (appmodecmd s command)]\<rparr>) \<and>
    http_get (response t) HTTP_RESP_CODE =
      (if WEXITSTATUS status \<noteq> 0 then ''400'' else http_get (response s) HTTP_RESP_CODE)"
proof -
  let ?s = "vyatta_debug ''XC'' s" and ?cmd = "appmodecmd s command"
  have cmd: "appmodecmd ?s command = ?cmd" by (simp add: appmodecmd_def app_environment_def)
  have "substr (APP_REQ_ROOT @ command) (length APP_REQ_ROOT) None = Inr command" by simp
  then have "app_process e s w = Inr (vyatta_debug (''XE:'' @ ?cmd) (handle_cmd_output (pipe_loop evs [])
      (if int (WEXITSTATUS status) \<noteq> 0 then Error APPMODE_SCRIPT_ERROR ?s else ?s)),
      w\<lparr>w_files := (w_files w)(JSON_INPUT := None), w_cmds := w_cmds w @ [c_str ?cmd]\<rparr>)"
    using assms cmd
    by (simp add: app_process_def Let_def write_input_def system_out_def remove_input_def trace_input_def rest_consts)
  then show ?thesis
    by (auto simp: handle_cmd_output_get overridable_def)
qed

definition example_session :: "string \<Rightarrow> string \<Rightarrow> Session" where
  "example_session meth uri = (session_new False)\<lparr>request := http_set HTTP_REQ_METHOD meth (http_set HTTP_REQ_URI uri (http_new False)),
     s_user := ''vyatta'', auth_type := AUTH_TYPE_BASIC\<rparr>"

definition example_mode_env :: mode_env where
  "example_mode_env = \<lparr>me_debug = False, me_shell = (\<lambda>c. Some ([P_data ''hello'', P_end], 256)), me_write = W_ok, me_append = W_ok,
     me_stat = (\<lambda>p. True), me_api = (\<lambda>_. example_api), me_conf_perms = Some [''1: show=3''], me_op_perms = None\<rparr>"

theorem app_request_runs_script_witness:
  "\<exists>t w'. app_process example_mode_env (example_session ''GET'' ''/rest/app/login'') example_world = Inr (t, w') \<and>
     http_get (response t) HTTP_RESP_CODE = ''400''"
  using app_request_runs_script[of "example_session ''GET'' ''/rest/app/login''" "''/login''" example_mode_env
      "[P_data ''hello'', P_end]" 256 example_world]
  by (auto simp: example_session_def example_mode_env_def rest_consts WEXITSTATUS_def)

text \<open>C38: The service index returns exactly when the configuration daemon, asked again and again,
  at some time gives the template of the first listed service, later that of the second, and so
  on for every service of the list; otherwise the loop never ends. When the answers of the
  daemon do not change, it returns exactly when every listed template can be read, and the
  answer holds one entry per service, in the order of the list.\<close>

theorem service_index_returns_iff:
  "let listed = tp_children (get_operational_node (me_api e 0) SERVICE_COMMAND_DIR TemplateParams_new) in
   ((\<exists>t. service_index e s = Inr t) \<longleftrightarrow>
      (\<exists>ks. sorted_wrt (<) (0 # ks) \<and> list_all2 (\<lambda>k. service_readable (me_api e k)) ks listed)) \<and>
   (\<forall>f. service_index e s = Inl f \<longrightarrow> f = Hangs) \<and>
   (\<forall>a. me_api e = (\<lambda>_. a) \<longrightarrow>
      service_index e s =
        (if list_all (service_readable a) listed
         then Inr (on_response (http_set HTTP_BODY (json_serialize []
                (fold (\<lambda>i. add_array ''services'' (service_entry a i) True) listed json_new))) s)
         else Inl Hangs))"
proof -
  define listed where "listed = tp_children (get_operational_node (me_api e 0) SERVICE_COMMAND_DIR TemplateParams_new)"
  let ?r = "service_loop (me_api e) 1 listed json_new"
  have index: "service_index e s = (case ?r of None \<Rightarrow> Inl Hangs
      | Some json \<Rightarrow> Inr (on_response (http_set HTTP_BODY (json_serialize [] json)) s))"
    by (simp add: service_index_def listed_def Let_def)
  have read: "(\<exists>j. ?r = Some j) \<longleftrightarrow>
      (\<exists>ks. sorted_wrt (<) (0 # ks) \<and> list_all2 (\<lambda>k. service_readable (me_api e k)) ks listed)"
    using service_loop_returns[of _ 1 "me_api e" listed] service_loop_read[of "me_api e" 1 listed]
    by (fastforce simp: Suc_le_eq)
  have const: "?r = (if list_all (service_readable a) listed
      then Some (fold (\<lambda>i. add_array ''services'' (service_entry a i) True) listed json_new) else None)"
    if "me_api e = (\<lambda>_. a)" for a
    using that read service_loop_constant[of a listed 1 json_new]
    by (auto simp: list_all2_conv_all_nth list_all_length)
  show ?thesis unfolding Let_def listed_def[symmetric] index
    using read const by (auto split: option.split)
qed

text \<open>Two services whose templates can be read from the \<open>n\<close>-th question on, or never.\<close>

definition example_listing :: "nat option \<Rightarrow> mode_env" where
  "example_listing from = example_mode_env\<lparr>me_api := (\<lambda>k. example_api\<lparr>opd_children := (\<lambda>p. [''dns'', ''ssh'']),
     tmpl_validate_path := (\<lambda>s p. case from of Some n \<Rightarrow> n \<le> k | None \<Rightarrow> False)\<rparr>)\<rparr>"

lemma example_listed:
  "tp_children (get_operational_node (me_api (example_listing n) 0) SERVICE_COMMAND_DIR TemplateParams_new) =
     [NodeParams_new\<lparr>np_name := ''dns'', np_state := k_ACTIVE\<rparr>, NodeParams_new\<lparr>np_name := ''ssh'', np_state := k_ACTIVE\<rparr>]"
  by (simp add: example_listing_def example_mode_env_def example_api_def get_operational_node_def
      get_op_template_node_def Let_def TemplateParams_new_def)

theorem service_index_returns_iff_witness:
  "(\<exists>t. service_index (example_listing (Some 3)) (example_session ''GET'' SERVICE_REQ_ROOT) = Inr t) \<and>
   service_index (example_listing None) (example_session ''GET'' SERVICE_REQ_ROOT) = Inl Hangs"
proof
  let ?s = "example_session ''GET'' SERVICE_REQ_ROOT"
  have "sorted_wrt (<) [0, 3, 4 :: nat]" by simp
  then show "\<exists>t. service_index (example_listing (Some 3)) ?s = Inr t"
    using service_index_returns_iff[of "example_listing (Some 3)" ?s] unfolding Let_def example_listed
    by (auto simp: example_listing_def service_readable_def intro!: exI[of _ "[3, 4]"])
  have "me_api (example_listing None) = (\<lambda>_. me_api (example_listing None) 0)"
    by (simp add: example_listing_def)
  then show "service_index (example_listing None) ?s = Inl Hangs"
    using service_index_returns_iff[of "example_listing None" ?s] unfolding Let_def example_listed
    by (simp add: example_listing_def service_readable_def)
qed

text \<open>C37: The permission entries are translated in order, unreadable ones skipped; an entry whose
  rule number has nothing after its colon makes the whole translation throw, and nothing
  else does.\<close>

theorem permission_translation:
  "case maptojson es of
     Inr rs \<Rightarrow> rs = concat (map (\<lambda>e. case perm_entry e of Inr (Some r) \<Rightarrow> [r] | _ \<Rightarrow> []) es) \<and>
       \<not> (\<exists>e \<in> set es. \<exists>k p. perm_key e = Some k \<and> k \<noteq> ''DEFAULT'' \<and> find_sub '':'' k = Some p \<and> p + 1 = length k)
   | Inl f \<Rightarrow> f = OutOfRange \<and>
       (\<exists>e \<in> set es. \<exists>k p. perm_key e = Some k \<and> k \<noteq> ''DEFAULT'' \<and> find_sub '':'' k = Some p \<and> p + 1 = length k)"
  using maptojson_throws[of es] maptojson_ok[of es] maptojson_only_range[of es]
  by (cases "maptojson es") (auto simp: perm_entry_throws)

end
