(* ===== verification/Output_Polling.thy ===== *)
theory Output_Polling
  imports Multi_Resp
begin

text \<open>
  The output of a command, piece by piece: the contract of a source of pieces as the locale \<open>chunk_source\<close>, its
  fulfilment by the daemon and the client together, and the delivery of the output to its owner. The
  command goes on writing while a piece is fetched; what the daemon sees when it moves the position and
  what the client reads after the answer are two states of the files.
\<close>

section \<open>Lemmas: chunks\<close>

lemma chunk_loop_once: "chunk_loop rest left 0 [] = c_str (take left rest)"
proof (cases "left = 0")
  case False
  have z: "chunk_loop r 0 ct resp = resp" for r ct resp by (subst chunk_loop.simps) simp
  have full: "left - length (take left rest) = 0" if "\<not> length (take left rest) < left" using that by simp
  show ?thesis
    by (subst chunk_loop.simps) (use False full z in \<open>auto simp: Let_def\<close>)
qed (subst chunk_loop.simps, simp)

lemma paths_no_NUL [simp]:
  "NUL \<notin> set token \<Longrightarrow> c_str (chunk_file token) = chunk_file token"
  "NUL \<notin> set token \<Longrightarrow> c_str (end_file token) = end_file token"
  by (rule c_str_id, simp add: chunk_file_def end_file_def rest_consts)+

text \<open>A table entry its owner can poll through the messages.\<close>

definition pollable :: "manager \<Rightarrow> string \<Rightarrow> ProcessData \<Rightarrow> bool" where
  "pollable m token pd \<longleftrightarrow> mgr_ok m \<and> map_of (proc_coll m) token = Some pd \<and> clean_entry pd \<and>
     msg_text token \<and> msg_text (pd_user pd) \<and> length (NEXT_MSG token (pd_user pd)) < 1024"

lemma send_next:
  assumes "msg_text token" and "msg_text user" and "sprintf1024 (NEXT_MSG token user) = Inr buffer" and "l_write l"
  shows "send l buffer (m, w) =
    (case handle_next (w_files w) token user m of (resp, m') \<Rightarrow> Some (Some resp, m', w))"
proof -
  have "NUL \<notin> set (NEXT_MSG token user)" using assms(1,2) by (simp add: NEXT_MSG_def msg_text_def)
  then have c: "c_str (take 1024 buffer) = NEXT_MSG token user" using sprintf1024_sent[OF assms(3)] by simp
  show ?thesis using assms(4) next_tags[OF assms(1,2)]
    by (simp add: send_def manager_process_def Let_def c split: prod.splits)
qed

definition reported :: "ProcessData \<Rightarrow> ProcessData" where
  "reported pd = (if pd_status pd = K_DEAD then pd\<lparr>read_offset := - 1\<rparr> else pd)"

lemma get_chunk_poll:
  assumes "link_ok l" and "pollable m token pd"
  shows "get_chunk l False (pd_user pd) token (m, w) =
    (case read_chunk True (l_after l (w_files w)) token (sint (read_offset (reported pd))) of
       (resp, fs) \<Rightarrow> Inr (resp, snd (handle_next (w_files w) token (pd_user pd) m), w\<lparr>w_files := fs\<rparr>))"
proof -
  have t: "msg_text token" "msg_text (pd_user pd)" "map_of (proc_coll m) token = Some pd"
    "clean_entry pd" "length (NEXT_MSG token (pd_user pd)) < 1024" and ok: "entry_ok (token, pd)"
    using assms(2) mgr_ok_get by (auto simp: pollable_def)
  have ne: "pd_user pd \<noteq> []" "token \<noteq> []" using ok by (auto simp: entry_ok_def)
  let ?pd = "reported pd"
  have rep: "clean_entry ?pd" "entry_ok (token, ?pd)" using t(4) ok by (simp_all add: reported_def clean_entry_def)
  obtain buffer where b: "sprintf1024 (NEXT_MSG token (pd_user pd)) = Inr buffer"
    using t(5) by (auto simp: sprintf1024_def)
  have n: "fst (handle_next (w_files w) token (pd_user pd) m) = entry_text ?pd @ [NL]"
    using t(3) by (simp add: handle_next_def Let_def reported_def)
  have s: "send l buffer (m, w) =
      Some (Some (entry_text ?pd @ [NL]), snd (handle_next (w_files w) token (pd_user pd) m), w)"
    using send_next[OF t(1,2) b, of l m w] assms(1) n
    by (cases "handle_next (w_files w) token (pd_user pd) m") (simp add: link_ok_def)
  have r: "recv (Some (entry_text ?pd @ [NL])) = Inr (entry_text ?pd @ [NL])"
    using entry_text_set[OF rep(1)] entry_text_length[OF rep(2)] by (intro recv_reply) auto
  have "str_get (str_coll (entry_text ?pd @ [NL]) ''%3A'') 4 = fmt_ld (read_offset ?pd)"
    by (simp add: entry_coll[OF rep(1)] entry_fields_def)
  then show ?thesis
    using ne assms(1) b s r msg_textD(3)[OF t(1)] msg_textD(3)[OF t(2)]
    by (simp add: get_chunk_def link_ok_def strtol10_fmt_ld Let_def)
qed

section \<open>The contract of a polled output\<close>

fun run_polls :: "('f \<Rightarrow> 's \<Rightarrow> string \<times> 's) \<Rightarrow> 'f list \<Rightarrow> 's \<Rightarrow> string list \<times> 's" where
  "run_polls poll [] s = ([], s)"
| "run_polls poll (f # fs) s =
     (case poll f s of (r, s1) \<Rightarrow> (case run_polls poll fs s1 of (rs, s2) \<Rightarrow> (r # rs, s2)))"

text \<open>
  What a client of the chunker relies on. Each poll meets the output twice: as \<open>dat f\<close> when the offset is moved and
  as \<open>seen f\<close>, possibly longer, when the piece is read. The piece starts at the old offset; the
  offset moves by \<open>stp\<close> or to the end of \<open>dat f\<close>; the command stays alive until the end of a
  finished output is reached.
\<close>

locale chunk_source =
  fixes poll :: "'f \<Rightarrow> 's \<Rightarrow> string \<times> 's"
    and dat :: "'f \<Rightarrow> string"
    and seen :: "'f \<Rightarrow> string"
    and good :: "'f \<Rightarrow> bool"
    and fin :: "'f \<Rightarrow> bool"
    and off :: "'s \<Rightarrow> nat"
    and live :: "'s \<Rightarrow> bool"
    and ended :: "'s \<Rightarrow> bool"
    and stp :: nat
  assumes stp_pos: "0 < stp"
    and seen_grows: "good f \<Longrightarrow> prefix (dat f) (seen f)"
    and poll_data: "live s \<Longrightarrow> good f \<Longrightarrow> off s \<le> length (dat f) \<Longrightarrow>
      fst (poll f s) = take stp (drop (off s) (seen f))"
    and poll_off: "live s \<Longrightarrow> good f \<Longrightarrow> off s \<le> length (dat f) \<Longrightarrow>
      off (snd (poll f s)) = min (off s + stp) (length (dat f))"
    and poll_live: "live s \<Longrightarrow> good f \<Longrightarrow> off s \<le> length (dat f) \<Longrightarrow>
      \<not> fin f \<or> off s + stp < length (dat f) \<Longrightarrow> live (snd (poll f s))"
    and poll_end: "live s \<Longrightarrow> good f \<Longrightarrow> off s \<le> length (dat f) \<Longrightarrow>
      fin f \<Longrightarrow> length (dat f) \<le> off s + stp \<Longrightarrow> ended (snd (poll f s))"
begin

lemma run_append:
  "run_polls poll (fs @ gs) s =
     (case run_polls poll fs s of (rs, s1) \<Rightarrow> (case run_polls poll gs s1 of (rs', s2) \<Rightarrow> (rs @ rs', s2)))"
  by (induction fs arbitrary: s) (auto split: prod.splits)

text \<open>A piece begins with everything between the old and the new offset, and is no more than that when
  nothing was written in between.\<close>

lemma piece:
  assumes "live s" and "good f" and "off s \<le> length (dat f)"
  shows "\<exists>p. prefix p (fst (poll f s)) \<and> take (off s) (dat f) @ p = take (off (snd (poll f s))) (dat f) \<and>
    (seen f = dat f \<longrightarrow> p = fst (poll f s))"
proof -
  obtain z where z: "seen f = dat f @ z" using seen_grows[OF assms(2)] by (auto elim: prefixE)
  define n where "n = min stp (length (dat f) - off s)"
  have o: "off (snd (poll f s)) = off s + n" using poll_off[OF assms] assms(3) by (auto simp: n_def min_def)
  let ?p = "take n (drop (off s) (dat f))"
  have "prefix ?p (take stp (drop (off s) (seen f)))"
    using assms(3) by (auto simp: z n_def min_def take_is_prefix)
  moreover have "?p = take stp (drop (off s) (dat f))" by (simp add: n_def min_def)
  ultimately show ?thesis unfolding o poll_data[OF assms] by (intro exI[of _ ?p]) (simp add: take_add)
qed

lemma grow:
  assumes "live s" and "off s \<le> length c0" and "\<forall>g \<in> set gs. good g \<and> \<not> fin g \<and> prefix c0 (dat g) \<and> prefix (dat g) c"
    and "sorted_wrt prefix (map dat gs)" and "prefix c0 c"
  shows "live (snd (run_polls poll gs s)) \<and> off (snd (run_polls poll gs s)) \<le> length c \<and>
    (\<exists>ps. list_all2 prefix ps (fst (run_polls poll gs s)) \<and>
      take (off s) c @ concat ps = take (off (snd (run_polls poll gs s))) c \<and>
      ((\<forall>g \<in> set gs. seen g = dat g) \<longrightarrow> ps = fst (run_polls poll gs s)))"
  using assms
proof (induction gs arbitrary: s c0)
  case Nil
  then show ?case by (auto dest: prefix_length_le)
next
  case (Cons g gs)
  obtain r s1 where p: "poll g s = (r, s1)" by fastforce
  have g: "good g" "\<not> fin g" "prefix c0 (dat g)" "prefix (dat g) c" using Cons.prems by auto
  have le: "off s \<le> length (dat g)" using Cons.prems(2) prefix_length_le[OF g(3)] by simp
  have live: "live s1" using poll_live[OF Cons.prems(1) g(1) le] g(2) p by simp
  have o1: "off s1 \<le> length (dat g)" using poll_off[OF Cons.prems(1) g(1) le] p by simp
  from piece[OF Cons.prems(1) g(1) le] p obtain q where
    q: "prefix q r" "take (off s) (dat g) @ q = take (off s1) (dat g)" "seen g = dat g \<longrightarrow> q = r" by auto
  have "take (off s) c = take (off s) (dat g)" "take (off s1) c = take (off s1) (dat g)"
    using g(4) le o1 by (auto simp: prefix_def)
  then have pc: "take (off s) c @ q = take (off s1) c" using q(2) by simp
  have rest: "\<forall>h \<in> set gs. good h \<and> \<not> fin h \<and> prefix (dat g) (dat h) \<and> prefix (dat h) c"
    "sorted_wrt prefix (map dat gs)" using Cons.prems by auto
  from Cons.IH[OF live o1 rest g(4)] obtain ps where
    IH: "live (snd (run_polls poll gs s1))" "off (snd (run_polls poll gs s1)) \<le> length c"
      "list_all2 prefix ps (fst (run_polls poll gs s1))"
      "take (off s1) c @ concat ps = take (off (snd (run_polls poll gs s1))) c"
      "(\<forall>g \<in> set gs. seen g = dat g) \<longrightarrow> ps = fst (run_polls poll gs s1)" by blast
  have "take (off s) c @ concat (q # ps) = take (off (snd (run_polls poll gs s1))) c"
    using pc IH(4) by (simp flip: append_assoc)
  then show ?case using IH q p by (auto split: prod.splits intro!: exI[of _ "q # ps"])
qed

lemma drain:
  assumes "live s" and "off s \<le> length (dat f)" and "good f" and "fin f" and "seen f = dat f"
  shows "\<exists>k \<le> (length (dat f) - off s) div stp + 1.
    take (off s) (dat f) @ concat (fst (run_polls poll (replicate k f) s)) = dat f \<and>
    ended (snd (run_polls poll (replicate k f) s))"
  using assms(1,2)
proof (induction "length (dat f) - off s" arbitrary: s rule: less_induct)
  case less
  obtain r s1 where p: "poll f s = (r, s1)" by fastforce
  have pc: "take (off s) (dat f) @ r = take (off s1) (dat f)"
    using piece[OF less.prems(1) assms(3) less.prems(2)] assms(5) p by auto
  have o1: "off s1 = min (off s + stp) (length (dat f))" using poll_off[OF less.prems(1) assms(3) less.prems(2)] p by simp
  show ?case
  proof (cases "length (dat f) \<le> off s + stp")
    case True
    then have "ended s1" using poll_end[OF less.prems(1) assms(3) less.prems(2) assms(4)] p by simp
    moreover have "off s1 = length (dat f)" using o1 True by simp
    ultimately show ?thesis using p pc by (intro exI[of _ 1]) simp
  next
    case False
    then have live: "live s1" using poll_live[OF less.prems(1) assms(3) less.prems(2)] p by simp
    have o: "off s1 = off s + stp" using o1 False by simp
    then have "length (dat f) - off s1 < length (dat f) - off s" using False stp_pos by simp
    from less.hyps[OF this live] o False obtain k where
      k: "k \<le> (length (dat f) - off s1) div stp + 1"
        "take (off s1) (dat f) @ concat (fst (run_polls poll (replicate k f) s1)) = dat f"
        "ended (snd (run_polls poll (replicate k f) s1))" by auto
    have "(length (dat f) - off s) = (length (dat f) - off s1) + stp" using o False by simp
    then have "Suc k \<le> (length (dat f) - off s) div stp + 1"
      using k(1) stp_pos by (simp add: div_add_self2)
    moreover have "take (off s) (dat f) @ concat (fst (run_polls poll (replicate (Suc k) f) s)) = dat f"
      using k(2) pc p by (auto split: prod.splits) (metis append_assoc)
    moreover have "ended (snd (run_polls poll (replicate (Suc k) f) s))"
      using k(3) p by (auto split: prod.splits)
    ultimately show ?thesis by blast
  qed
qed

text \<open>Everything is delivered in order, without a gap, and the end is reached; nothing is delivered twice when
  nothing is written within a poll.\<close>

lemma deliver:
  assumes "live s" and "off s = 0" and "\<forall>g \<in> set gs. good g \<and> \<not> fin g \<and> prefix (dat g) (dat f)"
    and "sorted_wrt prefix (map dat gs)" and "good f" and "fin f" and "seen f = dat f"
  shows "\<exists>k \<le> length (dat f) div stp + 1.
    (\<exists>ps. list_all2 prefix ps (fst (run_polls poll (gs @ replicate k f) s)) \<and> concat ps = dat f \<and>
      ((\<forall>g \<in> set gs. seen g = dat g) \<longrightarrow> ps = fst (run_polls poll (gs @ replicate k f) s))) \<and>
    ended (snd (run_polls poll (gs @ replicate k f) s))"
proof -
  obtain rs s1 where g: "run_polls poll gs s = (rs, s1)" by fastforce
  from grow[of s "[]" gs "dat f"] assms g obtain ps where
    s1: "live s1" "off s1 \<le> length (dat f)" "list_all2 prefix ps rs" "concat ps = take (off s1) (dat f)"
      "(\<forall>g \<in> set gs. seen g = dat g) \<longrightarrow> ps = rs" by auto
  from drain[OF s1(1,2) assms(5-7)] obtain k where
    k: "k \<le> (length (dat f) - off s1) div stp + 1"
      "take (off s1) (dat f) @ concat (fst (run_polls poll (replicate k f) s1)) = dat f"
      "ended (snd (run_polls poll (replicate k f) s1))" by blast
  obtain qs s2 where q: "run_polls poll (replicate k f) s1 = (qs, s2)" by fastforce
  have run: "run_polls poll (gs @ replicate k f) s = (rs @ qs, s2)" by (simp add: run_append g q)
  have "list_all2 prefix (ps @ qs) (rs @ qs)" using s1(3) by (intro list_all2_appendI) (auto simp: list_all2_refl)
  moreover have "concat (ps @ qs) = dat f" using s1(4) k(2) q by simp
  moreover have "(length (dat f) - off s1) div stp \<le> length (dat f) div stp" by (intro div_le_mono) simp
  ultimately show ?thesis using k(1,3) q s1(5) run
    by (intro exI[of _ k] conjI exI[of _ "ps @ qs"]) auto
qed

end

text \<open>A source seen through another part of the system: each poll does the same to the part of the state that holds the
  source, for the files that satisfy one more condition.\<close>

lemma chunk_source_view:
  assumes base: "\<And>w. chunk_source (poll w) dat seen good fin off live ended stp"
    and eq: "\<And>f s. P \<Longrightarrow> live (v s) \<Longrightarrow> good f \<Longrightarrow> Q f \<Longrightarrow> off (v s) \<le> length (dat f) \<Longrightarrow>
      fst (poll' f s) = fst (poll (c s) f (v s)) \<and> v (snd (poll' f s)) = snd (poll (c s) f (v s))"
  shows "chunk_source poll' dat seen (\<lambda>f. good f \<and> Q f) fin (\<lambda>s. off (v s)) (\<lambda>s. P \<and> live (v s)) (\<lambda>s. P \<and> ended (v s)) stp"
proof (unfold_locales, goal_cases)
  case 1
  show ?case by (rule chunk_source.stp_pos[OF base])
next
  case (2 f)
  then show ?case using chunk_source.seen_grows[OF base] by blast
next
  case (3 s f)
  then show ?case using eq[of s f] chunk_source.poll_data[OF base] by simp
next
  case (4 s f)
  then show ?case using eq[of s f] chunk_source.poll_off[OF base] by simp
next
  case (5 s f)
  then show ?case using eq[of s f] chunk_source.poll_live[OF base] by simp
next
  case (6 s f)
  then show ?case using eq[of s f] chunk_source.poll_end[OF base] by simp
qed

section \<open>The chunker fulfils the contract\<close>

text \<open>A poll with the files as the daemon sees them and as the client reads them.\<close>

definition poll_chunk :: "link \<Rightarrow> world \<Rightarrow> string \<Rightarrow> string \<Rightarrow> files \<times> files \<Rightarrow> manager \<Rightarrow> string \<times> manager" where
  "poll_chunk l w user token g m =
     (case get_chunk (l\<lparr>l_after := (\<lambda>fs. snd g)\<rparr>) False user token (m, w\<lparr>w_files := fst g\<rparr>) of
        Inl _ \<Rightarrow> ([], m) | Inr (r, m', _) \<Rightarrow> (r, m'))"

definition out_good :: "string \<Rightarrow> files \<Rightarrow> bool" where
  "out_good token fs \<longleftrightarrow> (\<exists>c. fs (chunk_file token) = Some c \<and> NUL \<notin> set c \<and> length c < 2 ^ 32)"

definition out_done :: "string \<Rightarrow> files \<Rightarrow> bool" where
  "out_done token fs \<longleftrightarrow> fs (end_file token) \<noteq> None"

definition out_text :: "string \<Rightarrow> files \<Rightarrow> string" where
  "out_text token fs = file_text fs (chunk_file token)"

text \<open>Output is only ever appended.\<close>

definition appended :: "string \<Rightarrow> files \<times> files \<Rightarrow> bool" where
  "appended token g \<longleftrightarrow> out_good token (fst g) \<and> out_good token (snd g) \<and> prefix (out_text token (fst g)) (out_text token (snd g))"

definition poll_off :: "string \<Rightarrow> manager \<Rightarrow> nat" where
  "poll_off token m = (case map_of (proc_coll m) token of Some pd \<Rightarrow> unat (read_offset pd) | None \<Rightarrow> 0)"

definition poll_state :: "link \<Rightarrow> string \<Rightarrow> string \<Rightarrow> ProcStatus \<Rightarrow> manager \<Rightarrow> bool" where
  "poll_state l user token st m \<longleftrightarrow> link_ok l \<and> chunk_size m = of_nat CHUNKER_READ_SIZE \<and>
     (\<exists>pd. pollable m token pd \<and> pd_user pd = user \<and> pd_status pd = st)"

lemma advance_simps [simp]:
  "pd_user (advance fs token cs pd) = pd_user pd"
  "pd_token (advance fs token cs pd) = pd_token pd"
  "pd_command (advance fs token cs pd) = pd_command pd"
  by (simp_all add: advance_def Let_def split: option.splits)

lemma handle_next_pollable:
  assumes "pollable m token pd"
  shows "pollable (snd (handle_next fs token (pd_user pd) m)) token
    (advance fs token (chunk_size m) (reported pd))"
  using assms handle_next_ok[of m fs token "pd_user pd"]
  by (auto simp: pollable_def handle_next_def Let_def reported_def map_put_get clean_entry_def)

lemma handle_next_chunk_size [simp]: "chunk_size (snd (handle_next fs token user m)) = chunk_size m"
  by (simp add: handle_next_def Let_def split: option.splits)

text \<open>One poll in a live state.\<close>

lemma poll_live_step:
  assumes "poll_state l user token K_RUNNING m" and "appended token g" and "poll_off token m \<le> length (out_text token (fst g))"
  shows "fst (poll_chunk l w user token g m) = take CHUNKER_READ_SIZE (drop (poll_off token m) (out_text token (snd g)))"
    and "poll_off token (snd (poll_chunk l w user token g m)) =
      min (poll_off token m + CHUNKER_READ_SIZE) (length (out_text token (fst g)))"
    and "poll_state l user token
      (if length (out_text token (fst g)) \<le> poll_off token m + CHUNKER_READ_SIZE \<and> out_done token (fst g) then K_DEAD else K_RUNNING)
      (snd (poll_chunk l w user token g m))"
proof -
  obtain fs gs where g: "g = (fs, gs)" by (cases g)
  obtain pd where l: "link_ok l" and cs: "chunk_size m = of_nat CHUNKER_READ_SIZE"
    and pd: "pollable m token pd" "pd_user pd = user" "pd_status pd = K_RUNNING"
    using assms(1) by (auto simp: poll_state_def)
  obtain c d where c: "fs (chunk_file token) = Some c" "NUL \<notin> set c" "length c < 2 ^ 32"
    and d: "gs (chunk_file token) = Some d" "NUL \<notin> set d"
    using assms(2) g by (auto simp: appended_def out_good_def)
  have text_c: "out_text token fs = c" "out_text token gs = d" using c d by (simp_all add: out_text_def file_text_def)
  have get: "map_of (proc_coll m) token = Some pd" and nul: "NUL \<notin> set token"
    using pd(1) by (auto simp: pollable_def msg_text_def)
  have off: "poll_off token m = unat (read_offset pd)" using get by (simp add: poll_off_def)
  have le: "unat (read_offset pd) \<le> length c" using assms(3) off text_c g by simp
  have csn: "unat (chunk_size m) = CHUNKER_READ_SIZE" by (simp add: cs rest_consts)
  have rep: "reported pd = pd" using pd(3) by (simp add: reported_def)
  let ?l = "l\<lparr>l_after := (\<lambda>fs. gs)\<rparr>"
  let ?w = "w\<lparr>w_files := fs\<rparr>" and ?m = "snd (handle_next fs token user m)"
  have pos: "sint (read_offset pd) = int (unat (read_offset pd))" using le c(3) by (intro sint_small) simp
  have "NUL \<notin> set (take CHUNKER_READ_SIZE (drop (unat (read_offset pd)) d))" using d(2) by (meson in_set_dropD in_set_takeD)
  then have "read_chunk True gs token (sint (read_offset pd)) =
      (take CHUNKER_READ_SIZE (drop (unat (read_offset pd)) d), gs)"
    using d nul pos by (simp add: read_chunk_def chunk_loop_once c_str_id)
  moreover have "link_ok ?l" using l by (simp add: link_ok_def)
  ultimately have p: "poll_chunk l w user token g m = (take CHUNKER_READ_SIZE (drop (unat (read_offset pd)) d), ?m)"
    using get_chunk_poll[OF _ pd(1), of ?l ?w] pd(2) rep by (simp add: poll_chunk_def g)
  then show "fst (poll_chunk l w user token g m) = take CHUNKER_READ_SIZE (drop (poll_off token m) (out_text token (snd g)))"
    by (simp add: text_c off g)
  let ?pd = "advance fs token (chunk_size m) pd"
  have np: "pollable ?m token ?pd" using handle_next_pollable[OF pd(1), of fs] pd(2) rep by simp
  then have ng: "map_of (proc_coll ?m) token = Some ?pd" by (simp add: pollable_def)
  have cs32: "unat (chunk_size m) < 2 ^ 32" by (simp add: csn rest_consts)
  note adv = advance_offset[where fs = fs and token = token and pd = pd and c = c and cs = "chunk_size m", OF c(1,3) le cs32]
  show "poll_off token (snd (poll_chunk l w user token g m)) =
      min (poll_off token m + CHUNKER_READ_SIZE) (length (out_text token (fst g)))"
    unfolding p using adv(1) ng by (simp add: off text_c csn poll_off_def get g)
  show "poll_state l user token
      (if length (out_text token (fst g)) \<le> poll_off token m + CHUNKER_READ_SIZE \<and> out_done token (fst g) then K_DEAD else K_RUNNING)
      (snd (poll_chunk l w user token g m))"
    unfolding p using l np pd adv(2) cs unfolding poll_state_def text_c off out_done_def csn g by (auto simp: text_c)
qed

interpretation chunk: chunk_source "poll_chunk l w user token" "\<lambda>g. out_text token (fst g)" "\<lambda>g. out_text token (snd g)"
  "appended token" "\<lambda>g. out_done token (fst g)"
  "poll_off token" "poll_state l user token K_RUNNING" "poll_state l user token K_DEAD" CHUNKER_READ_SIZE
  for l w user token
proof unfold_locales
  show "0 < CHUNKER_READ_SIZE" by (simp add: rest_consts)
  show "prefix (out_text token (fst f)) (out_text token (snd f))" if "appended token f" for f
    using that by (simp add: appended_def)
next
  fix s f
  assume st: "poll_state l user token K_RUNNING s" "appended token f" "poll_off token s \<le> length (out_text token (fst f))"
  note step = poll_live_step[OF st, of w]
  show "fst (poll_chunk l w user token f s) = take CHUNKER_READ_SIZE (drop (poll_off token s) (out_text token (snd f)))"
    "poll_off token (snd (poll_chunk l w user token f s)) = min (poll_off token s + CHUNKER_READ_SIZE) (length (out_text token (fst f)))"
    by (fact step)+
  show "poll_state l user token K_RUNNING (snd (poll_chunk l w user token f s))"
    if "\<not> out_done token (fst f) \<or> poll_off token s + CHUNKER_READ_SIZE < length (out_text token (fst f))"
  proof -
    have "\<not> (length (out_text token (fst f)) \<le> poll_off token s + CHUNKER_READ_SIZE \<and> out_done token (fst f))" using that by auto
    then show ?thesis using step(3) by (simp only: if_False)
  qed
  show "poll_state l user token K_DEAD (snd (poll_chunk l w user token f s))"
    if "out_done token (fst f)" "length (out_text token (fst f)) \<le> poll_off token s + CHUNKER_READ_SIZE"
    using step(3) that by simp
qed

text \<open>A poll in the ended state answers \<open>END\<close> and removes the files.\<close>

lemma poll_dead:
  assumes "poll_state l user token K_DEAD m" and "l_after l (w_files w) (end_file token) \<noteq> None"
  shows "\<exists>m'. get_chunk l False user token (m, w) =
    Inr (''END'', m', w\<lparr>w_files := (l_after l (w_files w))(end_file token := None, chunk_file token := None)\<rparr>)"
proof -
  obtain pd where l: "link_ok l" and pd: "pollable m token pd" "pd_user pd = user" "pd_status pd = K_DEAD"
    using assms(1) by (auto simp: poll_state_def)
  have nul: "NUL \<notin> set token" using pd(1) by (auto simp: pollable_def msg_text_def)
  have "read_chunk True (l_after l (w_files w)) token (sint (read_offset (reported pd))) =
      (''END'', (l_after l (w_files w))(end_file token := None, chunk_file token := None))"
    using assms(2) nul pd(3) by (auto simp: read_chunk_def reported_def split: option.splits)
  then show ?thesis using get_chunk_poll[OF l pd(1), of w] pd(2) by simp
qed

section \<open>Properties\<close>

text \<open>A command's output reaches its owner completely and in order. While the output grows, each poll of the
  owner returns a piece; once the output is finished, at most one poll per chunk of it, and one
  more, deliver the rest, and the poll after that answers \<open>END\<close> and removes the files. Beginnings of the
  pieces, put together, are the whole output; the pieces themselves are, and nothing is delivered twice, when the
  command writes nothing between the daemon's answer and the reading of the piece. The output is
  below four gigabytes and free of NUL, and the daemon has the chunk size of the client.\<close>

theorem output_delivered:
  assumes "poll_state l user token K_RUNNING m" and "poll_off token m = 0"
    and "\<forall>g \<in> set gs. appended token g \<and> \<not> out_done token (fst g) \<and> prefix (out_text token (fst g)) (out_text token f)"
    and "sorted_wrt prefix (map (\<lambda>g. out_text token (fst g)) gs)"
    and "out_good token f" and "out_done token f"
  shows "\<exists>k \<le> length (out_text token f) div CHUNKER_READ_SIZE + 1.
    case run_polls (poll_chunk l w user token) (gs @ replicate k (f, f)) m of (pieces, m') \<Rightarrow>
      (\<exists>ps. list_all2 prefix ps pieces \<and> concat ps = out_text token f \<and>
         ((\<forall>g \<in> set gs. out_text token (snd g) = out_text token (fst g)) \<longrightarrow> ps = pieces)) \<and>
      (\<exists>m''. get_chunk (l\<lparr>l_after := (\<lambda>fs. fs)\<rparr>) False user token (m', w\<lparr>w_files := f\<rparr>) =
         Inr (''END'', m'', w\<lparr>w_files := f(end_file token := None, chunk_file token := None)\<rparr>))"
proof -
  let ?run = "\<lambda>k. run_polls (poll_chunk l w user token) (gs @ replicate k (f, f)) m"
  have f: "appended token (f, f)" using assms(5) by (simp add: appended_def)
  have "\<exists>k \<le> length (out_text token f) div CHUNKER_READ_SIZE + 1.
    (\<exists>ps. list_all2 prefix ps (fst (?run k)) \<and> concat ps = out_text token f \<and>
      ((\<forall>g \<in> set gs. out_text token (snd g) = out_text token (fst g)) \<longrightarrow> ps = fst (?run k))) \<and>
    poll_state l user token K_DEAD (snd (?run k))"
    using chunk.deliver[where f = "(f, f)" and gs = gs and w = w, OF assms(1,2)] assms(3,4,6) f by simp
  then obtain k ps where k: "k \<le> length (out_text token f) div CHUNKER_READ_SIZE + 1"
    "list_all2 prefix ps (fst (?run k))" "concat ps = out_text token f"
    "(\<forall>g \<in> set gs. out_text token (snd g) = out_text token (fst g)) \<longrightarrow> ps = fst (?run k)"
    "poll_state l user token K_DEAD (snd (?run k))" by blast
  have "poll_state (l\<lparr>l_after := (\<lambda>fs. fs)\<rparr>) user token K_DEAD (snd (?run k))"
    using k(5) by (simp add: poll_state_def link_ok_def)
  from poll_dead[OF this, of "w\<lparr>w_files := f\<rparr>"] assms(6) k(1-4) show ?thesis
    by (intro exI[of _ k]) (auto simp: out_done_def split: prod.splits)
qed

lemma example_poll_state:
  "poll_state example_link ''bob'' ''1'' K_RUNNING (example_manager [example_entry ''1'' ''bob''])"
  by (simp add: poll_state_def link_ok_def example_link_def example_manager_def example_entry_def pollable_def
      mgr_ok_def sorted_map_def entry_ok_def clean_entry_def reply_text_def clean_field_def msg_text_def
      NEXT_MSG_def rest_consts)

theorem output_delivered_witness:
  "\<exists>k \<le> 1. case run_polls (poll_chunk example_link example_world ''bob'' ''1'')
      ([([chunk_file ''1'' \<mapsto> ''he''], [chunk_file ''1'' \<mapsto> ''hel''])] @
        replicate k ([chunk_file ''1'' \<mapsto> ''hello'', end_file ''1'' \<mapsto> ''end''], [chunk_file ''1'' \<mapsto> ''hello'', end_file ''1'' \<mapsto> ''end'']))
      (example_manager [example_entry ''1'' ''bob'']) of (pieces, m') \<Rightarrow>
      \<exists>ps. list_all2 prefix ps pieces \<and> concat ps = ''hello''"
proof -
  have ne: "chunk_file ''1'' \<noteq> end_file ''1''" using end_file_neq[of "''1''"] by simp
  then show ?thesis
    using output_delivered[OF example_poll_state, of "[([chunk_file ''1'' \<mapsto> ''he''], [chunk_file ''1'' \<mapsto> ''hel''])]"
      "[chunk_file ''1'' \<mapsto> ''hello'', end_file ''1'' \<mapsto> ''end'']" example_world]
    by (fastforce simp: poll_off_def example_manager_def example_entry_def out_good_def out_done_def out_text_def
        appended_def file_text_def rest_consts split: prod.splits)
qed

text \<open>What a command writes between the daemon's answer and the reading of the piece is delivered twice: the
  piece runs to the end of the file, the position only to where the file ended before.\<close>

theorem racing_output_repeated:
  assumes "poll_state l user token K_RUNNING m" and "appended token (f, g)" and "\<not> out_done token f"
    and "poll_off token m \<le> length (out_text token f)" and "length (out_text token g) \<le> poll_off token m + CHUNKER_READ_SIZE"
    and "out_text token g = out_text token f @ new"
  shows "fst (run_polls (poll_chunk l w user token) [(f, g), (g, g)] m) = [drop (poll_off token m) (out_text token f) @ new, new]"
proof -
  obtain r m1 where p: "poll_chunk l w user token (f, g) m = (r, m1)" by fastforce
  have len: "length (out_text token f) \<le> poll_off token m + CHUNKER_READ_SIZE" using assms(5,6) by simp
  have r: "r = drop (poll_off token m) (out_text token f) @ new"
    using poll_live_step(1)[OF assms(1,2), of w] assms(4-6) p by simp
  have m1: "poll_off token m1 = length (out_text token f)" "poll_state l user token K_RUNNING m1"
    using poll_live_step(2,3)[OF assms(1,2), of w] assms(3,4) p len by simp_all
  have "appended token (g, g)" using assms(2) by (simp add: appended_def)
  from poll_live_step(1)[OF m1(2) this, of w] m1(1) assms(4-6)
  have "fst (poll_chunk l w user token (g, g) m1) = new" by simp
  then show ?thesis using p r by (auto split: prod.splits)
qed

theorem racing_output_repeated_witness:
  "fst (run_polls (poll_chunk example_link example_world ''bob'' ''1'')
     [([chunk_file ''1'' \<mapsto> ''he''], [chunk_file ''1'' \<mapsto> ''hel'']), ([chunk_file ''1'' \<mapsto> ''hel''], [chunk_file ''1'' \<mapsto> ''hel''])]
     (example_manager [example_entry ''1'' ''bob''])) = [''hel'', ''l'']"
  using racing_output_repeated[OF example_poll_state, of "[chunk_file ''1'' \<mapsto> ''he'']" "[chunk_file ''1'' \<mapsto> ''hel'']" "''l''" example_world]
    end_file_neq[of "''1''"]
  by (simp add: poll_off_def example_manager_def example_entry_def out_good_def out_done_def out_text_def appended_def
      file_text_def rest_consts)

end
