(* ===== verification/Op_Mode.thy ===== *)
theory Op_Mode
  imports Output_Polling Mode_Base Configuration
begin

text \<open>
  \<open>opmode.cc\<close>: operational commands. A POST starts a command in the chunker daemon, a GET lists
  the commands of the user, describes a command or fetches the next piece of output, a DELETE
  ends a command. The daemon's table and files are the state; the client calls of \<open>opd\<close>, the URL
  decoder and the random token are parameters.
\<close>

section \<open>Environment\<close>

text \<open>
  \<open>oe_init n\<close> is the outcome of connecting the \<open>n\<close>-th client of the request, \<open>oe_link n\<close> that connection, \<open>oe_expand\<close> the answer
  of \<open>opd\<close> (None when it cannot be reached), \<open>oe_token\<close> the random token (None when the
  random device never delivers), and \<open>oe_updated\<close> the contents of a member nobody sets.
\<close>

record op_env =
  oe_unescape :: "string \<Rightarrow> string option"
  oe_init :: "nat \<Rightarrow> bool"
  oe_link :: "nat \<Rightarrow> link"
  oe_token :: "string option"
  oe_einval :: bool
  oe_expand :: "string \<Rightarrow> bool option"
  oe_updated :: "64 word"
  oe_api :: conf_api

type_synonym op_state = "manager \<times> world"

section \<open>Operations\<close>

text \<open>The flag and the path that is set; None keeps the flag false and the path empty.\<close>

definition validate_op_cmd :: "op_env \<Rightarrow> string \<Rightarrow> bool \<times> string" where
  "validate_op_cmd e cmd =
     (if length cmd < length ''/rest/op/'' then (False, [])
      else case oe_expand e (c_str (drop (length ''/rest/op/'') cmd)) of
        None \<Rightarrow> (False, [])
      | Some found \<Rightarrow> if found then (True, drop (length ''/rest/op/'') cmd) else (False, []))"

definition op_post :: "op_env \<Rightarrow> Session \<Rightarrow> string \<Rightarrow> op_state \<Rightarrow> (Session \<times> op_state) res" where
  "op_post e s path st =
     (if length path \<le> length OP_REQ_ROOT then Inr (Error VALIDATION_FAILURE s, st)
      else bind_res (substr path (length OP_REQ_ROOT + 1) None) (\<lambda>c.
        bind_res (translate_rest_to_cli (oe_unescape e) c) (\<lambda>cmd.
          if \<not> oe_init e 0 then Inr (Error SERVER_ERROR (vyatta_debug ''op:chunker init failed'' s), st)
          else bind_res (mrc_start (oe_link e 0) (oe_token e) (s_user s) cmd st) (\<lambda>(i, st1).
            if i = [] then Inr (Error SERVER_ERROR s, st1)
            else Inr (Error CREATED (vyatta_debug ''op:1.2''
                   (on_response (http_set HTTP_RESP_LOCATION (''rest/op/'' @ i)) s)), st1)))))"

definition process_item :: "64 word \<Rightarrow> proc_info \<Rightarrow> string" where
  "process_item updated pd =
     [CHR ''{'', QUOTE] @ ''username'' @ [QUOTE, CHR '':'', QUOTE] @ p_username pd @ [QUOTE, CHR '','']
     @ [QUOTE] @ ''started'' @ [QUOTE, CHR '':'', QUOTE]
       @ fmt_ld (case p_start_time pd of Some t \<Rightarrow> t | None \<Rightarrow> updated) @ [QUOTE, CHR '','']
     @ [QUOTE] @ ''updated'' @ [QUOTE, CHR '':'', QUOTE] @ fmt_ld updated @ [QUOTE, CHR '','']
     @ [QUOTE] @ ''id'' @ [QUOTE, CHR '':'', QUOTE] @ p_id pd @ [QUOTE, CHR '','']
     @ [QUOTE] @ ''command'' @ [QUOTE, CHR '':'', QUOTE] @ p_command pd @ [QUOTE, CHR ''}'']"

definition process_list :: "64 word \<Rightarrow> proc_info list \<Rightarrow> string" where
  "process_list updated coll =
     json_serialize [] (fold (\<lambda>pd. add_array ''process'' (process_item updated pd) True) coll json_new)"

definition op_list :: "op_env \<Rightarrow> Session \<Rightarrow> op_state \<Rightarrow> (Session \<times> op_state) res" where
  "op_list e s st =
     (if \<not> oe_init e 0 then Inr (Error SERVER_ERROR (vyatta_debug ''op:chunker init failed'' s), st)
      else bind_res (get_processes (oe_link e 0) (s_user s) st) (\<lambda>(coll, st1).
        Inr (on_response (http_set HTTP_BODY (process_list (oe_updated e) coll)) s, st1)))"

definition op_template_json :: "TemplateParams \<Rightarrow> JSON" where
  "op_template_json p =
     fold (\<lambda>x. add_array ''enum'' x False) (tp_enum p) (fold (\<lambda>c. add_array ''children'' (np_name c) False) (tp_children p)
       (add_value ''action'' (if tp_action p then ''true'' else ''false'') (add_value ''help'' (tp_help p) json_new)))"

definition op_template :: "op_env \<Rightarrow> Session \<Rightarrow> string \<Rightarrow> Session" where
  "op_template e s op_path =
     (let s1 = vyatta_debug (''get op conf data: '' @ op_path) s;
          params = get_operational_node (oe_api e) op_path TemplateParams_new
      in on_response (http_set HTTP_BODY (json_serialize [] (op_template_json params))) s1)"

text \<open>What is answered for a piece of output; the end marker ends the command.\<close>

definition op_chunk :: "op_env \<Rightarrow> Session \<Rightarrow> string \<Rightarrow> string \<Rightarrow> op_state \<Rightarrow> (Session \<times> op_state) res" where
  "op_chunk e s pid out st =
     (if out = ''END'' then
        (if \<not> oe_init e 2 then Inr (Error SERVER_ERROR s, st)
         else bind_res (mrc_kill (oe_link e 2) (s_user s) pid st) (\<lambda>st1. Inr (Error OPMODE_PROCESS_FINISHED s, st1)))
      else if out = [] then Inr (Error ACCEPTED s, st)
      else Inr (Error OK (s\<lparr>response :=
             (http_set HTTP_BODY out (http_set HTTP_RESP_CONTENT_TYPE ''text/plain'' (response s)))\<lparr>verbatim_body := True\<rparr>\<rparr>), st))"

definition op_poll_id :: "op_env \<Rightarrow> Session \<Rightarrow> string \<Rightarrow> op_state \<Rightarrow> (Session \<times> op_state) res" where
  "op_poll_id e s pid st =
     (if \<not> oe_init e 0 then Inr (vyatta_debug ''op:chunker init failed'' (Error SERVER_ERROR s), st)
      else bind_res (get_process_details (oe_link e 0) (s_user s) pid st) (\<lambda>(pd, st1).
        if p_id pd = [] then Inr (Error OPMODE_PROCESS_FINISHED s, st1)
        else if \<not> oe_init e 1 then Inr (vyatta_debug ''op:chunker init failed'' (Error SERVER_ERROR s), st1)
        else bind_res (get_chunk (oe_link e 1) (oe_einval e) (s_user s) pid st1) (\<lambda>(out, st2). op_chunk e s pid out st2)))"

definition op_poll :: "op_env \<Rightarrow> Session \<Rightarrow> string \<Rightarrow> op_state \<Rightarrow> (Session \<times> op_state) res" where
  "op_poll e s0 path st =
     (let s = vyatta_debug ''get_bg_data: '' s0 in
      case rfind_sub ''/'' path of None \<Rightarrow> Inr (s, st)
      | Some pos \<Rightarrow>
          (let pid = drop (pos + 1) path in
           if length pid \<noteq> 16 then Inr (Error VALIDATION_FAILURE s, st)
           else op_poll_id e (vyatta_debug ('': '' @ pid) s) pid st))"

definition op_delete :: "op_env \<Rightarrow> Session \<Rightarrow> string \<Rightarrow> op_state \<Rightarrow> (Session \<times> op_state) res" where
  "op_delete e s path st =
     (let pid = (case rfind_sub ''/'' path of Some pos \<Rightarrow> drop (pos + 1) path | None \<Rightarrow> path) in
      if length pid < 16 then Inr (Error VALIDATION_FAILURE s, st)
      else if \<not> oe_init e 0 then Inr (Error SERVER_ERROR s, st)
      else bind_res (mrc_kill (oe_link e 0) (s_user s) pid st) (\<lambda>st1.
        Inr (on_response (http_set HTTP_BODY (json_serialize [] (add_value ''message'' '' '' json_new))) s, st1)))"

definition op_get :: "op_env \<Rightarrow> Session \<Rightarrow> string \<Rightarrow> op_state \<Rightarrow> (Session \<times> op_state) res" where
  "op_get e s path st =
     (if path = OP_REQ_ROOT then op_list e s st
      else case validate_op_cmd e path of
        (True, op_path) \<Rightarrow> Inr (op_template e s op_path, st)
      | (False, _) \<Rightarrow> op_poll e s path st)"

definition op_process :: "op_env \<Rightarrow> Session \<Rightarrow> op_state \<Rightarrow> (Session \<times> op_state) res" where
  "op_process e s st =
     (if auth_type s = AUTH_TYPE_NONE then Inr (Error AUTHORIZATION_FAILURE s, st)
      else let path = req_get s HTTP_REQ_URI; meth = req_get s HTTP_REQ_METHOD in
      if path = [] then Inr (Error VALIDATION_FAILURE (vyatta_debug ''op:1'' s), st)
      else if length path < length OP_REQ_ROOT then Inr (Error VALIDATION_FAILURE s, st)
      else if meth = ''POST'' then op_post e s path st
      else if meth = ''GET'' then op_get e s path st
      else if meth = ''DELETE'' then op_delete e s path st
      else Inr (Error VALIDATION_FAILURE s, st))"

section \<open>The mode keeps the contract\<close>

definition keeps_session :: "Session \<Rightarrow> Session \<Rightarrow> bool" where
  "keeps_session s t \<longleftrightarrow> same_identity s t \<and> (wf_session s \<longrightarrow> wf_session t)"

lemma keeps_verbatim:
  "keeps_session s (s\<lparr>response := (http_set k v (http_set k2 v2 (response s)))\<lparr>verbatim_body := True\<rparr>\<rparr>)"
  by (simp add: keeps_session_def same_identity_def wf_session_def)

lemma keeps_Error [simp]: "keeps_session s t \<Longrightarrow> keeps_session s (Error x t)" "keeps_session s s"
  by (auto simp: keeps_session_def)

lemma op_chunk_keeps: "op_chunk e s pid out st = Inr (t, st') \<Longrightarrow> keeps_session s t"
  using keeps_verbatim[of s] by (auto simp: op_chunk_def bind_res_Inr_iff split: if_splits)

lemma op_post_keeps: "op_post e s path st = Inr (t, st') \<Longrightarrow> keeps_session s t"
  by (auto simp: op_post_def keeps_session_def bind_res_Inr_iff split: if_splits)

lemma op_list_keeps: "op_list e s st = Inr (t, st') \<Longrightarrow> keeps_session s t"
  by (auto simp: op_list_def keeps_session_def bind_res_Inr_iff split: if_splits)

lemma op_delete_keeps: "op_delete e s path st = Inr (t, st') \<Longrightarrow> keeps_session s t"
  by (auto simp: op_delete_def keeps_session_def bind_res_Inr_iff Let_def split: if_splits)

lemma keeps_debug: "keeps_session (vyatta_debug d s) t \<Longrightarrow> keeps_session s t"
  by (auto simp: keeps_session_def same_identity_def)

lemma keeps_debug_after [simp]: "keeps_session s t \<Longrightarrow> keeps_session s (vyatta_debug d t)"
  by (simp add: keeps_session_def)

lemma op_poll_id_keeps:
  assumes "op_poll_id e s pid st = Inr (t, st')"
  shows "keeps_session s t"
proof (cases "oe_init e 0")
  case True
  then obtain pd st1 where d: "get_process_details (oe_link e 0) (s_user s) pid st = Inr (pd, st1)"
    "(if p_id pd = [] then Inr (Error OPMODE_PROCESS_FINISHED s, st1)
        else if \<not> oe_init e 1 then Inr (vyatta_debug ''op:chunker init failed'' (Error SERVER_ERROR s), st1)
        else bind_res (get_chunk (oe_link e 1) (oe_einval e) (s_user s) pid st1) (\<lambda>(out, st2). op_chunk e s pid out st2)) = Inr (t, st')"
    using assms by (auto simp: op_poll_id_def bind_res_Inr_iff)
  show ?thesis using d(2)
    by (cases "p_id pd = []"; cases "oe_init e 1") (auto simp: bind_res_Inr_iff intro: op_chunk_keeps)
qed (use assms in \<open>auto simp: op_poll_id_def\<close>)

lemma op_poll_keeps:
  assumes "op_poll e s path st = Inr (t, st')"
  shows "keeps_session s t"
proof (cases "rfind_sub ''/'' path")
  case None
  then show ?thesis using assms by (auto simp: op_poll_def Let_def)
next
  case (Some pos)
  let ?s = "vyatta_debug ''get_bg_data: '' s"
  show ?thesis
  proof (cases "length (drop (pos + 1) path) = 16")
    case True
    then have "op_poll_id e (vyatta_debug ('': '' @ drop (pos + 1) path) ?s) (drop (pos + 1) path) st = Inr (t, st')"
      using assms Some by (simp add: op_poll_def Let_def)
    from keeps_debug[OF keeps_debug[OF op_poll_id_keeps[OF this]]] show ?thesis .
  next
    case False
    then show ?thesis using assms Some by (auto simp: op_poll_def)
  qed
qed

lemma op_keeps: "op_process e s st = Inr (t, st') \<Longrightarrow> keeps_session s t"
  using op_post_keeps op_poll_keeps op_list_keeps op_delete_keeps
  by (auto simp: op_process_def op_get_def op_template_def Let_def keeps_session_def split: if_splits prod.splits bool.splits)

interpretation op: mode_handler "op_process e" for e
proof (unfold_locales, goal_cases)
  case (1 s w)
  then show ?case by (simp add: op_process_def)
next
  case (2 s w t w')
  then show ?case using op_keeps by (simp add: keeps_session_def)
qed

section \<open>Lemmas: the requests on a table\<close>

lemma send_details_msg:
  assumes "sprintf1024 (DETAILS_MSG token user) = Inr buffer" "msg_text token" "msg_text user" "l_write l"
  shows "send l buffer (m, w) = Some (Some (handle_details token user (proc_coll m)), m, w)"
proof -
  have "NUL \<notin> set (DETAILS_MSG token user)" using assms(2,3) by (simp add: DETAILS_MSG_def msg_text_def)
  then have "c_str (take 1024 buffer) = DETAILS_MSG token user" using sprintf1024_sent[OF assms(1)] by simp
  then show ?thesis using assms(4) details_tags[OF assms(2,3)] by (simp add: send_def manager_process_def Let_def)
qed

lemma recv_nothing: "recv (Some []) = Inr []" "str_coll [] ''%2C'' = []"
  using recv_reply[of "[]"] by (simp_all add: str_coll_spec nonempty_fields_def remove_single_nl_def)

text \<open>Nothing is told about a command of somebody else, whether or not the connection works.\<close>

lemma details_foreign:
  assumes "mgr_ok m" "msg_text token" "msg_text user" "length (DETAILS_MSG token user) < 1024"
    and "map_option pd_user (map_of (proc_coll m) token) \<noteq> Some user"
  shows "get_process_details l user token (m, w) = Inr (proc_info_new, m, w)"
proof -
  obtain buffer where b: "sprintf1024 (DETAILS_MSG token user) = Inr buffer" using assms(4) by (auto simp: sprintf1024_def)
  have "handle_details token user (proc_coll m) = []"
    using handle_details_one[OF assms(1), of token user] assms(5) by (auto split: option.splits)
  then have "l_write l \<Longrightarrow> send l buffer (m, w) = Some (Some [], m, w)" using send_details_msg[OF b assms(2,3)] by simp
  moreover have "\<not> l_write l \<Longrightarrow> send l buffer (m, w) = None" by (simp add: send_def)
  ultimately show ?thesis using b recv_nothing msg_textD(3)[OF assms(2)] msg_textD(3)[OF assms(3)]
    by (cases "l_write l") (simp_all add: get_process_details_def)
qed

lemma get_details:
  assumes "link_ok l" "mgr_ok m" "msg_text token" "token \<noteq> []" "msg_text user" "user \<noteq> []"
    "length (DETAILS_MSG token user) < 1024" "\<And>pd. map_of (proc_coll m) token = Some pd \<Longrightarrow> pd_user pd = user \<Longrightarrow> clean_entry pd"
  shows "get_process_details l user token (m, w) =
    Inr (case map_of (proc_coll m) token of
      Some pd \<Rightarrow> if pd_user pd = user then entry_info pd else proc_info_new | None \<Rightarrow> proc_info_new, m, w)"
proof -
  let ?r = "handle_details token user (proc_coll m)"
  obtain buffer where b: "sprintf1024 (DETAILS_MSG token user) = Inr buffer" using assms(7) by (auto simp: sprintf1024_def)
  have s: "send l buffer (m, w) = Some (Some ?r, m, w)"
    using send_details_msg[OF b assms(3,5)] assms(1) by (simp add: link_ok_def)
  have f: "get_process_details l user token (m, w) = bind_res (recv (Some ?r)) (\<lambda>out.
      Inr (case str_coll out ''%2C'' of [] \<Rightarrow> proc_info_new | t # _ \<Rightarrow> parse_entry t, m, w))"
    using assms(1,4,6) b s msg_textD(3)[OF assms(3)] msg_textD(3)[OF assms(5)]
    by (simp add: get_process_details_def link_ok_def)
  note one = handle_details_one[OF assms(2), of token user]
  show ?thesis
  proof (cases "\<exists>pd. map_of (proc_coll m) token = Some pd \<and> pd_user pd = user")
    case True
    then obtain pd where pd: "map_of (proc_coll m) token = Some pd" "pd_user pd = user" by blast
    have cl: "clean_entry pd" by (rule assms(8)[OF pd])
    have r: "?r = concat (map (\<lambda>pd. entry_text pd @ ''%2C'') [pd])" using one pd by simp
    have "NUL \<notin> set ?r" "length ?r < 8192"
      using entry_text_set[OF cl] entry_text_length[OF mgr_ok_get[OF assms(2) pd(1)]] unfolding r by auto
    then have "recv (Some ?r) = Inr ?r" by (rule recv_reply)
    then show ?thesis using pd entries_coll[of "[pd]"] cl by (simp add: f r parse_entry_text)
  next
    case False
    then show ?thesis using details_foreign[OF assms(2,3,5,7), of l w] by (auto split: option.splits)
  qed
qed

lemma start_command:
  assumes "msg_text tok" "16 \<le> length tok" "msg_text cmd" "msg_text user" "l_write l" "length (COMMAND_MSG tok cmd user) < 1024"
  shows "mrc_start l (Some tok) user cmd (m, w) = Inr (tok, handle_command (l_env l) tok cmd user m w)"
proof -
  obtain buffer where b: "sprintf1024 (COMMAND_MSG tok cmd user) = Inr buffer" using assms(6) by (auto simp: sprintf1024_def)
  have "NUL \<notin> set (COMMAND_MSG tok cmd user)" using assms(1,3,4) by (simp add: COMMAND_MSG_def msg_text_def)
  then have c: "c_str (take 1024 buffer) = COMMAND_MSG tok cmd user" using sprintf1024_sent[OF b] by simp
  have "send l buffer (m, w) = Some (None, handle_command (l_env l) tok cmd user m w)"
    using assms(5) command_tags[OF assms(1,3,4)] by (simp add: send_def manager_process_def Let_def c)
  then show ?thesis using assms(2) b msg_textD(3)[OF assms(1)] msg_textD(3)[OF assms(3)] msg_textD(3)[OF assms(4)]
    by (simp add: mrc_start_def)
qed

definition op_request :: "Session \<Rightarrow> string \<Rightarrow> string \<Rightarrow> bool" where
  "op_request s meth rest \<longleftrightarrow> auth_type s \<noteq> AUTH_TYPE_NONE \<and> req_get s HTTP_REQ_METHOD = meth \<and>
     req_get s HTTP_REQ_URI = OP_REQ_ROOT @ ''/'' @ rest"

lemma op_post_path:
  assumes "op_request s ''POST'' rest" "translate_rest_to_cli (oe_unescape e) rest = Inr cmd" "oe_init e 0"
    "mrc_start (oe_link e 0) (oe_token e) (s_user s) cmd st = Inr (i, st')" "i \<noteq> []"
  shows "op_process e s st = Inr (Error CREATED (vyatta_debug ''op:1.2''
    (on_response (http_set HTTP_RESP_LOCATION (''rest/op/'' @ i)) s)), st')"
  using assms by (simp add: op_process_def op_request_def op_post_def rest_consts)

lemma op_get_path:
  assumes "op_request s ''GET'' pid" "length pid = 16" "CHR ''/'' \<notin> set pid" "oe_expand e (c_str pid) \<noteq> Some True"
  shows "op_process e s st = op_poll_id e (vyatta_debug ('': '' @ pid) (vyatta_debug ''get_bg_data: '' s)) pid st"
proof -
  let ?p = "OP_REQ_ROOT @ ''/'' @ pid"
  have v: "validate_op_cmd e ?p = (False, [])" using assms(4) by (auto simp: validate_op_cmd_def rest_consts split: option.splits)
  have "rfind_sub ''/'' ?p = Some (length OP_REQ_ROOT)" using rfind_sub_last[OF assms(3), of OP_REQ_ROOT] by simp
  then show ?thesis using assms v by (simp add: op_process_def op_request_def op_get_def op_poll_def Let_def rest_consts)
qed

lemma Error_OK_body: "http_get (response (Error OK s)) HTTP_BODY = http_get (response s) HTTP_BODY"
proof -
  have "json_serialize [] (error_json OK []) = []" by code_simp
  then show ?thesis by (simp add: Error_def Error_msg_body)
qed

lemma kill_command:
  assumes "msg_text tok" "tok \<noteq> []" "msg_text user" "user \<noteq> []" "l_write l" "length (DELETE_MSG tok user) < 1024"
  shows "mrc_kill l user tok (m, w) = Inr (kill_process (l_env l) tok m w)"
proof -
  obtain buffer where b: "sprintf1024 (DELETE_MSG tok user) = Inr buffer" using assms(6) by (auto simp: sprintf1024_def)
  have "NUL \<notin> set (DELETE_MSG tok user)" using assms(1,3) by (simp add: DELETE_MSG_def msg_text_def)
  then have "c_str (take 1024 buffer) = DELETE_MSG tok user" using sprintf1024_sent[OF b] by simp
  then have "send l buffer (m, w) = Some (None, kill_process (l_env l) tok m w)"
    using assms(5) delete_tags[OF assms(1,3)] by (simp add: send_def manager_process_def Let_def)
  then show ?thesis using b assms(2,4) msg_textD(3)[OF assms(1)] msg_textD(3)[OF assms(3)] by (simp add: mrc_kill_def)
qed

section \<open>The mode keeps the daemon's invariant\<close>

context message_closed
begin

lemma op_chunk_ok: "op_chunk e s pid out st = Inr (t, st') \<Longrightarrow> P (fst st) \<Longrightarrow> P (fst st')"
  by (auto simp: op_chunk_def bind_res_Inr_iff split: if_splits dest!: kill_ok)

lemma op_poll_id_ok:
  assumes "op_poll_id e s pid st = Inr (t, st')" "P (fst st)"
  shows "P (fst st')"
proof (cases "oe_init e 0")
  case True
  then obtain pd st1 where d: "get_process_details (oe_link e 0) (s_user s) pid st = Inr (pd, st1)"
    "(if p_id pd = [] then Inr (Error OPMODE_PROCESS_FINISHED s, st1)
        else if \<not> oe_init e 1 then Inr (vyatta_debug ''op:chunker init failed'' (Error SERVER_ERROR s), st1)
        else bind_res (get_chunk (oe_link e 1) (oe_einval e) (s_user s) pid st1) (\<lambda>(out, st2). op_chunk e s pid out st2)) = Inr (t, st')"
    using assms by (auto simp: op_poll_id_def bind_res_Inr_iff)
  have ok: "P (fst st1)" using details_ok[OF d(1) assms(2)] .
  show ?thesis using d(2) ok
    by (cases "p_id pd = []"; cases "oe_init e 1") (auto simp: bind_res_Inr_iff dest!: chunk_ok op_chunk_ok)
qed (use assms in \<open>auto simp: op_poll_id_def\<close>)

lemma op_process_ok:
  assumes "op_process e s st = Inr (t, st')" "P (fst st)"
  shows "P (fst st')"
proof -
  have "P (fst st')" if "op_post e s p st = Inr (t, st')" for p
    using that assms(2) by (auto simp: op_post_def bind_res_Inr_iff split: if_splits dest!: start_ok)
  moreover have "P (fst st')" if "op_list e s st = Inr (t, st')"
    using that assms(2) by (auto simp: op_list_def bind_res_Inr_iff split: if_splits dest!: processes_ok)
  moreover have "P (fst st')" if "op_delete e s p st = Inr (t, st')" for p
    using that assms(2) by (auto simp: op_delete_def bind_res_Inr_iff Let_def split: if_splits dest!: kill_ok)
  moreover have "P (fst st')" if "op_poll e s p st = Inr (t, st')" for p
    using that assms(2) op_poll_id_ok
    by (cases "rfind_sub ''/'' p") (auto simp: op_poll_def Let_def split: if_splits)
  ultimately show ?thesis using assms
    by (auto simp: op_process_def op_get_def Let_def split: if_splits prod.splits bool.splits)
qed

end

section \<open>Properties\<close>

text \<open>
  a POST of a command under \<open>/rest/op\<close> reaches the daemon unchanged: the first path component is
  the command word, the further components are decoded and quoted one by one; the daemon is given
  exactly that statement with the random token and the name of the authenticated user, and
  the answer is 201 with the token in its location.
\<close>

theorem op_post_starts:
  assumes "op_request s ''POST'' (join ''/'' ((c # word) # args))" "args \<noteq> []"
    and "slash_free word" "oe_unescape e word \<noteq> None" "\<forall>t \<in> set args. slash_free t \<and> oe_unescape e t = Some (de t)"
    and "cmd = (c # word) @ concat (map (\<lambda>t. quote_arg (c_str (de t))) args)"
    and "msg_text cmd" "msg_text tok" "msg_text (s_user s)" "16 \<le> length tok" "length (COMMAND_MSG tok cmd (s_user s)) < 1024"
    and "oe_token e = Some tok" "oe_init e 0" "l_write (oe_link e 0)"
  shows "\<exists>t. op_process e s (m, w) = Inr (t, handle_command (l_env (oe_link e 0)) tok cmd (s_user s) m w) \<and>
    http_get (response t) HTTP_RESP_CODE = ''201'' \<and> http_get (response t) HTTP_RESP_LOCATION = ''rest/op/'' @ tok"
proof -
  have tr: "translate_rest_to_cli (oe_unescape e) (join ''/'' ((c # word) # args)) = Inr cmd"
    using translate_words[OF assms(3,4,2,5)] assms(6) by simp
  have st: "mrc_start (oe_link e 0) (oe_token e) (s_user s) cmd (m, w) = Inr (tok, handle_command (l_env (oe_link e 0)) tok cmd (s_user s) m w)"
    using start_command[OF assms(8,10,7,9,14,11)] assms(12) by simp
  have "tok \<noteq> []" using assms(10) by auto
  from op_post_path[OF assms(1) tr assms(13) st this] show ?thesis by simp
qed

definition op_session :: "string \<Rightarrow> string \<Rightarrow> Session" where
  "op_session meth uri = (session_new False)\<lparr>request := http_set HTTP_REQ_METHOD meth (http_set HTTP_REQ_URI uri (http_new False)),
     s_user := ''bob'', auth_type := AUTH_TYPE_BASIC\<rparr>"

definition example_op_env :: op_env where
  "example_op_env = \<lparr>oe_unescape = Some, oe_init = (\<lambda>n. True), oe_link = (\<lambda>n. example_link), oe_token = Some ''0123456789ABCDEF'',
     oe_einval = False, oe_expand = (\<lambda>c. Some False), oe_updated = 0, oe_api = example_api\<rparr>"

lemma op_request_example [simp]: "op_request (op_session meth (OP_REQ_ROOT @ ''/'' @ rest)) meth rest"
  by (simp add: op_request_def op_session_def)

theorem op_post_starts_witness:
  "\<exists>t. op_process example_op_env (op_session ''POST'' (OP_REQ_ROOT @ ''/'' @ ''show/version'')) (example_manager [], example_world) =
      Inr (t, handle_command example_env ''0123456789ABCDEF'' (''show '' @ [APOS] @ ''version'' @ [APOS]) ''bob'' (example_manager []) example_world) \<and>
    http_get (response t) HTTP_RESP_CODE = ''201'' \<and> http_get (response t) HTTP_RESP_LOCATION = ''rest/op/0123456789ABCDEF''"
proof -
  have env: "l_env (oe_link example_op_env 0) = example_env" "l_write (oe_link example_op_env 0)" "oe_init example_op_env 0"
    "oe_token example_op_env = Some ''0123456789ABCDEF''" "oe_unescape example_op_env = Some" "s_user (op_session x y) = ''bob''" for x y
    by (simp_all add: example_op_env_def example_link_def op_session_def)
  have q: "(''show'' @ concat (map (\<lambda>t. quote_arg (c_str t)) [''version''])) = ''show '' @ [APOS] @ ''version'' @ [APOS]"
    by (simp add: quote_arg_def c_str_def)
  show ?thesis
    using op_post_starts[of "op_session ''POST'' (OP_REQ_ROOT @ ''/'' @ ''show/version'')" "CHR ''s''" "''how''" "[''version'']" example_op_env
        "\<lambda>t. t" "''show '' @ [APOS] @ ''version'' @ [APOS]" "''0123456789ABCDEF''" "example_manager []" example_world]
      op_request_example[of "''POST''" "''show/version''"] q
    by (simp add: env slash_free_def msg_text_def COMMAND_MSG_def)
qed

text \<open>
  A POST of a single word, without arguments, is answered with 201 and a location, although no command
  is started: the translation of a path without a slash is the empty statement, which the daemon
  ignores.
\<close>

theorem op_single_word_lost:
  assumes "op_request s ''POST'' word" "slash_free (drop 1 word)"
    and "msg_text tok" "msg_text (s_user s)" "16 \<le> length tok" "length (COMMAND_MSG tok [] (s_user s)) < 1024"
    and "oe_token e = Some tok" "oe_init e 0" "l_write (oe_link e 0)" "map_of (proc_coll m) tok = None"
  shows "\<exists>t. op_process e s (m, w) = Inr (t, m, w) \<and>
    http_get (response t) HTTP_RESP_CODE = ''201'' \<and> http_get (response t) HTTP_RESP_LOCATION = ''rest/op/'' @ tok"
proof -
  have "handle_command (l_env (oe_link e 0)) tok [] (s_user s) m w = (m, w)"
    using assms(10) by (simp add: handle_command_def start_new_def)
  then have st: "mrc_start (oe_link e 0) (oe_token e) (s_user s) [] (m, w) = Inr (tok, m, w)"
    using start_command[of tok "[]" "s_user s" "oe_link e 0" m w] assms(3-9) by (simp add: msg_text_def)
  have "tok \<noteq> []" using assms(5) by auto
  from op_post_path[OF assms(1) translate_single[OF assms(2)] assms(8) st this] show ?thesis by simp
qed

theorem op_single_word_lost_witness:
  "\<exists>t. op_process example_op_env (op_session ''POST'' (OP_REQ_ROOT @ ''/'' @ ''reboot'')) (example_manager [], example_world) =
      Inr (t, example_manager [], example_world) \<and>
    http_get (response t) HTTP_RESP_CODE = ''201'' \<and> http_get (response t) HTTP_RESP_LOCATION = ''rest/op/'' @ ''0123456789ABCDEF''"
  by (rule op_single_word_lost[where word = "''reboot''"])
    (simp_all add: op_request_example slash_free_def msg_text_def COMMAND_MSG_def example_op_env_def example_link_def op_session_def
      example_manager_def op_request_def)

text \<open>
  C20: asking for the output of a command that is unknown or was started by somebody else is answered
  with 410 and changes nothing, neither the daemon's table nor a file.
\<close>

theorem op_poll_isolated:
  assumes "op_request s ''GET'' pid" "length pid = 16" "CHR ''/'' \<notin> set pid" "oe_expand e (c_str pid) \<noteq> Some True"
    and "oe_init e 0" "mgr_ok m" "msg_text pid" "msg_text (s_user s)" "length (DETAILS_MSG pid (s_user s)) < 1024"
    and "map_option pd_user (map_of (proc_coll m) pid) \<noteq> Some (s_user s)"
  shows "\<exists>t. op_process e s (m, w) = Inr (t, m, w) \<and> http_get (response t) HTTP_RESP_CODE = ''410''"
proof -
  have "get_process_details (oe_link e 0) (s_user s) pid (m, w) = Inr (proc_info_new, m, w)"
    using details_foreign[OF assms(6-10)] .
  then show ?thesis using op_get_path[OF assms(1-4)] assms(5) by (simp add: op_poll_id_def proc_info_new_def)
qed

theorem op_poll_isolated_witness:
  "\<exists>t. op_process example_op_env (op_session ''GET'' (OP_REQ_ROOT @ ''/'' @ ''0123456789ABCDEF''))
      (example_manager [example_entry ''0123456789ABCDEF'' ''eve''], example_world) =
      Inr (t, example_manager [example_entry ''0123456789ABCDEF'' ''eve''], example_world) \<and> http_get (response t) HTTP_RESP_CODE = ''410''"
  by (rule op_poll_isolated[where pid = "''0123456789ABCDEF''"])
    (simp_all add: op_request_example msg_text_def DETAILS_MSG_def example_op_env_def example_link_def op_session_def
      example_manager_def op_request_def link_ok_def mgr_ok_def sorted_map_def entry_ok_def example_entry_def own_entries_def)

text \<open>
  the owner of a running command who asks for output is answered with 200 and, as plain text, the next
  piece of the output from the position reached so far, as it is when the server reads it, or with 202 when there is
  nothing new; the position moves by the size of a piece, or to the end of the output as the daemon
  saw it, never behind what was answered. A piece that reads \<open>END\<close> is excepted.
\<close>

theorem op_poll_delivers:
  assumes "op_request s ''GET'' pid" "length pid = 16" "CHR ''/'' \<notin> set pid" "oe_expand e (c_str pid) \<noteq> Some True"
    and "oe_init e 0" "oe_init e 1" "\<not> oe_einval e" "link_ok (oe_link e 0)" "poll_state (oe_link e 1) (s_user s) pid K_RUNNING m"
    and "length (DETAILS_MSG pid (s_user s)) < 1024"
    and "fs = l_after (oe_link e 1) (w_files w)" "appended pid (w_files w, fs)" "poll_off pid m \<le> length (out_text pid (w_files w))"
    and "piece = take CHUNKER_READ_SIZE (drop (poll_off pid m) (out_text pid fs))" "piece \<noteq> ''END''"
  shows "\<exists>t m' w'. op_process e s (m, w) = Inr (t, m', w') \<and>
    poll_off pid m' = min (poll_off pid m + CHUNKER_READ_SIZE) (length (out_text pid (w_files w))) \<and>
    poll_off pid m' \<le> poll_off pid m + length piece \<and>
    (if piece = [] then http_get (response t) HTTP_RESP_CODE = ''202''
     else http_get (response t) HTTP_RESP_CODE = ''200'' \<and> http_get (response t) HTTP_BODY = piece)"
proof -
  let ?l = "oe_link e 1" and ?u = "s_user s"
  obtain pd where pd: "link_ok ?l" "pollable m pid pd" "pd_user pd = ?u" using assms(9) by (auto simp: poll_state_def)
  then have p: "mgr_ok m" "msg_text pid" "msg_text ?u" "map_of (proc_coll m) pid = Some pd" "entry_ok (pid, pd)"
    using mgr_ok_get by (auto simp: pollable_def)
  then have ne: "pid \<noteq> []" "?u \<noteq> []" using pd(3) by (auto simp: entry_ok_def)
  have d: "get_process_details (oe_link e 0) ?u pid (m, w) = Inr (entry_info pd, m, w)"
    using get_details[OF assms(8) p(1,2) ne(1) p(3) ne(2) assms(10)] p(4) pd(2,3) by (simp add: pollable_def)
  have pid: "p_id (entry_info pd) \<noteq> []" using p(5) ne(1) by (simp add: entry_info_def entry_ok_def)
  obtain out m' w' where g: "get_chunk ?l False ?u pid (m, w) = Inr (out, m', w')"
    using get_chunk_poll[OF pd(1,2), of w] pd(3) by (auto split: prod.splits)
  have "get_chunk (?l\<lparr>l_after := (\<lambda>x. fs)\<rparr>) False ?u pid (m, w) = get_chunk ?l False ?u pid (m, w)"
    using get_chunk_poll[OF pd(1,2), of w] get_chunk_poll[of "?l\<lparr>l_after := (\<lambda>x. fs)\<rparr>", OF _ pd(2), of w] pd(1,3) assms(11)
    by (simp add: link_ok_def)
  then have pc: "poll_chunk ?l w ?u pid (w_files w, fs) m = (out, m')" using g by (simp add: poll_chunk_def)
  have out: "out = piece" "poll_off pid m' = min (poll_off pid m + CHUNKER_READ_SIZE) (length (out_text pid (w_files w)))"
    using poll_live_step(1,2)[OF assms(9,12), of w] assms(13,14) unfolding pc by auto
  have "length (out_text pid (w_files w)) \<le> length (out_text pid fs)"
    using assms(12) by (auto simp: appended_def dest: prefix_length_le)
  then have beh: "poll_off pid m' \<le> poll_off pid m + length piece" using out(2) assms(14) by auto
  have "op_process e s (m, w) = op_chunk e (vyatta_debug ('': '' @ pid) (vyatta_debug ''get_bg_data: '' s)) pid piece (m', w')"
    using op_get_path[OF assms(1-4)] assms(5-7) d pid g out by (simp add: op_poll_id_def)
  then show ?thesis using assms(15) out(2) beh by (auto simp: op_chunk_def Error_OK_body)
qed

definition example_output :: world where
  "example_output = example_world\<lparr>w_files := [chunk_file ''0123456789ABCDEF'' \<mapsto> ''hello'']\<rparr>"

lemma example_op_poll_state:
  "poll_state example_link ''bob'' ''0123456789ABCDEF'' K_RUNNING (example_manager [example_entry ''0123456789ABCDEF'' ''bob''])"
  by (simp add: poll_state_def link_ok_def example_link_def example_manager_def example_entry_def pollable_def
    mgr_ok_def sorted_map_def entry_ok_def clean_entry_def reply_text_def clean_field_def msg_text_def NEXT_MSG_def rest_consts)

theorem op_poll_delivers_witness:
  "\<exists>t m' w'. op_process example_op_env (op_session ''GET'' (OP_REQ_ROOT @ ''/'' @ ''0123456789ABCDEF''))
      (example_manager [example_entry ''0123456789ABCDEF'' ''bob''], example_output) = Inr (t, m', w') \<and>
    http_get (response t) HTTP_RESP_CODE = ''200'' \<and> http_get (response t) HTTP_BODY = ''hello''"
proof -
  let ?k = "''0123456789ABCDEF''"
  let ?m = "example_manager [example_entry ?k ''bob'']" and ?s = "op_session ''GET'' (OP_REQ_ROOT @ ''/'' @ ?k)"
  note ps = example_op_poll_state
  have off: "poll_off ?k ?m = 0" by (simp add: poll_off_def example_manager_def example_entry_def)
  have out: "out_text ?k (w_files example_output) = ''hello''" "appended ?k (w_files example_output, w_files example_output)"
    by (simp_all add: out_text_def file_text_def example_output_def out_good_def appended_def)
  have env: "oe_link example_op_env n = example_link" "l_after example_link y = y" "link_ok example_link"
    "oe_init example_op_env n" "\<not> oe_einval example_op_env"
    "oe_expand example_op_env x = Some False" "s_user ?s = ''bob''" for n x y
    by (simp_all add: example_op_env_def op_session_def example_link_def link_ok_def)
  have "\<exists>t m' w'. op_process example_op_env ?s (?m, example_output) = Inr (t, m', w') \<and>
    poll_off ?k m' = min (poll_off ?k ?m + CHUNKER_READ_SIZE) (length (out_text ?k (w_files example_output))) \<and>
    poll_off ?k m' \<le> poll_off ?k ?m + length ''hello'' \<and>
    (if ''hello'' = [] then http_get (response t) HTTP_RESP_CODE = ''202''
     else http_get (response t) HTTP_RESP_CODE = ''200'' \<and> http_get (response t) HTTP_BODY = ''hello'')"
    by (rule op_poll_delivers[where pid = ?k and fs = "w_files example_output", OF op_request_example])
      (use ps off out env in \<open>simp_all add: DETAILS_MSG_def rest_consts\<close>)
  then show ?thesis by auto
qed

end
