(* ===== verification/Conf_Mode.thy ===== *)
theory Conf_Mode
  imports Mode_Base Configuration
begin

text \<open>
  \<open>confmode.cc\<close>: configuration sessions. A POST creates a session, with a description file that
  names its owner, or runs an action in it; a PUT changes it, a GET lists the user's sessions or shows a
  node, a DELETE ends a session. The configuration daemon, \<open>popen\<close>, the directory listing and the
  URL coder are parameters; the files, the shell commands run and the calls that change a
  session of the daemon are the state.
\<close>

section \<open>Environment and state\<close>

text \<open>
  \<open>ce_commit\<close> and \<open>ce_save\<close> are the answer of the daemon and the error text, both of which may be
  null. \<open>ce_stat\<close> is the modification and the change time of a file.
\<close>

record conf_env =
  ce_debug :: bool
  ce_escape :: "string \<Rightarrow> string option"
  ce_unescape :: "string \<Rightarrow> string option"
  ce_api :: conf_api
  ce_dir :: "string list option"
  ce_stat :: "string \<Rightarrow> (64 word \<times> 64 word) option"
  ce_open :: bool
  ce_changed :: "string \<Rightarrow> bool"
  ce_commit :: "string \<Rightarrow> string option \<times> string option"
  ce_save :: "string \<Rightarrow> string option \<times> string option"
  ce_token :: "string option"
  ce_write :: write_outcome
  ce_popen :: "string \<Rightarrow> (string list \<times> nat) option"

datatype configd_call = Sess_setup string | Sess_discard string | Sess_teardown string | Sess_commit string | Sess_save string

record conf_state =
  cs_files :: files
  cs_cmds :: "string list"
  cs_calls :: "configd_call list"

definition add_call :: "configd_call \<Rightarrow> conf_state \<Rightarrow> conf_state" where
  "add_call c st = st\<lparr>cs_calls := cs_calls st @ [c]\<rparr>"

definition run_execute :: "conf_env \<Rightarrow> string \<Rightarrow> string \<Rightarrow> conf_state \<Rightarrow> (nat \<times> string) \<times> conf_state" where
  "run_execute e command stdout st =
     (execute (ce_popen e) command stdout True, st\<lparr>cs_cmds := cs_cmds st @ [c_str command]\<rparr>)"

section \<open>Sessions of the daemon\<close>

definition setup_session :: "conf_env \<Rightarrow> string \<Rightarrow> conf_state \<Rightarrow> conf_state" where
  "setup_session e sid st = (if ce_open e then add_call (Sess_setup sid) st else st)"

definition discard_session :: "conf_env \<Rightarrow> string \<Rightarrow> bool \<Rightarrow> conf_state \<Rightarrow> conf_state" where
  "discard_session e cid exit_session st =
     (if cid = [] \<or> \<not> ce_open e then st
      else let st1 = add_call (Sess_discard (conv_conf_id cid)) st in
      if exit_session
      then (add_call (Sess_teardown (conv_conf_id cid)) st1)\<lparr>cs_files := (cs_files st1)(c_str (VYATTA_MODIFY_FILE @ cid) := None)\<rparr>
      else st1)"

definition is_configd_sess_changed :: "conf_env \<Rightarrow> string \<Rightarrow> bool" where
  "is_configd_sess_changed e sid \<longleftrightarrow> ce_open e \<and> ce_changed e sid"

section \<open>The session a request is for\<close>

definition path_id :: "string \<Rightarrow> string" where
  "path_id with_id =
     (case find_sub ''/'' (drop 1 with_id) of Some pos \<Rightarrow> take pos (drop 1 with_id) | None \<Rightarrow> drop 1 with_id)"

text \<open>The path after the root, the id, the owner and the description; None when no session has
  the given id or description.\<close>

definition conf_target ::
    "conf_env \<Rightarrow> files \<Rightarrow> string \<Rightarrow> string \<Rightarrow> string \<Rightarrow> (string \<times> string \<times> string \<times> string) option" where
  "conf_target e fs meth user path =
     (if length path \<le> length CONF_REQ_ROOT then Some ([], [], user, [])
      else
        (let with_id = drop (length CONF_REQ_ROOT) path; cid = path_id with_id
         in case read_conf_modify_file fs cid (user, []) of
              (True, user1, tag) \<Rightarrow> Some (with_id, cid, user1, tag)
            | (False, user1, tag) \<Rightarrow>
                if meth = ''POST'' then Some (with_id, cid, user1, cid)
                else (case read_conf_modify_file_from_tag (ce_dir e) fs cid user1 cid of
                        (True, cid1) \<Rightarrow> Some (with_id, cid1, user1, cid)
                      | (False, _) \<Rightarrow> None)))"

section \<open>GET\<close>

abbreviation jfield :: "string \<Rightarrow> string \<Rightarrow> string" where
  "jfield k v \<equiv> [QUOTE] @ k @ [QUOTE, CHR '':'', QUOTE] @ v @ [QUOTE]"

definition conf_item :: "string \<Rightarrow> string \<Rightarrow> string \<Rightarrow> string \<Rightarrow> string \<Rightarrow> string \<Rightarrow> string" where
  "conf_item cid user description started mods updated =
     ''{'' @ jfield ''id'' cid @ '','' @ jfield ''username'' user @ '','' @ jfield ''description'' description @ '',''
     @ jfield ''started'' started @ '','' @ jfield ''modified'' mods @ '','' @ jfield ''updated'' updated @ ''}''"

definition list_entry :: "conf_env \<Rightarrow> files \<Rightarrow> string \<Rightarrow> string \<Rightarrow> JSON \<Rightarrow> JSON" where
  "list_entry e fs user d_name json =
     (if length d_name < 22 then json
      else if \<not> prefix ''.vyattamodify_'' d_name then json
      else
        (let cid = drop 14 d_name in
         case read_conf_modify_file fs cid ([], []) of
           (False, _) \<Rightarrow> json
         | (True, conf_user, description) \<Rightarrow>
             if conf_user \<noteq> user then json
             else
               (let (started, updated) = (case ce_stat e (CONFIG_TMP_DIR @ d_name) of
                        Some (mt, ct) \<Rightarrow> (fmt_ld mt, fmt_ld ct) | None \<Rightarrow> (''0'', ''0''));
                    mods = (if is_configd_sess_changed e (conv_conf_id cid) then ''true'' else ''false'')
                in add_array ''session'' (conf_item cid user description started mods updated) True json)))"

definition conf_list :: "conf_env \<Rightarrow> files \<Rightarrow> Session \<Rightarrow> Session" where
  "conf_list e fs s =
     (case ce_dir e of None \<Rightarrow> Error SERVER_ERROR s
      | Some ds \<Rightarrow> on_response (http_set HTTP_BODY (json_serialize []
          (fold (list_entry e fs (s_user s)) ds (add_value ''message'' '' '' json_new)))) s)"

fun state_str :: "CONF_STATE \<Rightarrow> string" where
  "state_str k_NONE = ''none''"
| "state_str k_SET = ''set''"
| "state_str k_DELETE = ''delete''"
| "state_str k_ACTIVE = ''active''"

fun disable_str :: "DISABLE_STATE \<Rightarrow> string" where
  "disable_str k_ENABLE = ''enable''"
| "disable_str k_DISABLE = ''disable''"
| "disable_str k_DISABLE_LOCAL = ''disable-local''"
| "disable_str k_ENABLE_LOCAL = ''enable-local''"

text \<open>One line of value help. A count that is a negative difference takes the whole rest.\<close>

definition wrap_count :: "nat \<Rightarrow> nat \<Rightarrow> nat option" where
  "wrap_count n k = (if k \<le> n then Some (n - k) else None)"

definition val_help_item :: "string \<Rightarrow> string option res" where
  "val_help_item l =
     (case find_sub '';'' l of None \<Rightarrow> Inr None
      | Some pos1 \<Rightarrow>
          bind_res (substr l (pos1 + 2) (wrap_count (length l) 3)) (\<lambda>h.
            let help = mass_replace (mass_replace h [QUOTE] [BSLASH, QUOTE]) [NL] [];
                desc = take pos1 l
            in case find_sub '':'' desc of
                 None \<Rightarrow> Inr (Some (''{'' @ jfield ''type'' desc @ '','' @ jfield ''vals'' '' '' @ '','' @ jfield ''help'' help @ ''}''))
               | Some pos2 \<Rightarrow>
                   bind_res (substr desc (pos2 + 1) (wrap_count (length desc) 2)) (\<lambda>val.
                     Inr (Some (''{'' @ jfield ''type'' (take pos2 desc) @ '','' @ jfield ''vals'' val @ '','' @ jfield ''help'' help @ ''}'')))))"

fun val_help_loop :: "string list \<Rightarrow> JSON \<Rightarrow> JSON res" where
  "val_help_loop [] json = Inr json"
| "val_help_loop (l # ls) json =
     bind_res (val_help_item l) (\<lambda>r. val_help_loop ls (case r of Some t \<Rightarrow> add_array ''val_help'' t True json | None \<Rightarrow> json))"

definition add_flag :: "string \<Rightarrow> bool \<Rightarrow> JSON \<Rightarrow> JSON" where
  "add_flag k b json = (if b then add_value k ''true'' json else json)"

definition child_item :: "NodeParams \<Rightarrow> string" where
  "child_item n = ''{'' @ jfield ''name'' (np_name n) @ '','' @ jfield ''state'' (state_str (np_state n)) @ '',''
     @ jfield ''deactivate_state'' (disable_str (np_disabled_state n)) @ ''}''"

definition node_head :: "conf_env \<Rightarrow> TemplateParams \<Rightarrow> JSON res" where
  "node_head e p =
     (let j1 = add_array ''type'' (g_type_str (tp_type p)) False (add_value ''help'' (tp_help p) json_new);
          j2 = (if g_type_str (tp_type2 p) \<noteq> ''none'' then add_array ''type'' (g_type_str (tp_type2 p)) False j1 else j1);
          j3 = (if tp_default p \<noteq> [NL] then add_value ''default'' (tp_default p) j2 else j2)
      in case ce_escape e (mass_replace (tp_comp_help p) [QUOTE] [BSLASH, QUOTE]) of
           None \<Rightarrow> Inl NullString
         | Some enc \<Rightarrow> Inr (add_value ''comp_help'' (c_str enc) j3))"

text \<open>The member \<open>allowed\<close> is never set anywhere.\<close>

definition node_flags :: "TemplateParams \<Rightarrow> JSON \<Rightarrow> JSON" where
  "node_flags p j =
     (let j1 = add_flag ''multi'' (tp_multi p) (add_value ''allowed'' [] j);
          j2 = (if 0 < tp_multi_limit p then add_value ''multi_limit'' (fmt_ld (tp_multi_limit p)) j1 else j1);
          j3 = add_flag ''end'' (tp_end p) j2;
          j4 = add_flag ''action'' (tp_action p) j3;
          j5 = add_flag ''mandatory'' (tp_mandatory p) j4
      in add_flag ''secret'' (tp_secret p) j5)"

definition node_data :: "TemplateParams \<Rightarrow> JSON \<Rightarrow> JSON" where
  "node_data p j =
     (let n = tp_data p;
          j1 = add_value ''state'' (state_str (np_state n)) (add_value ''name'' (np_name n) j);
          j2 = add_value ''is_changed'' (np_is_changed n) j1;
          j3 = add_value ''deactivate_state'' (disable_str (np_disabled_state n)) j2;
          j4 = fold (\<lambda>c. add_array ''children'' (child_item c) True) (tp_children p) j3
      in fold (\<lambda>x j. if x = [] then j else add_array ''enum'' x (contains x [QUOTE]) j) (tp_enum p) j4)"

definition node_json :: "conf_env \<Rightarrow> TemplateParams \<Rightarrow> JSON res" where
  "node_json e p =
     bind_res (node_head e p) (\<lambda>j.
     bind_res (val_help_loop (tp_val_help p) j) (\<lambda>j1.
       Inr (node_data p (node_flags p j1))))"

definition conf_node :: "conf_env \<Rightarrow> Session \<Rightarrow> string \<Rightarrow> string \<Rightarrow> string \<Rightarrow> Session res" where
  "conf_node e s with_id cid user =
     (if user \<noteq> s_user s then Inr (Error VALIDATION_FAILURE s)
      else bind_res (substr with_id 1 None) (\<lambda>t.
        let p1 = (case find_sub ''/'' t of Some pos \<Rightarrow> drop (pos + 2) with_id | None \<Rightarrow> t);
            data_path = (if prefix '' '' p1 then drop 1 p1 else p1)
        in case get_configured_node (ce_api e) (ce_escape e) data_path cid TemplateParams_new of
             (False, _) \<Rightarrow> Inr (Error COMMAND_NOT_FOUND s)
           | (True, p) \<Rightarrow>
               bind_res (node_json e p) (\<lambda>j. Inr (on_response (http_set HTTP_BODY (json_serialize [] j)) s))))"

section \<open>PUT\<close>

definition shell_env :: string where
  "shell_env = concat (map (\<lambda>v. ''export '' @ v @ '';'')
     [''VYATTA_TEMPLATE_LEVEL=/'', ''VYATTA_MOD_NAME=.modified'', ''vyatta_datadir=/opt/vyatta/share'',
      ''vyatta_sysconfdir=/opt/vyatta/etc'', ''vyatta_sharedstatedir=/opt/vyatta/com'', ''VYATTA_TAG_NAME=node.tag'',
      ''vyatta_sbindir=/opt/vyatta/sbin'', ''VYATTA_CFG_GROUP_NAME=vyattacfg'', ''vyatta_bindir=/opt/vyatta/bin'',
      ''vyatta_libdir=/opt/vyatta/lib'', ''VYATTA_EDIT_LEVEL=/'', ''vyatta_libexecdir=/opt/vyatta/libexec'',
      ''vyatta_localstatedir=/opt/vyatta/var'', ''vyatta_prefix=/opt/vyatta'', ''vyatta_datarootdir=/opt/vyatta/share'',
      ''vyatta_configdir=/opt/vyatta/config'', ''UNIONFS=unionfs'', ''vyatta_infodir=/opt/vyatta/share/info'',
      ''PATH=/usr/local/sbin:/usr/local/bin:/usr/sbin:/usr/bin:/sbin:/bin'', ''COMMIT_VIA=gui2_rest'',
      ''VYATTA_OUTPUT_ERROR_LOCATION=TRUE'', ''vyatta_localedir=/opt/vyatta/share/locale''])"

definition session_command :: "string \<Rightarrow> string" where
  "session_command sid =
     shell_env @ ''export VYATTA_ACTIVE_CONFIGURATION_DIR=/active;''
     @ ''export VYATTA_CONFIG_TMP=/session/'' @ sid @ CONFIG_TMP_DIR @ '';''
     @ ''export VYATTA_CHANGES_ONLY_DIR=/session/'' @ sid @ LOCAL_CHANGES_ONLY @ '';''
     @ ''export vyatta_cfg_templates='' @ CONF_COMMAND_DIR @ '';''
     @ ''export VYATTA_CONFIG_TEMPLATE='' @ CONF_COMMAND_DIR @ '';''
     @ ''export VYATTA_TEMP_CONFIG_DIR=/session/'' @ sid @ LOCAL_CONFIG_DIR @ '';''
     @ ''export VYATTA_CONFIG_SID='' @ sid"

definition is_edit :: "string \<Rightarrow> bool" where
  "is_edit cmd \<longleftrightarrow> prefix ''set'' (c_str cmd) \<or> prefix ''delete'' (c_str cmd) \<or> prefix ''comment'' (c_str cmd)"

text \<open>Anything but an edit is cut at a semicolon.\<close>

definition cut_command :: "string \<Rightarrow> string" where
  "cut_command cmd = (case find_sub '';'' cmd of Some pos \<Rightarrow> if is_edit cmd then cmd else take pos cmd | None \<Rightarrow> cmd)"

definition put_command :: "string \<Rightarrow> string option" where
  "put_command cmd =
     (if is_edit cmd then Some (''/usr/bin/cfgcli -print '' @ cmd)
      else if prefix ''activate'' (c_str cmd) \<or> prefix ''deactivate'' (c_str cmd)
      then Some (''/opt/vyatta/sbin/vyatta-activate-config.pl '' @ cmd) else None)"

definition escape_error :: "string \<Rightarrow> string" where
  "escape_error t = mass_replace (mass_replace t [QUOTE] [BSLASH, QUOTE]) [NL] [BSLASH, CHR ''n'']"

definition conf_put :: "conf_env \<Rightarrow> Session \<Rightarrow> string \<Rightarrow> string \<Rightarrow> string \<Rightarrow> conf_state \<Rightarrow> (Session \<times> conf_state) res" where
  "conf_put e s with_id cid user st =
     (if user \<noteq> s_user s then Inr (Error AUTHORIZATION_FAILURE s, st)
      else if with_id = [] then Inr (Error VALIDATION_FAILURE s, st)
      else case find_sub ''/'' (drop 1 with_id) of None \<Rightarrow> Inr (Error VALIDATION_FAILURE s, st)
      | Some pos \<Rightarrow>
          if length with_id < 2 then Inr (Error VALIDATION_FAILURE s, st)
          else bind_res (translate_rest_to_cli (ce_unescape e) (drop (pos + 2) with_id)) (\<lambda>cli.
            let cmd = cut_command cli in
            case put_command cmd of
              None \<Rightarrow> Inr (Error COMMAND_NOT_FOUND (if ce_debug e
                then on_response (http_set HTTP_BODY (json_serialize [] (add_value ''cmd'' cmd json_new))) s else s), st)
            | Some run \<Rightarrow>
                (case run_execute e (session_command (conv_conf_id cid) @ '';'' @ run @ '' 2>&1'') [] st of
                   ((status, out), st1) \<Rightarrow>
                     Inr (if status \<noteq> 0 then Error_msg CONFIGURATION_ERROR (escape_error out) s else s, st1))))"

section \<open>DELETE\<close>

definition conf_delete :: "conf_env \<Rightarrow> Session \<Rightarrow> string \<Rightarrow> string \<Rightarrow> conf_state \<Rightarrow> Session \<times> conf_state" where
  "conf_delete e s cid user st =
     (if user \<noteq> s_user s then (Error VALIDATION_FAILURE s, st)
      else let s1 = on_response (http_set HTTP_BODY (json_serialize [] (add_value ''message'' '' '' json_new))) s
           in (if ce_debug e then on_response (http_set HTTP_BODY ''delete configuration mode data'') s1 else s1,
               discard_session e cid True st))"

section \<open>POST\<close>

definition conf_create :: "conf_env \<Rightarrow> Session \<Rightarrow> string \<Rightarrow> string \<Rightarrow> conf_state \<Rightarrow> (Session \<times> conf_state) res" where
  "conf_create e s with_id user st =
     (let description = drop 1 with_id in
      if description \<noteq> [] \<and> fst (read_conf_modify_file_from_tag (ce_dir e) (cs_files st) description user [])
      then Inr (Error CONFMODE_DUP_DESC_ERROR s, st)
      else case ce_token e of None \<Rightarrow> Inl Hangs
      | Some cid \<Rightarrow>
          if length cid < 16 then Inr (Error VALIDATION_FAILURE s, st)
          else let st1 = setup_session e (conv_conf_id cid) st in
          case create_conf_modify_file (ce_write e) (cs_files st1) cid (s_user s) description of
            (False, fs) \<Rightarrow> Inr (Error SERVER_ERROR s, st1\<lparr>cs_files := fs\<rparr>)
          | (True, fs) \<Rightarrow>
              Inr (Error CREATED (on_response (http_set HTTP_RESP_LOCATION (''rest/conf/'' @ cid)) s), st1\<lparr>cs_files := fs\<rparr>))"

definition commit_or_save :: "conf_env \<Rightarrow> Session \<Rightarrow> string \<Rightarrow> string \<Rightarrow> string \<Rightarrow> conf_state \<Rightarrow> (Session \<times> conf_state) res" where
  "commit_or_save e s action sid command st =
     (if \<not> ce_open e then Inr (s, st)
      else
        (let (buf, err) = (if action = ''commit'' then ce_commit e sid else ce_save e sid);
             st1 = add_call (if action = ''commit'' then Sess_commit sid else Sess_save sid) st;
             s1 = (if buf = None then Error CONFIGURATION_ERROR s else s)
         in case (if buf = None then err else buf) of None \<Rightarrow> Inl NullString
            | Some t \<Rightarrow>
                (let out = (if c_str t = [] \<and> action \<noteq> ''commit'' then ''Saving configuration ... Done'' else c_str t);
                     j = add_value ''message'' (escape_error out) json_new;
                     j1 = (if ce_debug e then add_value ''command'' command j else j)
                 in Inr (on_response (http_set HTTP_BODY (json_serialize [] j1)) s1, st1))))"

definition conv_url :: "conf_env \<Rightarrow> string \<Rightarrow> string res" where
  "conv_url e t = (case ce_unescape e t of None \<Rightarrow> Inl NullString | Some d \<Rightarrow> Inr (c_str d))"

definition file_arg :: "nat \<Rightarrow> string \<Rightarrow> string" where
  "file_arg n action = [APOS] @ mass_replace (drop n action) ''/'' '' '' @ [APOS]"

text \<open>The shell text of an action; None for an unknown one.\<close>

definition action_text :: "conf_env \<Rightarrow> string \<Rightarrow> string option res" where
  "action_text e action =
     (if 4 < length action \<and> take 4 action = ''save'' then
        bind_res (conv_url e (''umask 0002 ; /opt/vyatta/sbin/vyatta-save-config.pl '' @ file_arg 5 action @ '' --no-defaults''))
          (\<lambda>t. Inr (Some t))
      else if 4 < length action \<and> take 5 action = ''merge'' then
        (if 5 < length action
         then bind_res (conv_url e (''/opt/vyatta/sbin/vyatta-load-config.pl --merge '' @ file_arg 6 action)) (\<lambda>t. Inr (Some t))
         else Inr (Some ''/opt/vyatta/sbin/vyatta-load-config.pl --merge''))
      else if 3 < length action \<and> take 4 action = ''load'' then
        (if 4 < length action
         then bind_res (conv_url e (''/opt/vyatta/sbin/vyatta-load-config.pl '' @ file_arg 5 action)) (\<lambda>t. Inr (Some t))
         else Inr (Some ''/opt/vyatta/sbin/vyatta-load-config.pl''))
      else if 7 < length action \<and> take 8 action = ''show-all'' then
        Inr (Some (''/bin/cli-shell-api showConfig --show-show-defaults''
          @ (if length action = 8 then [] else CHR '' '' # file_arg 9 action)))
      else if 3 < length action \<and> take 4 action = ''show'' then
        Inr (Some (''/bin/cli-shell-api showConfig'' @ (if length action = 4 then [] else CHR '' '' # file_arg 5 action)))
      else Inr None)"

definition escape_output :: "string \<Rightarrow> string" where
  "escape_output t =
     (let t1 = mass_replace t [BSLASH] [BSLASH, BSLASH];
          t2 = mass_replace t1 [QUOTE] [BSLASH, QUOTE];
          t3 = mass_replace t2 [CR] [BSLASH, CHR ''r''];
          t4 = mass_replace t3 [NL] [BSLASH, CHR ''n'']
      in mass_replace t4 [TAB] [BSLASH, CHR ''t''])"

definition run_action :: "conf_env \<Rightarrow> Session \<Rightarrow> string \<Rightarrow> conf_state \<Rightarrow> Session \<times> conf_state" where
  "run_action e s command st =
     (case run_execute e command '' '' st of
        ((status, out), st1) \<Rightarrow>
          (let s1 = (if status \<noteq> 0 then Error CONFIGURATION_ERROR (if ce_debug e
                 then on_response (http_set HTTP_BODY (json_serialize [] (add_value ''cmd'' command json_new))) s else s) else s);
               j = add_value ''message'' (escape_output out) json_new;
               j1 = (if ce_debug e then add_value ''command'' command j else j)
           in (on_response (http_set HTTP_BODY (json_serialize [] j1)) s1, st1)))"

definition conf_action :: "conf_env \<Rightarrow> Session \<Rightarrow> string \<Rightarrow> string \<Rightarrow> conf_state \<Rightarrow> (Session \<times> conf_state) res" where
  "conf_action e s action cid st =
     (let sid = conv_conf_id cid; command = session_command sid in
      if action = ''commit'' \<or> action = ''save'' then commit_or_save e s action sid command st
      else if action = ''discard'' then Inr (s, discard_session e cid False st)
      else bind_res (action_text e action) (\<lambda>r.
        case r of None \<Rightarrow> Inr (Error VALIDATION_FAILURE s, st)
        | Some t \<Rightarrow> Inr (run_action e (vyatta_debug ''CONF:H'' s) (command @ '';'' @ t @ '' 2>&1'') st)))"

definition conf_post ::
    "conf_env \<Rightarrow> Session \<Rightarrow> string \<Rightarrow> string \<Rightarrow> string \<Rightarrow> string \<Rightarrow> conf_state \<Rightarrow> (Session \<times> conf_state) res" where
  "conf_post e s0 with_id cid user tag st =
     (let s = vyatta_debug ''CONF:C'' s0 in
      case (with_id, find_sub ''/'' (drop 1 with_id)) of
        (c # r, Some pos) \<Rightarrow>
          (case (if tag = cid then read_conf_modify_file_from_tag (ce_dir e) (cs_files st) tag user cid else (True, cid)) of
             (False, _) \<Rightarrow> Inr (Error VALIDATION_FAILURE s, st)
           | (True, cid1) \<Rightarrow>
               if user \<noteq> s_user s then Inr (Error AUTHORIZATION_FAILURE s, st)
               else conf_action e (vyatta_debug ''CONF:G'' s) (drop (pos + 2) with_id) cid1 st)
      | _ \<Rightarrow> conf_create e (vyatta_debug ''CONF:D'' s) with_id user st)"

section \<open>\<open>ConfMode::process\<close>\<close>

definition conf_get :: "conf_env \<Rightarrow> Session \<Rightarrow> string \<Rightarrow> string \<Rightarrow> string \<Rightarrow> string \<Rightarrow> conf_state \<Rightarrow> (Session \<times> conf_state) res" where
  "conf_get e s path with_id cid user st =
     (if path = CONF_REQ_ROOT then Inr (conf_list e (cs_files st) s, st)
      else bind_res (conf_node e s with_id cid user) (\<lambda>t. Inr (t, st)))"

definition conf_method ::
    "conf_env \<Rightarrow> Session \<Rightarrow> string \<Rightarrow> string \<Rightarrow> string \<times> string \<times> string \<times> string \<Rightarrow> conf_state \<Rightarrow> (Session \<times> conf_state) res" where
  "conf_method e s meth path = (\<lambda>(with_id, cid, user, tag) st.
     if meth = ''GET'' then conf_get e s path with_id cid user st
     else if meth = ''PUT'' then conf_put e s with_id cid user st
     else if meth = ''DELETE'' then Inr (conf_delete e s cid user st)
     else if meth = ''POST'' then conf_post e s with_id cid user tag st
     else Inr (Error VALIDATION_FAILURE s, st))"

definition conf_process :: "conf_env \<Rightarrow> Session \<Rightarrow> conf_state \<Rightarrow> (Session \<times> conf_state) res" where
  "conf_process e s0 st =
     (if auth_type s0 = AUTH_TYPE_NONE then Inr (Error AUTHORIZATION_FAILURE s0, st)
      else let s = vyatta_debug ''CONF:A'' s0; path = req_get s HTTP_REQ_URI; meth = req_get s HTTP_REQ_METHOD in
      if path = [] then Inr (Error VALIDATION_FAILURE (vyatta_debug ''conf:1'' s), st)
      else if length path < length CONF_REQ_ROOT then Inr (Error VALIDATION_FAILURE s, st)
      else if meth = [] then Inr (Error VALIDATION_FAILURE s, st)
      else let s1 = vyatta_debug ''CONF:B'' s in
      if s_access_level s1 \<noteq> k_VYATTACFG then Inr (Error AUTHORIZATION_FAILURE s1, st)
      else case conf_target e (cs_files st) meth (s_user s1) path of
        None \<Rightarrow> Inr (Error VALIDATION_FAILURE s1, st)
      | Some tgt \<Rightarrow> conf_method e s1 meth path tgt st)"

section \<open>The mode keeps the contract\<close>

lemma run_action_keeps: "run_action e s command st = (t, st') \<Longrightarrow> same_identity s t \<and> (wf_session s \<longrightarrow> wf_session t)"
  by (auto simp: run_action_def Let_def split: prod.splits if_splits)

lemma commit_or_save_keeps:
  "commit_or_save e s action sid command st = Inr (t, st') \<Longrightarrow> same_identity s t \<and> (wf_session s \<longrightarrow> wf_session t)"
  by (auto simp: commit_or_save_def Let_def split: prod.splits if_splits option.splits)

lemma conf_action_keeps:
  assumes "conf_action e s action cid st = Inr (t, st')"
  shows "same_identity s t \<and> (wf_session s \<longrightarrow> wf_session t)"
proof -
  consider "commit_or_save e s action (conv_conf_id cid) (session_command (conv_conf_id cid)) st = Inr (t, st')" | "t = s"
    | "t = Error VALIDATION_FAILURE s"
    | c where "run_action e (vyatta_debug ''CONF:H'' s) c st = (t, st')"
    using assms by (auto simp: conf_action_def Let_def bind_res_Inr_iff split: if_splits option.splits)
  then show ?thesis
  proof cases
    case (4 c)
    show ?thesis using run_action_keeps[OF 4] by (auto simp: same_identity_def)
  qed (auto dest: commit_or_save_keeps)
qed

lemma conf_create_keeps: "conf_create e s with_id user st = Inr (t, st') \<Longrightarrow> same_identity s t \<and> (wf_session s \<longrightarrow> wf_session t)"
  by (auto simp: conf_create_def Let_def split: prod.splits if_splits option.splits bool.splits)

lemma conf_post_cases:
  assumes "conf_post e s with_id cid user tag st = Inr (t, st')"
  obtains "conf_create e (vyatta_debug ''CONF:D'' (vyatta_debug ''CONF:C'' s)) with_id user st = Inr (t, st')"
    | x where "t = Error x (vyatta_debug ''CONF:C'' s)" "st' = st"
    | pos cid1 where "conf_action e (vyatta_debug ''CONF:G'' (vyatta_debug ''CONF:C'' s)) (drop (pos + 2) with_id) cid1 st = Inr (t, st')"
        "user = s_user s"
proof (cases with_id)
  case Nil
  then show ?thesis using assms that(1) by (simp add: conf_post_def)
next
  case (Cons c r)
  show ?thesis
  proof (cases "find_sub ''/'' r")
    case None
    then show ?thesis using assms that(1) Cons by (simp add: conf_post_def)
  next
    case (Some pos)
    then show ?thesis using assms that(2,3) Cons
      by (auto simp: conf_post_def Let_def split: prod.splits bool.splits if_splits)
  qed
qed

lemma conf_keeps_debug:
  "same_identity (vyatta_debug d s) t \<and> (wf_session (vyatta_debug d s) \<longrightarrow> wf_session t) \<Longrightarrow>
     same_identity s t \<and> (wf_session s \<longrightarrow> wf_session t)"
  by (auto simp: same_identity_def)

lemma conf_post_keeps:
  assumes "conf_post e s with_id cid user tag st = Inr (t, st')"
  shows "same_identity s t \<and> (wf_session s \<longrightarrow> wf_session t)"
  using assms
proof (cases rule: conf_post_cases)
  case 1
  from conf_keeps_debug[OF conf_keeps_debug[OF conf_create_keeps[OF this]]] show ?thesis .
next
  case 3
  from conf_keeps_debug[OF conf_keeps_debug[OF conf_action_keeps[OF 3(1)]]] show ?thesis .
qed simp

lemma conf_put_keeps: "conf_put e s with_id cid user st = Inr (t, st') \<Longrightarrow> same_identity s t \<and> (wf_session s \<longrightarrow> wf_session t)"
  by (auto simp: conf_put_def Let_def bind_res_Inr_iff split: if_splits option.splits prod.splits)

lemma conf_node_keeps: "conf_node e s with_id cid user = Inr t \<Longrightarrow> same_identity s t \<and> (wf_session s \<longrightarrow> wf_session t)"
  by (auto simp: conf_node_def Let_def bind_res_Inr_iff split: if_splits option.splits prod.splits bool.splits)

lemma conf_get_keeps:
  "conf_get e s path with_id cid user st = Inr (t, st') \<Longrightarrow> st' = st \<and> same_identity s t \<and> (wf_session s \<longrightarrow> wf_session t)"
  using conf_node_keeps by (auto simp: conf_get_def conf_list_def bind_res_Inr_iff split: if_splits option.splits)

lemma keeps_set2 [simp]:
  "same_identity s (s\<lparr>response := http_set k v (http_set k2 v2 (response s))\<rparr>)"
  "wf_session s \<Longrightarrow> wf_session (s\<lparr>response := http_set k v (http_set k2 v2 (response s))\<rparr>)"
  by (simp_all add: same_identity_def wf_session_def)

lemma conf_method_keeps:
  assumes "conf_method e s meth path tgt st = Inr (t, st')"
  shows "same_identity s t \<and> (wf_session s \<longrightarrow> wf_session t)"
proof -
  obtain with_id cid user tag where tgt: "tgt = (with_id, cid, user, tag)" by (metis prod_cases4)
  have "conf_delete e s cid user st = (t, st') \<Longrightarrow> same_identity s t \<and> (wf_session s \<longrightarrow> wf_session t)"
    by (cases "user = s_user s"; cases "ce_debug e") (auto simp: conf_delete_def Let_def keeps_set2)
  then show ?thesis using assms conf_get_keeps conf_put_keeps conf_post_keeps unfolding tgt
    by (auto simp: conf_method_def split: if_splits)
qed

lemma conf_process_cases:
  assumes "conf_process e s st = Inr (t, st')"
  obtains x u where "t = Error x u" "same_identity s u" "wf_session s \<longrightarrow> wf_session u" "st' = st"
    | tgt where "conf_method e (vyatta_debug ''CONF:B'' (vyatta_debug ''CONF:A'' s)) (req_get s HTTP_REQ_METHOD) (req_get s HTTP_REQ_URI) tgt st = Inr (t, st')"
        "auth_type s \<noteq> AUTH_TYPE_NONE" "s_access_level s = k_VYATTACFG"
        "conf_target e (cs_files st) (req_get s HTTP_REQ_METHOD) (s_user s) (req_get s HTTP_REQ_URI) = Some tgt"
  using assms that by (auto simp: conf_process_def Let_def split: if_splits option.splits)

lemma conf_keeps:
  assumes "conf_process e s st = Inr (t, st')"
  shows "same_identity s t \<and> (wf_session s \<longrightarrow> wf_session t)"
  using assms
proof (cases rule: conf_process_cases)
  case 2
  from conf_keeps_debug[OF conf_keeps_debug[OF conf_method_keeps[OF 2(1)]]] show ?thesis .
qed simp

interpretation conf: mode_handler "conf_process e" for e
proof (unfold_locales, goal_cases)
  case (1 s w)
  then show ?case by (simp add: conf_process_def)
next
  case (2 s w t w')
  then show ?case by (rule conf_keeps)
qed

section \<open>Lemmas: escaping and quoting\<close>

text \<open>The reference for the chain of replacements: one character at a time.\<close>

definition esc_char :: "char \<Rightarrow> string" where
  "esc_char c =
     (if c = BSLASH then [BSLASH, BSLASH] else if c = QUOTE then [BSLASH, QUOTE]
      else if c = CR then [BSLASH, CHR ''r''] else if c = NL then [BSLASH, CHR ''n'']
      else if c = TAB then [BSLASH, CHR ''t''] else [c])"

lemma escape_output_eq: "escape_output t = concat (map esc_char t)"
proof (induction t)
  case (Cons c t)
  then show ?case by (simp add: escape_output_def replace_all_single esc_char_def Let_def)
qed (simp add: escape_output_def)

fun json_unescape :: "string \<Rightarrow> string" where
  "json_unescape [] = []"
| "json_unescape [c] = [c]"
| "json_unescape (c # d # s) =
     (if c = BSLASH
      then (if d = CHR ''r'' then CR else if d = CHR ''n'' then NL else if d = CHR ''t'' then TAB else d) # json_unescape s
      else c # json_unescape (d # s))"

lemma json_unescape_plain: "c \<noteq> BSLASH \<Longrightarrow> json_unescape (c # s) = c # json_unescape s"
  by (cases s) auto

lemma json_unescape_escape: "json_unescape (escape_output t) = t"
proof (induction t)
  case (Cons c t)
  then show ?case by (auto simp: escape_output_eq esc_char_def json_unescape_plain)
qed (simp add: escape_output_eq)

definition printable :: "char \<Rightarrow> bool" where
  "printable c \<longleftrightarrow> CHR 0x20 \<le> c \<or> c \<in> set [CR, NL, TAB]"

lemma json_str_ok_plain: "c \<noteq> BSLASH \<Longrightarrow> json_str_ok (c # s) = (c \<noteq> QUOTE \<and> CHR 0x20 \<le> c \<and> json_str_ok s)"
  by (cases s) auto

lemma escape_output_ok: "list_all printable t \<Longrightarrow> json_str_ok (escape_output t)"
proof (induction t)
  case (Cons c t)
  then show ?case by (auto simp: escape_output_eq esc_char_def json_str_ok_plain printable_def)
qed (simp add: escape_output_eq)

lemma message_json:
  assumes "v \<noteq> []"
  shows "json_serialize [] (add_value ''message'' v json_new) = ''{'' @ jfield ''message'' v @ ''}''"
    and "json_str_ok v \<Longrightarrow> json_text (json_serialize [] (add_value ''message'' v json_new))"
proof -
  let ?j = "add_value ''message'' v json_new"
  have j: "?j = JSON [] [] [(''message'', v)]" using assms by (simp add: add_value_def json_new_def)
  have m: "members ?j = [jfield ''message'' v]" by (simp add: j members_def value_member_def)
  have "flat ?j" by (simp add: j flat_def)
  then show "json_serialize [] ?j = ''{'' @ jfield ''message'' v @ ''}''" by (simp add: json_serialize_flat m)
  assume "json_str_ok v"
  then have "json_ok ?j" by (intro json_ok_add_value json_ok_new) simp_all
  then show "json_text (json_serialize [] ?j)" by (rule json_text_serialize) (simp add: m)
qed

section \<open>Lemmas: the session of a request\<close>

definition conf_request :: "Session \<Rightarrow> string \<Rightarrow> string \<Rightarrow> bool" where
  "conf_request s meth rest \<longleftrightarrow> auth_type s \<noteq> AUTH_TYPE_NONE \<and> s_access_level s = k_VYATTACFG \<and>
     req_get s HTTP_REQ_METHOD = meth \<and> meth \<noteq> [] \<and> req_get s HTTP_REQ_URI = CONF_REQ_ROOT @ rest"

lemma conf_process_request:
  assumes "conf_request s meth rest"
  shows "conf_process e s st =
    (case conf_target e (cs_files st) meth (s_user s) (CONF_REQ_ROOT @ rest) of
       None \<Rightarrow> Inr (Error VALIDATION_FAILURE (vyatta_debug ''CONF:B'' (vyatta_debug ''CONF:A'' s)), st)
     | Some tgt \<Rightarrow> conf_method e (vyatta_debug ''CONF:B'' (vyatta_debug ''CONF:A'' s)) meth (CONF_REQ_ROOT @ rest) tgt st)"
proof -
  have "CONF_REQ_ROOT \<noteq> []" by (simp add: rest_consts)
  then show ?thesis using assms by (simp add: conf_process_def conf_request_def Let_def split: option.split)
qed

lemma conf_target_id:
  assumes "CHR ''/'' \<notin> set cid" "read_conf_modify_file fs cid (user, []) = (True, owner, tag)" "rest = [] \<or> hd rest = CHR ''/''"
  shows "conf_target e fs meth user (CONF_REQ_ROOT @ ''/'' @ cid @ rest) = Some (''/'' @ cid @ rest, cid, owner, tag)"
proof -
  have "path_id (''/'' @ cid @ rest) = cid"
  proof (cases rest)
    case Nil
    then show ?thesis using assms(1) by (simp add: path_id_def find_sub_absent)
  next
    case (Cons x xs)
    then show ?thesis using assms(1,3) find_sub_first[of "CHR ''/''" cid "[]" xs] by (simp add: path_id_def)
  qed
  then show ?thesis using assms(2) by (simp add: conf_target_def Let_def)
qed

lemma conf_method_foreign:
  assumes "owner \<noteq> s_user s" "meth \<noteq> ''POST'' \<or> (with_id \<noteq> [] \<and> find_sub ''/'' (drop 1 with_id) \<noteq> None)" "path \<noteq> CONF_REQ_ROOT"
  shows "\<exists>t. conf_method e s meth path (with_id, cid, owner, tag) st = Inr (t, st) \<and>
    http_get (response t) HTTP_RESP_CODE \<in> {''400'', ''401''}"
proof -
  have post: "\<exists>t. conf_post e s with_id cid owner tag st = Inr (t, st) \<and> http_get (response t) HTTP_RESP_CODE \<in> {''400'', ''401''}"
    if p: "meth = ''POST''"
  proof -
    obtain c r pos where w: "with_id = c # r" "find_sub ''/'' r = Some pos" using assms(2) p by (cases with_id) auto
    obtain b cid1 where l: "(if tag = cid then read_conf_modify_file_from_tag (ce_dir e) (cs_files st) tag owner cid else (True, cid)) = (b, cid1)"
      by fastforce
    show ?thesis using assms(1) by (cases b) (simp_all add: conf_post_def w l)
  qed
  show ?thesis using post assms(1,3)
    by (auto simp: conf_method_def conf_get_def conf_node_def conf_put_def conf_delete_def)
qed

lemma conf_create_changes:
  assumes "conf_create e s with_id user st = Inr (t, st')"
  shows "st' = st \<or> (\<exists>tok. ce_token e = Some tok \<and> cs_cmds st' = cs_cmds st \<and>
    cs_calls st' \<in> {cs_calls st, cs_calls st @ [Sess_setup (conv_conf_id tok)]} \<and>
    (\<forall>p. p \<noteq> c_str (VYATTA_MODIFY_FILE @ tok) \<longrightarrow> cs_files st' p = cs_files st p))"
  using assms
  by (auto simp: conf_create_def create_conf_modify_file_def setup_session_def add_call_def Let_def
      split: if_splits option.splits prod.splits bool.splits write_outcome.splits)

lemma read_missing: "fs (c_str (VYATTA_MODIFY_FILE @ cid)) = None \<Longrightarrow> \<not> fst (read_conf_modify_file fs cid ud)"
  by (simp add: read_conf_modify_file_def)

section \<open>Properties\<close>

text \<open>
  C6: a configuration session can be used only by its owner. When the description file of the id in the path
  names another user, no authenticated request of a method other than POST for it, with or without a path behind the id, and no POST of an action changes
  anything, in the files, in the daemon or by a shell command, and the answer is 400 or 401. A POST of the bare id is a
  request for a new session with that text as its description: it runs no command, and changes at most the daemon and
  the description file for the new token, by setting up the session of that token.
\<close>

theorem conf_owner_only:
  assumes "conf_request s meth (''/'' @ cid @ rest)" "CHR ''/'' \<notin> set cid" "rest = [] \<or> hd rest = CHR ''/''"
    and "read_conf_modify_file (cs_files st) cid (s_user s, []) = (True, owner, tag)" "owner \<noteq> s_user s"
  shows "if meth = ''POST'' \<and> rest = []
    then \<forall>t st'. conf_process e s st = Inr (t, st') \<longrightarrow> st' = st \<or>
      (\<exists>tok. ce_token e = Some tok \<and> cs_cmds st' = cs_cmds st \<and>
         cs_calls st' \<in> {cs_calls st, cs_calls st @ [Sess_setup (conv_conf_id tok)]} \<and>
         (\<forall>p. p \<noteq> c_str (VYATTA_MODIFY_FILE @ tok) \<longrightarrow> cs_files st' p = cs_files st p))
    else \<exists>t. conf_process e s st = Inr (t, st) \<and> http_get (response t) HTTP_RESP_CODE \<in> {''400'', ''401''}"
proof -
  let ?w = "''/'' @ cid @ rest" and ?s = "vyatta_debug ''CONF:B'' (vyatta_debug ''CONF:A'' s)"
  have t: "conf_target e (cs_files st) meth (s_user s) (CONF_REQ_ROOT @ ?w) = Some (?w, cid, owner, tag)"
    using conf_target_id[OF assms(2,4,3)] by simp
  show ?thesis
  proof (cases "meth = ''POST'' \<and> rest = []")
    case True
    then have "conf_process e s st = conf_create e (vyatta_debug ''CONF:D'' (vyatta_debug ''CONF:C'' ?s)) ?w owner st"
      unfolding conf_process_request[OF assms(1)] t using assms(2) by (simp add: conf_method_def conf_post_def find_sub_absent)
    then show ?thesis using True conf_create_changes by auto
  next
    case False
    have "find_sub ''/'' (cid @ rest) \<noteq> None" if "rest \<noteq> []"
      using find_sub_first[of "CHR ''/''" cid "[]" "tl rest"] assms(2,3) that by (cases rest) simp_all
    then show ?thesis using False
        conf_method_foreign[of owner ?s meth ?w "CONF_REQ_ROOT @ ?w" e cid tag st] assms(5)
      unfolding conf_process_request[OF assms(1)] t by auto
  qed
qed

definition conf_session :: "string \<Rightarrow> string \<Rightarrow> Session" where
  "conf_session meth uri = (session_new False)\<lparr>request := http_set HTTP_REQ_METHOD meth (http_set HTTP_REQ_URI uri (http_new False)),
     s_user := ''bob'', auth_type := AUTH_TYPE_BASIC, s_access_level := k_VYATTACFG\<rparr>"

definition example_conf_env :: conf_env where
  "example_conf_env = \<lparr>ce_debug = False, ce_escape = Some, ce_unescape = Some, ce_api = example_api, ce_dir = Some [],
     ce_stat = (\<lambda>p. None), ce_open = True, ce_changed = (\<lambda>x. False), ce_commit = (\<lambda>x. (Some [], None)),
     ce_save = (\<lambda>x. (Some [], None)), ce_token = Some ''0123456789ABCDEF'', ce_write = W_ok,
     ce_popen = (\<lambda>c. Some ([''ok''], 0))\<rparr>"

definition example_conf_state :: "files \<Rightarrow> conf_state" where
  "example_conf_state fs = \<lparr>cs_files = fs, cs_cmds = [], cs_calls = []\<rparr>"

lemma conf_request_example: "meth \<noteq> [] \<Longrightarrow> conf_request (conf_session meth (CONF_REQ_ROOT @ rest)) meth rest"
  by (simp add: conf_request_def conf_session_def)

theorem conf_owner_only_witness:
  "\<exists>t. conf_process example_conf_env (conf_session ''DELETE'' (CONF_REQ_ROOT @ ''/'' @ ''77'' @ []))
      (example_conf_state [VYATTA_MODIFY_FILE @ ''77'' \<mapsto> ''eve/x'']) =
      Inr (t, example_conf_state [VYATTA_MODIFY_FILE @ ''77'' \<mapsto> ''eve/x'']) \<and>
    http_get (response t) HTTP_RESP_CODE \<in> {''400'', ''401''}"
proof -
  let ?s = "conf_session ''DELETE'' (CONF_REQ_ROOT @ ''/'' @ ''77'' @ [])"
  have "fgets CHUNKER_READ_SIZE ''eve/x'' = Some ''eve/x''" by (rule fgets_line) (simp_all add: rest_consts)
  moreover have "c_str (VYATTA_MODIFY_FILE @ ''77'') = VYATTA_MODIFY_FILE @ ''77''" by (rule c_str_id) (simp add: rest_consts)
  ultimately have "read_conf_modify_file (cs_files (example_conf_state [VYATTA_MODIFY_FILE @ ''77'' \<mapsto> ''eve/x''])) ''77''
      (s_user ?s, []) = (True, ''eve'', ''x'')"
    by (simp add: read_conf_modify_file_def example_conf_state_def c_str_def)
  moreover have "conf_request ?s ''DELETE'' (''/'' @ ''77'' @ [])" by (rule conf_request_example) simp
  moreover have "s_user ?s = ''bob''" by (simp add: conf_session_def)
  ultimately show ?thesis using conf_owner_only[of ?s "''DELETE''" "''77''" "[]" _ "''eve''" "''x''" example_conf_env] by fastforce
qed

text \<open>The request that creates a session, when the description is new, the token is long enough and its file is written.\<close>

lemma conf_created:
  assumes "conf_request s ''POST'' (''/'' @ desc)" "desc \<noteq> []" "CHR ''/'' \<notin> set desc"
    and "read_conf_modify_file (cs_files st) desc (s_user s, []) = (False, s_user s, [])"
    and "\<not> fst (read_conf_modify_file_from_tag (ce_dir e) (cs_files st) desc (s_user s) [])"
    and "ce_token e = Some tok" "16 \<le> length tok" "ce_write e = W_ok" "ce_open e"
  shows "\<exists>t st1. conf_process e s st = Inr (t, st1) \<and>
    http_get (response t) HTTP_RESP_CODE = ''201'' \<and> http_get (response t) HTTP_RESP_LOCATION = ''rest/conf/'' @ tok \<and>
    cs_calls st1 = cs_calls st @ [Sess_setup (conv_conf_id tok)] \<and>
    create_conf_modify_file W_ok (cs_files st) tok (s_user s) desc = (True, cs_files st1)"
proof -
  let ?s = "vyatta_debug ''CONF:D'' (vyatta_debug ''CONF:C'' (vyatta_debug ''CONF:B'' (vyatta_debug ''CONF:A'' s)))"
  let ?fs = "(cs_files st)(c_str (VYATTA_MODIFY_FILE @ tok) \<mapsto> c_str (s_user s @ ''/'' @ desc))"
  let ?st1 = "(add_call (Sess_setup (conv_conf_id tok)) st)\<lparr>cs_files := ?fs\<rparr>"
  have no: "find_sub ''/'' desc = None" using assms(3) by (simp add: find_sub_absent)
  have tgt: "conf_target e (cs_files st) ''POST'' (s_user s) (CONF_REQ_ROOT @ ''/'' @ desc) = Some (''/'' @ desc, desc, s_user s, desc)"
    using assms(4) no by (simp add: conf_target_def path_id_def)
  have cr: "create_conf_modify_file W_ok (cs_files st) tok (s_user s) desc = (True, ?fs)" by (simp add: create_conf_modify_file_def)
  have p: "conf_process e s st = Inr (Error CREATED (on_response (http_set HTTP_RESP_LOCATION (''rest/conf/'' @ tok)) ?s), ?st1)"
    unfolding conf_process_request[OF assms(1)] tgt using no assms(2,5-9) cr
    by (simp add: conf_method_def conf_post_def conf_create_def setup_session_def add_call_def Let_def)
  show ?thesis by (rule exI, rule exI[of _ ?st1]) (use p cr in \<open>auto simp: add_call_def\<close>)
qed

text \<open>The request of the owner that deletes a session.\<close>

lemma conf_deleted:
  assumes "conf_request d ''DELETE'' (''/'' @ tok)" "CHR ''/'' \<notin> set tok" "tok \<noteq> []" "ce_open e"
    and "read_conf_modify_file (cs_files st) tok (s_user d, []) = (True, s_user d, desc)"
  shows "\<exists>t. conf_process e d st = Inr (t, st\<lparr>cs_files := (cs_files st)(c_str (VYATTA_MODIFY_FILE @ tok) := None),
    cs_calls := cs_calls st @ [Sess_discard (conv_conf_id tok), Sess_teardown (conv_conf_id tok)]\<rparr>)"
proof -
  have "conf_target e (cs_files st) ''DELETE'' (s_user d) (CONF_REQ_ROOT @ ''/'' @ tok) = Some (''/'' @ tok, tok, s_user d, desc)"
    using conf_target_id[OF assms(2,5), of "[]" e "''DELETE''"] by simp
  then show ?thesis unfolding conf_process_request[OF assms(1)]
    using assms(3,4) by (auto simp: conf_method_def conf_delete_def discard_session_def add_call_def Let_def)
qed

text \<open>
  C26: the output of an action that runs a shell command (load, merge, show, show-all and save to a named file; not commit
  and save, whose texts come from the daemon and are escaped otherwise) is answered as correct JSON. Outside debug mode the
  answer is an object with one string member, which decodes to the text the server collected from the command: a blank, and then every line
  followed by a blank, whatever printable text, line breaks and tabs the lines have.
\<close>

theorem conf_output_json:
  assumes "ce_popen e (c_str command) = Some (ls, status)" "\<forall>l \<in> set ls. list_all printable l" "\<not> ce_debug e"
  shows "let body = http_get (response (fst (run_action e s command st))) HTTP_BODY;
             out = '' '' @ concat (map (\<lambda>l. c_str l @ '' '') ls)
    in json_text body \<and> body = ''{'' @ jfield ''message'' (escape_output out) @ ''}'' \<and> json_unescape (escape_output out) = out"
proof -
  let ?out = "'' '' @ concat (map (\<lambda>l. c_str l @ '' '') ls)"
  have "list_all printable (c_str l)" if "l \<in> set ls" for l
    using assms(2) that by (auto simp: list_all_iff c_str_def dest: set_takeWhileD)
  then have "list_all printable ?out" by (auto simp: list_all_iff printable_def)
  then have ok: "json_str_ok (escape_output ?out)" by (rule escape_output_ok)
  have ne: "escape_output ?out \<noteq> []" by (simp add: escape_output_eq esc_char_def)
  have b: "http_get (response (fst (run_action e s command st))) HTTP_BODY =
      json_serialize [] (add_value ''message'' (escape_output ?out) json_new)"
    using assms(1,3) by (simp add: run_action_def run_execute_def execute_def Let_def split: prod.splits)
  show ?thesis unfolding Let_def b using message_json[OF ne] ok json_unescape_escape[of ?out] by simp
qed

theorem conf_output_json_witness:
  "json_text (http_get (response (fst (run_action example_conf_env (conf_session ''POST'' []) ''show'' (example_conf_state Map.empty)))) HTTP_BODY)"
proof -
  have "ce_popen example_conf_env (c_str ''show'') = Some ([''ok''], 0)" "\<not> ce_debug example_conf_env" by (simp_all add: example_conf_env_def)
  from conf_output_json[OF this(1) _ this(2), of "conf_session ''POST'' []" "example_conf_state Map.empty", unfolded Let_def, THEN conjunct1]
  show ?thesis by (simp add: printable_def)
qed

text \<open>The shell command of a PUT whose first component starts with the name of an edit: the component stands in it as the
  path has it.\<close>

lemma put_runs:
  assumes "conf_request s ''PUT'' (''/'' @ cid @ ''/'' @ join ''/'' ((c # word) # args))" "CHR ''/'' \<notin> set cid"
    and "read_conf_modify_file (cs_files st) cid (s_user s, []) = (True, s_user s, tag)"
    and "slash_free word" "ce_unescape e word \<noteq> None" "args \<noteq> []"
    and "\<forall>t \<in> set args. slash_free t \<and> ce_unescape e t = Some (de t)"
    and "is_edit ((c # word) @ concat (map (\<lambda>x. quote_arg (c_str (de x))) args))"
  shows "\<exists>t. conf_process e s st = Inr (t, st\<lparr>cs_cmds := cs_cmds st @ [c_str (session_command (conv_conf_id cid) @
      '';/usr/bin/cfgcli -print '' @ (c # word) @ concat (map (\<lambda>x. quote_arg (c_str (de x))) args) @ '' 2>&1'')]\<rparr>)"
proof -
  let ?path = "join ''/'' ((c # word) # args)" and ?cmd = "(c # word) @ concat (map (\<lambda>x. quote_arg (c_str (de x))) args)"
  let ?w = "''/'' @ cid @ ''/'' @ ?path"
  have tgt: "conf_target e (cs_files st) ''PUT'' (s_user s) (CONF_REQ_ROOT @ ?w) = Some (?w, cid, s_user s, tag)"
    using conf_target_id[OF assms(2,3), of "''/'' @ ?path"] by simp
  have f: "find_sub ''/'' (cid @ ''/'' @ ?path) = Some (length cid)" using find_sub_first[of "CHR ''/''" cid "[]" ?path] assms(2) by simp
  have tr: "translate_rest_to_cli (ce_unescape e) ?path = Inr ?cmd" by (rule translate_words[OF assms(4-7)])
  have "cut_command ?cmd = ?cmd" "put_command ?cmd = Some (''/usr/bin/cfgcli -print '' @ ?cmd)"
    using assms(8) by (simp_all add: cut_command_def put_command_def split: option.split)
  moreover have "drop (length cid + 2) ?w = ?path" by simp
  ultimately show ?thesis
    unfolding conf_process_request[OF assms(1)] tgt using f tr
    by (simp add: conf_method_def conf_put_def run_execute_def split: prod.split)
qed

text \<open>
  C17: the quoting of a PUT protects the shell from the arguments. In a session of the requester, when the first component of the path is exactly set, delete
  or comment, arguments follow it and none of them contains an apostrophe after decoding, the shell command that is run
  is the fixed environment of the session, the edit command and the arguments, each
  inside single quotes: outside quotes the arguments add only blanks.
\<close>

theorem put_arguments_quoted:
  assumes "conf_request s ''PUT'' (''/'' @ cid @ ''/'' @ join ''/'' ((c # word) # args))" "CHR ''/'' \<notin> set cid"
    and "read_conf_modify_file (cs_files st) cid (s_user s, []) = (True, s_user s, tag)"
    and "slash_free word" "ce_unescape e word \<noteq> None" "args \<noteq> []"
    and "\<forall>t \<in> set args. slash_free t \<and> ce_unescape e t = Some (de t)"
    and "c # word \<in> {''set'', ''delete'', ''comment''}" "\<forall>t \<in> set args. APOS \<notin> set (de t)"
  shows "\<exists>t. conf_process e s st = Inr (t, st\<lparr>cs_cmds := cs_cmds st @ [c_str (session_command (conv_conf_id cid) @
      '';/usr/bin/cfgcli -print '' @ (c # word) @ concat (map (\<lambda>x. quote_arg (c_str (de x))) args) @ '' 2>&1'')]\<rparr>) \<and>
    unquoted False (concat (map (\<lambda>x. quote_arg (c_str (de x))) args)) = replicate (length args) (CHR '' '')"
proof -
  have "is_edit ((c # word) @ concat (map (\<lambda>x. quote_arg (c_str (de x))) args))" using assms(8) by (auto simp: is_edit_def c_str_def)
  moreover have "\<forall>t \<in> set args. APOS \<notin> set (c_str (de t))" using assms(9) by (auto simp: c_str_def dest: set_takeWhileD)
  ultimately show ?thesis using put_runs[OF assms(1-7)] unquoted_args[of args "\<lambda>t. c_str (de t)"] by blast
qed

theorem put_arguments_quoted_witness:
  "\<exists>t. conf_process example_conf_env (conf_session ''PUT'' (CONF_REQ_ROOT @ ''/'' @ ''77'' @ ''/'' @ join ''/'' [''set'', ''x;y'']))
      (example_conf_state [VYATTA_MODIFY_FILE @ ''77'' \<mapsto> ''bob/x'']) =
      Inr (t, (example_conf_state [VYATTA_MODIFY_FILE @ ''77'' \<mapsto> ''bob/x''])\<lparr>cs_cmds := [c_str (session_command (conv_conf_id ''77'') @
        '';/usr/bin/cfgcli -print set '' @ [APOS] @ ''x;y'' @ [APOS] @ '' 2>&1'')]\<rparr>)"
proof -
  let ?st = "example_conf_state [VYATTA_MODIFY_FILE @ ''77'' \<mapsto> ''bob/x'']"
  let ?s = "conf_session ''PUT'' (CONF_REQ_ROOT @ ''/'' @ ''77'' @ ''/'' @ join ''/'' [''set'', ''x;y''])"
  have "fgets CHUNKER_READ_SIZE ''bob/x'' = Some ''bob/x''" by (rule fgets_line) (simp_all add: rest_consts)
  moreover have "c_str (VYATTA_MODIFY_FILE @ ''77'') = VYATTA_MODIFY_FILE @ ''77''" by (rule c_str_id) (simp add: rest_consts)
  ultimately have r: "read_conf_modify_file (cs_files ?st) ''77'' (s_user ?s, []) = (True, s_user ?s, ''x'')"
    by (simp add: read_conf_modify_file_def example_conf_state_def c_str_def conf_session_def)
  have u: "ce_unescape example_conf_env = Some" by (simp add: example_conf_env_def)
  have q: "quote_arg (c_str ''x;y'') = '' '' @ [APOS] @ ''x;y'' @ [APOS]" by (simp add: quote_arg_def c_str_def)
  have cm: "cs_cmds ?st = []" by (simp add: example_conf_state_def)
  have req: "conf_request ?s ''PUT'' (''/'' @ ''77'' @ ''/'' @ join ''/'' [''set'', ''x;y''])"
    by (rule conf_request_example) simp
  show ?thesis
    using put_arguments_quoted[of ?s "''77''" "CHR ''s''" "''et''" "[''x;y'']" ?st "''x''" example_conf_env "\<lambda>t. t", OF req _ r] u q cm
    by (simp add: slash_free_def)
qed

text \<open>
  The first component itself is not quoted, and only its beginning is compared with the names of the edits: whatever
  follows the name, a semicolon and another command included, reaches the shell as it is, and unlike the other commands
  an edit is not cut at a semicolon.
\<close>

theorem put_first_component_unquoted:
  assumes "conf_request s ''PUT'' (''/'' @ cid @ ''/'' @ join ''/'' ((''set;'' @ code) # args))" "CHR ''/'' \<notin> set cid"
    and "read_conf_modify_file (cs_files st) cid (s_user s, []) = (True, s_user s, tag)"
    and "slash_free code" "ce_unescape e (''et;'' @ code) \<noteq> None" "args \<noteq> []"
    and "\<forall>t \<in> set args. slash_free t \<and> ce_unescape e t = Some (de t)"
  shows "\<exists>t. conf_process e s st = Inr (t, st\<lparr>cs_cmds := cs_cmds st @ [c_str (session_command (conv_conf_id cid) @
      '';/usr/bin/cfgcli -print set;'' @ code @ concat (map (\<lambda>x. quote_arg (c_str (de x))) args) @ '' 2>&1'')]\<rparr>)"
  using put_runs[of s cid "CHR ''s''" "''et;'' @ code" args st tag e de] assms
  by (simp add: is_edit_def c_str_def slash_free_def)

theorem put_first_component_unquoted_witness:
  "\<exists>t. conf_process example_conf_env (conf_session ''PUT'' (CONF_REQ_ROOT @ ''/'' @ ''77'' @ ''/'' @ join ''/'' [''set;'' @ ''reboot'', ''x'']))
      (example_conf_state [VYATTA_MODIFY_FILE @ ''77'' \<mapsto> []]) =
      Inr (t, (example_conf_state [VYATTA_MODIFY_FILE @ ''77'' \<mapsto> []])\<lparr>cs_cmds := [c_str (session_command (conv_conf_id ''77'') @
        '';/usr/bin/cfgcli -print set;reboot '' @ [APOS] @ ''x'' @ [APOS] @ '' 2>&1'')]\<rparr>)"
proof -
  let ?st = "example_conf_state [VYATTA_MODIFY_FILE @ ''77'' \<mapsto> []]"
  let ?s = "conf_session ''PUT'' (CONF_REQ_ROOT @ ''/'' @ ''77'' @ ''/'' @ join ''/'' [''set;'' @ ''reboot'', ''x''])"
  have "c_str (VYATTA_MODIFY_FILE @ ''77'') = VYATTA_MODIFY_FILE @ ''77''" by (rule c_str_id) (simp add: rest_consts)
  then have r: "read_conf_modify_file (cs_files ?st) ''77'' (s_user ?s, []) = (True, s_user ?s, [])"
    by (simp add: read_conf_modify_file_def example_conf_state_def fgets_def)
  have u: "ce_unescape example_conf_env = Some" by (simp add: example_conf_env_def)
  have q: "quote_arg (c_str ''x'') = '' '' @ [APOS] @ ''x'' @ [APOS]" by (simp add: quote_arg_def c_str_def)
  have cm: "cs_cmds ?st = []" by (simp add: example_conf_state_def)
  have req: "conf_request ?s ''PUT'' (''/'' @ ''77'' @ ''/'' @ join ''/'' [''set;'' @ ''reboot'', ''x''])"
    by (rule conf_request_example) simp
  show ?thesis
    using put_first_component_unquoted[of ?s "''77''" "''reboot''" "[''x'']" ?st "[]" example_conf_env "\<lambda>t. t", OF req _ r] u q cm
    by (simp add: slash_free_def)
qed

text \<open>
  A component that contains two apostrophes inside breaks out of its quotes: the text between them reaches
  the shell unquoted.
\<close>

theorem apostrophe_breaks_quotes:
  assumes "APOS \<notin> set a" "APOS \<notin> set code" "APOS \<notin> set b" "a \<noteq> []" "b \<noteq> []" "hd a \<noteq> QUOTE"
  shows "unquoted False (quote_arg (a @ [APOS] @ code @ [APOS] @ b)) = '' '' @ code"
proof -
  let ?t = "a @ [APOS] @ code @ [APOS] @ b"
  have "hd ?t = hd a" using assms(4) by simp
  then have "hd ?t \<noteq> APOS" "hd ?t \<noteq> QUOTE" using assms(1,4,6) by (metis hd_in_set)+
  then have "quote_arg ?t = '' '' @ [APOS] @ ?t @ [APOS]" by (simp add: quote_arg_def)
  then show ?thesis using assms(1-3) by (simp add: unquoted_inside)
qed

theorem apostrophe_breaks_quotes_witness:
  "unquoted False (quote_arg (''a'' @ [APOS] @ '';reboot;'' @ [APOS] @ ''b'')) = '' ;reboot;''"
  using apostrophe_breaks_quotes[of "''a''" "'';reboot;''" "''b''"] by simp

text \<open>
  A description file that is empty, as a failed write leaves it, names no owner: whoever asks for the session is taken
  for its owner.
\<close>

lemma empty_description_no_owner:
  assumes "cs_files st (c_str (VYATTA_MODIFY_FILE @ cid)) = Some []" "CHR ''/'' \<notin> set cid"
  shows "conf_target e (cs_files st) meth user (CONF_REQ_ROOT @ ''/'' @ cid) = Some (''/'' @ cid, cid, user, [])"
proof -
  have "path_id (''/'' @ cid) = cid" using assms(2) by (simp add: path_id_def find_sub_absent)
  then show ?thesis using assms(1) by (simp add: conf_target_def read_conf_modify_file_def fgets_def Let_def)
qed

end
