(* ===== verification/Server.thy ===== *)
theory Server
  imports Auth Simple_Modes Op_Mode Conf_Mode
begin

text \<open>
  \<open>process.cc\<close>, \<open>command.cc\<close>, \<open>interface.cc\<close> and \<open>main.cc\<close>: reading a request, authenticating it,
  dispatching it to a mode, printing the response and giving up the user's identity again. The
  state of the server joins the states of the modes; each mode works on its part of it.
\<close>

section \<open>State and environment\<close>

text \<open>The identity of the server process, the table of the chunker daemon, the files and
  processes, and the calls that changed a configuration session.\<close>

record server =
  sv_cred :: cred
  sv_mgr :: manager
  sv_world :: world
  sv_calls :: "configd_call list"

record server_env =
  se_auth :: auth_env
  se_mode :: mode_env
  se_op :: op_env
  se_conf :: conf_env
  se_dumps :: "(string \<times> perm_rule list) list \<Rightarrow> string option"
  se_json :: "string \<Rightarrow> string option"
  se_loginuid :: bool
  se_environ :: "string list"
  se_dump :: write_outcome
  se_out :: write_outcome

section \<open>A mode on its part of the state\<close>

definition lift_mode :: "('v \<Rightarrow> 'w) \<Rightarrow> ('w \<Rightarrow> 'v \<Rightarrow> 'v) \<Rightarrow> (Session \<Rightarrow> 'w \<Rightarrow> (Session \<times> 'w) res) \<Rightarrow>
    Session \<Rightarrow> 'v \<Rightarrow> (Session \<times> 'v) res" where
  "lift_mode get put process s v = bind_res (process s (get v)) (\<lambda>(t, w). Inr (t, put w v))"

locale mode_part = mode_handler process for process :: "Session \<Rightarrow> 'w \<Rightarrow> (Session \<times> 'w) res" +
  fixes get :: "'v \<Rightarrow> 'w" and put :: "'w \<Rightarrow> 'v \<Rightarrow> 'v"
  assumes put_get: "put (get v) v = v"
begin

sublocale lifted: mode_handler "lift_mode get put process"
proof (unfold_locales, goal_cases)
  case (1 s w)
  then show ?case using denied[of s "get w"] put_get[of w] by (auto simp: lift_mode_def)
next
  case (2 s w t w')
  then show ?case using keeps by (auto simp: lift_mode_def bind_res_Inr_iff)
qed

end

definition op_part :: "server \<Rightarrow> op_state" where "op_part sv = (sv_mgr sv, sv_world sv)"
definition put_op :: "op_state \<Rightarrow> server \<Rightarrow> server" where
  "put_op st sv = sv\<lparr>sv_mgr := fst st, sv_world := snd st\<rparr>"

definition conf_part :: "server \<Rightarrow> conf_state" where
  "conf_part sv = \<lparr>cs_files = w_files (sv_world sv), cs_cmds = w_cmds (sv_world sv), cs_calls = sv_calls sv\<rparr>"
definition put_conf :: "conf_state \<Rightarrow> server \<Rightarrow> server" where
  "put_conf st sv = sv\<lparr>sv_world := (sv_world sv)\<lparr>w_files := cs_files st, w_cmds := cs_cmds st\<rparr>, sv_calls := cs_calls st\<rparr>"

abbreviation put_world :: "world \<Rightarrow> server \<Rightarrow> server" where "put_world w sv \<equiv> sv\<lparr>sv_world := w\<rparr>"

interpretation app_part: mode_part "app_process e" sv_world put_world for e
  by unfold_locales simp

interpretation service_part: mode_part "service_process e" sv_world put_world for e
  by unfold_locales simp

interpretation perm_part: mode_part "perm_process dumps e" sv_world put_world for dumps e
  by unfold_locales simp

interpretation op_part: mode_part "op_process e" op_part put_op for e
  by unfold_locales (simp add: op_part_def put_op_def)

interpretation conf_part: mode_part "conf_process e" conf_part put_conf for e
  by unfold_locales (simp add: conf_part_def put_conf_def)

section \<open>\<open>Process::dispatch\<close>\<close>

definition mode_of :: "server_env \<Rightarrow> access_level \<Rightarrow> string \<Rightarrow> (Session \<Rightarrow> server \<Rightarrow> (Session \<times> server) res) option" where
  "mode_of e level path =
     (if level = k_VYATTASERVICE_USER then
        (if find_sub SERVICE_REQ_ROOT path = Some 0 then Some (lift_mode sv_world put_world (service_process (se_mode e))) else None)
      else if find_sub APP_REQ_ROOT path = Some 0 then Some (lift_mode sv_world put_world (app_process (se_mode e)))
      else if find_sub OP_REQ_ROOT path = Some 0 then Some (lift_mode op_part put_op (op_process (se_op e)))
      else if find_sub CONF_REQ_ROOT path = Some 0 then Some (lift_mode conf_part put_conf (conf_process (se_conf e)))
      else if find_sub PERM_REQ_ROOT path = Some 0
        then Some (lift_mode sv_world put_world (perm_process (se_dumps e) (se_mode e)))
      else None)"

definition dispatch :: "server_env \<Rightarrow> Session \<Rightarrow> server \<Rightarrow> (Session \<times> server) res" where
  "dispatch e s0 sv =
     (let s = vyatta_debug ''XA'' s0; path = req_get s HTTP_REQ_URI in
      if path = [] then Inr (s, sv)
      else let s1 = vyatta_debug (''XB:'' @ path) s in
      case mode_of e (s_access_level s1) path of
        Some process \<Rightarrow> process s1 sv
      | None \<Rightarrow> Inr (Error VALIDATION_FAILURE s1, sv))"

section \<open>\<open>Interface\<close>, \<open>Command\<close>\<close>

text \<open>Both are place holders in the source: no command is registered and every request is valid.\<close>

definition Command_validate :: "Session \<Rightarrow> bool" where
  "Command_validate s = True"

section \<open>\<open>parse\<close>\<close>

definition parse_headers :: "(string \<Rightarrow> string option) \<Rightarrow> HTTP \<Rightarrow> HTTP" where
  "parse_headers getenv h =
     fold (\<lambda>(k, name). http_set_cstr k (getenv name))
       [(HTTP_REQ_URI, ''REQUEST_URI''), (HTTP_REQ_QUERY_STRING, ''QUERY_STRING''), (HTTP_REQ_METHOD, ''REQUEST_METHOD''),
        (HTTP_REQ_ACCEPT, ''ACCEPT''), (HTTP_REQ_CONTENT_LENGTH, ''CONTENT_LENGTH''),
        (HTTP_REQ_AUTHORIZATION, ''HTTP_AUTHORIZATION''), (HTTP_REQ_COOKIE, ''HTTP_COOKIE''),
        (HTTP_REQ_VYATTA_SPECIFICATION_VERSION, ''VYATTA_SPECIFICATION_VERSION''), (HTTP_REQ_ACCEPT, ''ACCEPT''),
        (HTTP_REQ_HOST, ''HOST''), (HTTP_REQ_PRAGMA, ''HTTP_PRAGMA'')] h"

text \<open>The loop over \<open>FCGI_getchar\<close>: at most \<open>len\<close> characters, fewer at the end of the input.\<close>

fun read_body :: "nat \<Rightarrow> string \<Rightarrow> string \<Rightarrow> string" where
  "read_body 0 input tmp = tmp"
| "read_body (Suc len) [] tmp = tmp"
| "read_body (Suc len) (ch # input) tmp = read_body len input (tmp @ [ch])"

definition parse :: "(string \<Rightarrow> string option) \<Rightarrow> string \<Rightarrow> Session \<Rightarrow> bool \<times> Session" where
  "parse getenv input s0 =
     (let s = s0\<lparr>request := parse_headers getenv (request s0)\<rparr>;
          slen = req_get s HTTP_REQ_CONTENT_LENGTH
      in if slen = [] then (True, s)
         else let len = strtoul10 slen in
         if MAX_BODY_SIZE < len then (False, Error_msg VALIDATION_FAILURE ''Request body exceeds maximum allowable size'' s)
         else (True, s\<lparr>request := http_set HTTP_BODY (read_body len input []) (request s)\<rparr>))"

section \<open>\<open>main\<close>\<close>

definition RUNDIR :: string where "RUNDIR = ''/run/vyatta-webgui2''"

text \<open>The outcome of \<open>stat\<close> on the run directory (None when it fails) and of \<open>mkdir\<close>.\<close>

definition mkrundir :: "bool option \<Rightarrow> int \<Rightarrow> int" where
  "mkrundir is_dir mkdir_rc = (case is_dir of None \<Rightarrow> mkdir_rc | Some d \<Rightarrow> if d then 0 else - 1)"

definition dump_env :: "server_env \<Rightarrow> server \<Rightarrow> server" where
  "dump_env e sv =
     (let file = ''/tmp/environ''; env_lines = concat (map (\<lambda>v. c_str v @ [NL]) (se_environ e)); fs = w_files (sv_world sv)
      in sv\<lparr>sv_world := (sv_world sv)\<lparr>w_files := (case se_dump e of
           W_no_open \<Rightarrow> fs | W_fail part \<Rightarrow> fs(file \<mapsto> part) | W_ok \<Rightarrow> fs(file \<mapsto> env_lines))\<rparr>\<rparr>)"

definition response_defaults :: "HTTP \<Rightarrow> HTTP" where
  "response_defaults h = http_set HTTP_RESP_CACHE_CONTROL ''no-cache''
     (http_set HTTP_RESP_VYATTA_SPECIFICATION_VERSION REST_SERVER_VERSION (http_set HTTP_RESP_CONTENT_TYPE ''application/json'' h))"

text \<open>\<open>FCGI_printf\<close> of the response stops at a null character.\<close>

definition print_response :: "server_env \<Rightarrow> Session \<Rightarrow> string" where
  "print_response e s = c_str (fst (http_serialize (se_json e) (response s)))"

text \<open>The end of every iteration: the identity of the start is taken back. \<open>setuid\<close> and \<open>setgid\<close> are called
  with the real numbers of the process, which no request changes, so that they cannot be refused; \<open>cred\<close>
  holds the effective numbers.\<close>

definition done_request :: "server_env \<Rightarrow> nat \<times> nat \<Rightarrow> server \<Rightarrow> server" where
  "done_request e start sv =
     sv\<lparr>sv_cred := (sv_cred sv)\<lparr>c_uid := fst start, c_gid := snd start,
        c_loginuid := (if se_loginuid e then fst start else c_loginuid (sv_cred sv))\<rparr>\<rparr>"

definition run_auth :: "server_env \<Rightarrow> Session \<Rightarrow> server \<Rightarrow> (bool \<times> Session \<times> server) res" where
  "run_auth e s sv =
     bind_res (auth_validate (se_auth e) s (sv_cred sv, w_files (sv_world sv))) (\<lambda>(ok, t, cr, fs).
       Inr (ok, t, sv\<lparr>sv_cred := cr, sv_world := (sv_world sv)\<lparr>w_files := fs\<rparr>\<rparr>))"

text \<open>From authentication on: the text that is sent and the state.\<close>

definition serve_parsed :: "server_env \<Rightarrow> bool \<Rightarrow> Session \<Rightarrow> server \<Rightarrow> (string \<times> server) res" where
  "serve_parsed e debug s sv =
     bind_res (run_auth e (vyatta_debug ''D'' (vyatta_debug ''C'' (vyatta_debug ''B'' s))) sv) (\<lambda>(ok, t, sv1).
       if \<not> ok then Inr (print_response e (Error AUTHORIZATION_FAILURE t), sv1)
       else bind_res (dispatch e (vyatta_debug ''E'' t) sv1) (\<lambda>(u, sv2).
         let out = fst (http_serialize (se_json e) (response u))
         in Inr (out, if debug then sv2\<lparr>sv_world := (sv_world sv2)\<lparr>w_files :=
              append_file (se_out e) (w_files (sv_world sv2)) ''/tmp/rest_out'' out\<rparr>\<rparr> else sv2)))"

definition new_session :: "bool \<Rightarrow> Session" where
  "new_session debug = vyatta_debug ''A'' (on_response response_defaults (session_new debug))"

definition serve_request ::
    "server_env \<Rightarrow> bool \<Rightarrow> nat \<times> nat \<Rightarrow> (string \<Rightarrow> string option) \<Rightarrow> string \<Rightarrow> server \<Rightarrow> (string \<times> server) res" where
  "serve_request e debug start getenv input sv0 =
     (let sv = (if debug then dump_env e sv0 else sv0) in
      bind_res
        (case parse getenv input (new_session debug) of
           (False, s) \<Rightarrow> bind_res (dispatch e s sv) (\<lambda>(t, sv1). Inr (print_response e t, sv1))
         | (True, s) \<Rightarrow> if \<not> Command_validate s then Inr (print_response e s, sv) else serve_parsed e debug s sv)
        (\<lambda>(out, sv1). Inr (out, done_request e start sv1)))"

text \<open>The requests the server accepts one after the other, each with its environment and input; an
  exception ends the server.\<close>

type_synonym fcgi_request = "server_env \<times> (string \<Rightarrow> string option) \<times> string"

fun accept_loop :: "bool \<Rightarrow> nat \<times> nat \<Rightarrow> fcgi_request list \<Rightarrow> server \<Rightarrow> (string list \<times> server) res" where
  "accept_loop debug start [] sv = Inr ([], sv)"
| "accept_loop debug start ((e, getenv, input) # rs) sv =
     bind_res (serve_request e debug start getenv input sv) (\<lambda>(out, sv1).
       bind_res (accept_loop debug start rs sv1) (\<lambda>(outs, sv2). Inr (out # outs, sv2)))"

text \<open>The start: the constructor of the session scheme removes its files.\<close>

definition rest_main :: "bool \<Rightarrow> nat \<times> nat \<Rightarrow> fcgi_request list \<Rightarrow> server \<Rightarrow> (string list \<times> server) res" where
  "rest_main debug start rs sv =
     accept_loop debug start rs (sv\<lparr>sv_world := (sv_world sv)\<lparr>w_files := AuthSession_ctor (w_files (sv_world sv))\<rparr>\<rparr>)"

section \<open>Lemmas: dispatch\<close>

lemma mode_of_handler:
  "mode_of e level path = Some process \<Longrightarrow> mode_handler process"
  using app_part.lifted.mode_handler_axioms service_part.lifted.mode_handler_axioms perm_part.lifted.mode_handler_axioms
    op_part.lifted.mode_handler_axioms conf_part.lifted.mode_handler_axioms
  by (auto simp: mode_of_def split: if_splits)

lemma debug_path [simp]: "req_get (vyatta_debug d s) k = req_get s k"
  by simp

lemma dispatch_cases:
  assumes "dispatch e s sv = Inr (t, sv')"
  obtains "t = vyatta_debug ''XA'' s" "sv' = sv" "req_get s HTTP_REQ_URI = []"
    | process d where "mode_of e (s_access_level s) (req_get s HTTP_REQ_URI) = Some process"
        "process (vyatta_debug d (vyatta_debug ''XA'' s)) sv = Inr (t, sv')"
    | d where "t = Error VALIDATION_FAILURE (vyatta_debug d (vyatta_debug ''XA'' s))" "sv' = sv"
  using assms by (auto simp: dispatch_def Let_def split: if_splits option.splits)

lemma dispatch_keeps:
  assumes "dispatch e s sv = Inr (t, sv')"
  shows "same_identity s t \<and> (wf_session s \<longrightarrow> wf_session t)"
  using assms
proof (cases rule: dispatch_cases)
  case (2 process d)
  from mode_handler.keeps[OF mode_of_handler[OF 2(1)] 2(2)] show ?thesis by (auto simp: same_identity_def)
qed simp_all

lemma dispatch_denied:
  assumes "auth_type s = AUTH_TYPE_NONE"
  shows "\<exists>t. dispatch e s sv = Inr (t, sv) \<and>
    (req_get s HTTP_REQ_URI \<noteq> [] \<longrightarrow> http_get (response t) HTTP_RESP_CODE =
      (if mode_of e (s_access_level s) (req_get s HTTP_REQ_URI) = None then ''400'' else ''401''))"
proof (cases "mode_of e (s_access_level s) (req_get s HTTP_REQ_URI)")
  case None
  then show ?thesis by (simp add: dispatch_def Let_def)
next
  case (Some process)
  let ?s = "vyatta_debug (''XB:'' @ req_get s HTTP_REQ_URI) (vyatta_debug ''XA'' s)"
  obtain t where t: "process ?s sv = Inr (t, sv)" "http_get (response t) HTTP_RESP_CODE = ''401''"
    using mode_handler.denied[OF mode_of_handler[OF Some], of ?s sv] assms by auto
  show ?thesis
  proof (cases "req_get s HTTP_REQ_URI = []")
    case True
    then show ?thesis by (simp add: dispatch_def)
  next
    case False
    then show ?thesis using Some t by (simp add: dispatch_def Let_def)
  qed
qed

text \<open>No mode changes the identity of the process.\<close>

lemma mode_of_cred:
  assumes "mode_of e level path = Some process" "process s sv = Inr (t, sv')"
  shows "sv_cred sv' = sv_cred sv"
  using assms by (auto simp: mode_of_def lift_mode_def bind_res_Inr_iff put_op_def put_conf_def split: if_splits)

lemma dispatch_cred: "dispatch e s sv = Inr (t, sv') \<Longrightarrow> sv_cred sv' = sv_cred sv"
  by (elim dispatch_cases) (auto dest: mode_of_cred)

section \<open>Lemmas: one request\<close>

lemma read_body_eq: "read_body len input tmp = tmp @ take len input"
  by (induction len input tmp rule: read_body.induct) auto

lemma parse_auth:
  assumes "parse getenv input s = (ok, t)"
  shows "auth_type t = auth_type s \<and> service_user t = service_user s \<and> s_access_level t = s_access_level s \<and> s_user t = s_user s"
  using assms by (auto simp: parse_def Let_def split: if_splits)

lemma new_session_fields [simp]:
  "auth_type (new_session d) = AUTH_TYPE_NONE" "service_user (new_session d) = False" "s_access_level (new_session d) = k_VYATTAOP"
  "request (new_session d) = http_new d"
  by (simp_all add: new_session_def session_new_def)

lemma done_cred [simp]: "c_uid (sv_cred (done_request e start sv)) = fst start" "c_gid (sv_cred (done_request e start sv)) = snd start"
  by (simp_all add: done_request_def)

lemma done_rest [simp]: "sv_mgr (done_request e start sv) = sv_mgr sv" "sv_world (done_request e start sv) = sv_world sv"
  "sv_calls (done_request e start sv) = sv_calls sv"
  by (simp_all add: done_request_def)

section \<open>Lemmas: rejected requests\<close>

lemma vyatta_debug_off: "\<not> s_debug s \<Longrightarrow> vyatta_debug d s = s"
  by (simp add: vyatta_debug_def)

lemma parse_debug: "parse getenv input s = (ok, t) \<Longrightarrow> s_debug t = s_debug s"
  by (auto simp: parse_def Let_def split: if_splits)

text \<open>A request is rejected when it cannot be parsed or when it is not authenticated.\<close>

definition rejected :: "server_env \<Rightarrow> (string \<Rightarrow> string option) \<Rightarrow> string \<Rightarrow> server \<Rightarrow> bool" where
  "rejected e getenv input sv \<longleftrightarrow>
     (case parse getenv input (new_session False) of
        (False, _) \<Rightarrow> True
      | (True, s) \<Rightarrow> (\<exists>t cr fs. auth_validate (se_auth e) s (sv_cred sv, w_files (sv_world sv)) = Inr (False, t, cr, fs)))"

text \<open>What a rejected request may have changed: the files of the session scheme and the identity.\<close>

definition same_outside :: "server \<Rightarrow> server \<Rightarrow> bool" where
  "same_outside sv sv' \<longleftrightarrow> sv_mgr sv' = sv_mgr sv \<and> sv_calls sv' = sv_calls sv \<and>
     w_procs (sv_world sv') = w_procs (sv_world sv) \<and> w_cmds (sv_world sv') = w_cmds (sv_world sv) \<and>
     (\<forall>p. p \<in> auth_files \<or> w_files (sv_world sv') p = w_files (sv_world sv) p)"

lemma run_auth_same:
  "run_auth e s sv = Inr (ok, t, sv') \<Longrightarrow> same_outside sv sv'"
  by (auto simp: run_auth_def bind_res_Inr_iff same_outside_def dest: auth_validate_files)

lemma same_outside_done [simp]: "same_outside sv (done_request e start sv') = same_outside sv sv'"
  by (simp add: same_outside_def)

lemma same_outside_refl [simp]: "same_outside sv sv"
  by (simp add: same_outside_def)

lemma new_session_debug [simp]: "s_debug (new_session d) = d"
  by (simp add: new_session_def session_new_def vyatta_debug_def)

lemma serve_parse_failed:
  assumes "parse getenv input (new_session False) = (False, s)"
  shows "\<exists>t. dispatch e s sv = Inr (t, sv) \<and>
    serve_request e False start getenv input sv = Inr (print_response e t, done_request e start sv)"
proof -
  have "auth_type s = AUTH_TYPE_NONE" using parse_auth[OF assms] by simp
  then obtain t where "dispatch e s sv = Inr (t, sv)" using dispatch_denied by blast
  then show ?thesis using assms by (simp add: serve_request_def)
qed

lemma serve_not_authenticated:
  assumes "parse getenv input (new_session False) = (True, s)"
    and "auth_validate (se_auth e) s (sv_cred sv, w_files (sv_world sv)) = Inr (False, t, cr, fs)"
  shows "serve_request e False start getenv input sv = Inr (print_response e (Error AUTHORIZATION_FAILURE t),
    done_request e start (sv\<lparr>sv_cred := cr, sv_world := (sv_world sv)\<lparr>w_files := fs\<rparr>\<rparr>))"
proof -
  have "\<not> s_debug s" using parse_debug[OF assms(1)] by simp
  then show ?thesis using assms
    by (simp add: serve_request_def Command_validate_def serve_parsed_def run_auth_def vyatta_debug_off)
qed

lemma serve_accepted:
  assumes "serve_request e False start getenv input sv = Inr (out, sv')" and "parse getenv input (new_session False) = (True, s)"
    and "auth_validate (se_auth e) s (sv_cred sv, w_files (sv_world sv)) = Inr (True, t, cr, fs)"
  obtains u sv2 where "dispatch e t (sv\<lparr>sv_cred := cr, sv_world := (sv_world sv)\<lparr>w_files := fs\<rparr>\<rparr>) = Inr (u, sv2)"
    "sv' = done_request e start sv2"
proof -
  have "\<not> s_debug s" "\<not> s_debug t" using parse_debug[OF assms(2)] validate.kept[OF assms(3)] by simp_all
  then show ?thesis using assms that
    by (auto simp: serve_request_def serve_parsed_def run_auth_def Command_validate_def vyatta_debug_off bind_res_Inr_iff Let_def)
qed

lemma serve_rejected:
  assumes "rejected e getenv input sv"
  shows "\<exists>out sv'. serve_request e False start getenv input sv = Inr (out, sv') \<and> same_outside sv sv'"
proof -
  obtain ok s where p: "parse getenv input (new_session False) = (ok, s)" by fastforce
  show ?thesis
  proof (cases ok)
    case True
    then obtain t cr fs where a: "auth_validate (se_auth e) s (sv_cred sv, w_files (sv_world sv)) = Inr (False, t, cr, fs)"
      using assms p by (auto simp: rejected_def)
    have r: "run_auth e s sv = Inr (False, t, sv\<lparr>sv_cred := cr, sv_world := (sv_world sv)\<lparr>w_files := fs\<rparr>\<rparr>)" using a by (simp add: run_auth_def)
    have p1: "parse getenv input (new_session False) = (True, s)" using p True by simp
    show ?thesis unfolding serve_not_authenticated[OF p1 a] using run_auth_same[OF r] by simp
  next
    case False
    then show ?thesis using serve_parse_failed[of getenv input s e sv start] p by auto
  qed
qed

text \<open>Every request that is answered is rejected or accepted.\<close>

lemma serve_cases:
  assumes "serve_request e False start getenv input sv = Inr (out, sv')"
  obtains "same_outside sv sv'"
    | s t cr fs where "parse getenv input (new_session False) = (True, s)"
        "auth_validate (se_auth e) s (sv_cred sv, w_files (sv_world sv)) = Inr (True, t, cr, fs)"
proof (cases "rejected e getenv input sv")
  case True
  then show ?thesis using serve_rejected[of e getenv input sv start] assms that(1) by auto
next
  case False
  then obtain s where p: "parse getenv input (new_session False) = (True, s)"
    by (cases "parse getenv input (new_session False)") (auto simp: rejected_def split: bool.splits)
  have "\<not> s_debug s" using parse_debug[OF p] by simp
  then obtain b t cr fs where "auth_validate (se_auth e) s (sv_cred sv, w_files (sv_world sv)) = Inr (b, t, cr, fs)"
    using assms p by (auto simp: serve_request_def serve_parsed_def run_auth_def Command_validate_def vyatta_debug_off bind_res_Inr_iff)
  then show ?thesis using that(2)[OF p] False p by (cases b) (auto simp: rejected_def)
qed

section \<open>Lemmas: sequences of requests\<close>

text \<open>
  What holds between two requests: the process has its own user and group again, and the table of the
  daemon is well-formed. In between, the daemon and the background commands work.
\<close>

definition server_inv :: "nat \<times> nat \<Rightarrow> server \<Rightarrow> bool" where
  "server_inv start sv \<longleftrightarrow> c_uid (sv_cred sv) = fst start \<and> c_gid (sv_cred sv) = snd start \<and> mgr_ok (sv_mgr sv)"

inductive server_step :: "nat \<times> nat \<Rightarrow> server \<Rightarrow> server \<Rightarrow> bool" for start where
  request: "serve_request e debug start getenv input sv = Inr (out, sv') \<Longrightarrow> server_step start sv sv'"
| daemon: "chunker_step (sv_mgr sv, sv_world sv) (m, w) \<Longrightarrow> server_step start sv (sv\<lparr>sv_mgr := m, sv_world := w\<rparr>)"

inductive_cases server_stepE: "server_step start sv sv'"

context message_closed
begin

lemma mode_of_mgr:
  assumes "mode_of e level path = Some process" "process s sv = Inr (t, sv')" "P (sv_mgr sv)"
  shows "P (sv_mgr sv')"
  using assms op_process_ok[of "se_op e" s "op_part sv"]
  by (auto simp: mode_of_def lift_mode_def bind_res_Inr_iff op_part_def put_op_def put_conf_def split: if_splits)

lemma dispatch_mgr: "dispatch e s sv = Inr (t, sv') \<Longrightarrow> P (sv_mgr sv) \<Longrightarrow> P (sv_mgr sv')"
  by (elim dispatch_cases) (auto dest: mode_of_mgr)

lemma serve_parsed_mgr:
  assumes "serve_parsed e debug s sv = Inr (out, sv')" "P (sv_mgr sv)"
  shows "P (sv_mgr sv')"
proof -
  obtain ok t sv1 where a: "run_auth e (vyatta_debug ''D'' (vyatta_debug ''C'' (vyatta_debug ''B'' s))) sv = Inr (ok, t, sv1)"
    using assms(1) by (auto simp: serve_parsed_def bind_res_Inr_iff)
  have m: "P (sv_mgr sv1)" using run_auth_same[OF a] assms(2) by (simp add: same_outside_def)
  show ?thesis using assms(1) a m
    by (cases ok) (auto simp: serve_parsed_def bind_res_Inr_iff Let_def split: if_splits dest: dispatch_mgr)
qed

lemma serve_request_mgr:
  assumes "serve_request e debug start getenv input sv = Inr (out, sv')" "P (sv_mgr sv)"
  shows "P (sv_mgr sv')"
proof -
  let ?sv = "if debug then dump_env e sv else sv"
  obtain ok s where p: "parse getenv input (new_session debug) = (ok, s)" by fastforce
  have m: "P (sv_mgr ?sv)" using assms(2) by (simp add: dump_env_def Let_def)
  obtain sv1 where d: "sv' = done_request e start sv1"
    "(case (ok, s) of (False, s) \<Rightarrow> bind_res (dispatch e s ?sv) (\<lambda>(t, sv1). Inr (print_response e t, sv1))
      | (True, s) \<Rightarrow> if \<not> Command_validate s then Inr (print_response e s, ?sv) else serve_parsed e debug s ?sv) = Inr (out, sv1)"
    using assms(1) unfolding serve_request_def Let_def p by (auto simp: bind_res_Inr_iff)
  have "P (sv_mgr sv1)" using d(2) m
    by (cases ok) (auto simp: Command_validate_def bind_res_Inr_iff dest: dispatch_mgr serve_parsed_mgr)
  then show ?thesis using d(1) by simp
qed

end

lemma serve_request_cred:
  "serve_request e debug start getenv input sv = Inr (out, sv') \<Longrightarrow>
     c_uid (sv_cred sv') = fst start \<and> c_gid (sv_cred sv') = snd start"
  by (auto simp: serve_request_def Let_def bind_res_Inr_iff)

lemma serve_request_inv:
  "serve_request e debug start getenv input sv = Inr (out, sv') \<Longrightarrow> mgr_ok (sv_mgr sv) \<Longrightarrow> server_inv start sv'"
  using serve_request_cred mgr.serve_request_mgr by (simp add: server_inv_def)

interpretation server: invariant_system "\<lambda>sv. c_uid (sv_cred sv) = fst start \<and> c_gid (sv_cred sv) = snd start \<and> chunker_init (sv_mgr sv, sv_world sv)"
  "server_step start" "server_inv start" for start
proof (unfold_locales, goal_cases)
  case (1 s)
  then show ?case using chunker.inv_init[of "(sv_mgr s, sv_world s)"] by (simp add: server_inv_def)
next
  case (2 s t)
  from 2(2) show ?case
  proof cases
    case request
    then show ?thesis using serve_request_inv 2(1) by (auto simp: server_inv_def)
  next
    case (daemon m w)
    then show ?thesis using chunker.inv_step[of "(sv_mgr s, sv_world s)" "(m, w)"] 2(1) by (simp add: server_inv_def)
  qed
qed

section \<open>Lemmas: the status line\<close>

lemma http_get_stored: "http_get h k \<noteq> [] \<Longrightarrow> map_of (param_coll h) k = Some (http_get h k)"
  by (simp add: http_get_def split: option.splits)

lemma serialize_loop_prefix: "prefix p out \<Longrightarrow> prefix p (fst (serialize_loop N vb ps (out, b)))"
proof (induction ps arbitrary: out b)
  case (Cons kv ps)
  then show ?case by (cases kv) (auto simp: Let_def split: option.splits)
qed simp

lemma serialize_status:
  assumes "http_get h HTTP_RESP_CODE = code" "code \<noteq> []" "length (http_get h HTTP_BODY) \<le> MAX_BODY_SIZE"
  shows "prefix (''Status: '' @ code @ CRLF) (fst (http_serialize N h))"
proof -
  let ?o = "''Status: '' @ code @ CRLF"
  have c: "map_of (param_coll h) HTTP_RESP_CODE = Some code" using http_get_stored[of h HTTP_RESP_CODE] assms(1,2) by simp
  have b: "\<not> MAX_BODY_SIZE < length x" if "map_of (param_coll h) HTTP_BODY = Some x" for x
    using assms(3) that by (simp add: http_get_def)
  obtain o3 body where l: "serialize_loop N (verbatim_body h) (param_coll h) (?o, []) = (o3, body)" by fastforce
  have "prefix ?o o3" using serialize_loop_prefix[of ?o ?o N "verbatim_body h" "param_coll h" "[]"] l by simp
  moreover have "fst (http_serialize N h) = (if body \<noteq> [] then o3 @ CRLF @ body else o3 @ CRLF)"
    using b l by (auto simp: http_serialize_def c Let_def split: option.splits)
  ultimately show ?thesis by (simp split: if_splits)
qed

lemma auth_failure_body: "length (http_get (response (Error AUTHORIZATION_FAILURE s)) HTTP_BODY) \<le> MAX_BODY_SIZE"
proof -
  have "json_serialize [] (error_json AUTHORIZATION_FAILURE []) =
      ''{'' @ jfield ''error'' ''0'' @ '','' @ jfield ''message'' ''Authorization failure'' @ ''}''" by code_simp
  then show ?thesis by (simp add: Error_def Error_msg_body rest_consts)
qed

lemma print_401: "prefix (''Status: 401'' @ CRLF) (print_response e (Error AUTHORIZATION_FAILURE s))"
proof -
  have "prefix (''Status: '' @ ''401'' @ CRLF) (fst (http_serialize (se_json e) (response (Error AUTHORIZATION_FAILURE s))))"
    using auth_failure_body by (intro serialize_status) simp_all
  then show ?thesis unfolding print_response_def by (intro c_str_prefix) simp_all
qed

section \<open>Properties\<close>

text \<open>
  C1: outside debug mode, a request that is not authenticated, or too large to be read, has no effect: it starts no command, runs no
  shell command, calls no daemon and changes no file outside the session files of the authentication
  scheme; the process has its own identity again afterwards. When authentication was refused the
  answer is 401.
\<close>

theorem rejected_request_no_effect:
  assumes "rejected e getenv input sv"
  shows "\<exists>out sv'. serve_request e False start getenv input sv = Inr (out, sv') \<and> same_outside sv sv' \<and>
    c_uid (sv_cred sv') = fst start \<and> c_gid (sv_cred sv') = snd start \<and>
    (fst (parse getenv input (new_session False)) \<longrightarrow> prefix (''Status: 401'' @ CRLF) out)"
proof -
  obtain out sv' where r: "serve_request e False start getenv input sv = Inr (out, sv')" "same_outside sv sv'"
    using serve_rejected[OF assms] by blast
  have c: "c_uid (sv_cred sv') = fst start \<and> c_gid (sv_cred sv') = snd start"
    using r(1) by (auto simp: serve_request_def bind_res_Inr_iff Let_def)
  have "prefix (''Status: 401'' @ CRLF) out" if ok: "fst (parse getenv input (new_session False))"
  proof -
    obtain s where p: "parse getenv input (new_session False) = (True, s)" using ok by (metis prod.collapse)
    then obtain t cr fs where "auth_validate (se_auth e) s (sv_cred sv, w_files (sv_world sv)) = Inr (False, t, cr, fs)"
      using assms by (auto simp: rejected_def)
    from serve_not_authenticated[OF p this] r(1) show ?thesis using print_401 by auto
  qed
  then show ?thesis using r c by blast
qed

definition example_server_env :: server_env where
  "example_server_env = \<lparr>se_auth = example_auth_env, se_mode = example_mode_env, se_op = example_op_env, se_conf = example_conf_env,
     se_dumps = (\<lambda>x. Some ''{}''), se_json = (\<lambda>b. None), se_loginuid = True, se_environ = [], se_dump = W_ok, se_out = W_ok\<rparr>"

definition example_server :: server where
  "example_server = \<lparr>sv_cred = example_root, sv_mgr = example_manager [], sv_world = example_world, sv_calls = []\<rparr>"

lemma example_rejected: "rejected example_server_env (\<lambda>n. None) [] sv"
proof -
  have "parse (\<lambda>n. None) [] (new_session False) = (True, new_session False)"
    by (simp add: parse_def parse_headers_def http_set_cstr_def http_get_def http_new_def)
  then show ?thesis by (simp add: rejected_def auth_validate_def http_get_def http_new_def)
qed

theorem rejected_request_no_effect_witness:
  "\<exists>out sv'. serve_request example_server_env False (0, 0) (\<lambda>n. None) [] example_server = Inr (out, sv') \<and>
    same_outside example_server sv' \<and> prefix (''Status: 401'' @ CRLF) out"
proof -
  have p: "parse (\<lambda>n. None) [] (new_session False) = (True, new_session False)"
    by (simp add: parse_def parse_headers_def http_set_cstr_def http_get_def http_new_def)
  from rejected_request_no_effect[OF example_rejected[of example_server], of "(0, 0)"] p show ?thesis by auto
qed

text \<open>
  C11: the invariant of the running server. From a start with its own identity and an empty daemon, after any
  sequence of requests, interleaved with the work of the daemon and its commands, the process has its own
  user and group again and the daemon's table is well-formed.
\<close>

theorem server_invariant:
  assumes "(server_step start)\<^sup>*\<^sup>* sv sv'" "sv_mgr sv = manager_new pid kt cs"
    and "c_uid (sv_cred sv) = fst start" "c_gid (sv_cred sv) = snd start"
  shows "c_uid (sv_cred sv') = fst start \<and> c_gid (sv_cred sv') = snd start \<and> mgr_ok (sv_mgr sv')"
  using server.inv_reachable[OF _ assms(1)] assms(2-4) by (auto simp: server_inv_def chunker_init_def)

theorem server_invariant_witness:
  "\<exists>sv1 sv2. server_step (0, 0) (example_server\<lparr>sv_mgr := fst example_start, sv_world := snd example_start\<rparr>) sv1 \<and>
     server_step (0, 0) sv1 sv2 \<and> mgr_ok (sv_mgr sv2) \<and> c_uid (sv_cred sv2) = 0"
proof -
  let ?sv = "example_server\<lparr>sv_mgr := fst example_start, sv_world := snd example_start\<rparr>"
  obtain m w where h: "handle_command example_env ''42'' ''show version'' ''vyatta'' (fst example_start) (snd example_start) = (m, w)"
    by fastforce
  have s1: "server_step (0, 0) ?sv (?sv\<lparr>sv_mgr := m, sv_world := w\<rparr>)"
    by (rule server_step.daemon) (use turn[OF example_submit[unfolded h]] in simp)
  obtain out sv2 where "serve_request example_server_env False (0, 0) (\<lambda>n. None) [] (?sv\<lparr>sv_mgr := m, sv_world := w\<rparr>) = Inr (out, sv2)"
    using serve_rejected[OF example_rejected, where start = "(0, 0)"] by blast
  then have s2: "server_step (0, 0) (?sv\<lparr>sv_mgr := m, sv_world := w\<rparr>) sv2" by (rule server_step.request)
  have run: "(server_step (0, 0))\<^sup>*\<^sup>* ?sv sv2"
    using s1 s2 by (blast intro: rtranclp.rtrancl_into_rtrancl)
  have "mgr_ok (sv_mgr sv2) \<and> c_uid (sv_cred sv2) = 0"
    using server_invariant[OF run _ _ _, of "''/tmp''" 300 98304] by (simp add: example_start_def example_server_def example_root_def)
  then show ?thesis using s1 s2 by blast
qed

text \<open>
  C18: service users and the others are kept apart. A session with the access level of service users reaches only
  paths below the service root, and a session of any other level reaches none of them: the request is
  answered with 400 and nothing changes.
\<close>

theorem service_users_confined:
  assumes "req_get s HTTP_REQ_URI \<noteq> []"
    and "(s_access_level s = k_VYATTASERVICE_USER) \<noteq> prefix SERVICE_REQ_ROOT (req_get s HTTP_REQ_URI)"
  shows "\<exists>t. dispatch e s sv = Inr (t, sv) \<and> http_get (response t) HTTP_RESP_CODE = ''400''"
proof -
  have f: "find_sub r p = Some 0 \<longleftrightarrow> prefix r p" for r p
    by (cases p) (auto split: if_splits)
  have "mode_of e (s_access_level s) (req_get s HTTP_REQ_URI) = None"
  proof (cases "s_access_level s = k_VYATTASERVICE_USER")
    case True
    then show ?thesis using assms(2) by (simp add: mode_of_def f)
  next
    case False
    then obtain r where "req_get s HTTP_REQ_URI = SERVICE_REQ_ROOT @ r" using assms(2) by (auto elim: prefixE)
    then show ?thesis using False by (simp add: mode_of_def f rest_consts)
  qed
  then show ?thesis using assms(1) by (simp add: dispatch_def Let_def)
qed

theorem service_users_confined_witness:
  "\<exists>t. dispatch example_server_env ((example_session ''GET'' ''/rest/conf'')\<lparr>s_access_level := k_VYATTASERVICE_USER\<rparr>) example_server =
    Inr (t, example_server) \<and> http_get (response t) HTTP_RESP_CODE = ''400''"
  by (rule service_users_confined) (simp_all add: example_session_def rest_consts)

text \<open>
  A request body announced as larger than the maximum is answered with 401, not with the 400 and the
  explanation that the parser has put into the response: the request is still dispatched, without authentication, and the
  mode overwrites them.
\<close>

theorem oversize_answered_401:
  assumes "req_get s HTTP_REQ_URI = path" "s = (new_session False)\<lparr>request := parse_headers getenv (http_new False)\<rparr>"
    and "MAX_BODY_SIZE < strtoul10 (req_get s HTTP_REQ_CONTENT_LENGTH)" "req_get s HTTP_REQ_CONTENT_LENGTH \<noteq> []"
    and "mode_of e k_VYATTAOP path \<noteq> None" "path \<noteq> []"
  shows "\<exists>t. serve_request e False start getenv input sv = Inr (print_response e t, done_request e start sv) \<and>
    http_get (response t) HTTP_RESP_CODE = ''401''"
proof -
  let ?s = "Error_msg VALIDATION_FAILURE ''Request body exceeds maximum allowable size'' s"
  have p: "parse getenv input (new_session False) = (False, ?s)" using assms(2-4) by (simp add: parse_def Let_def)
  obtain t where t: "dispatch e ?s sv = Inr (t, sv)" "serve_request e False start getenv input sv = Inr (print_response e t, done_request e start sv)"
    using serve_parse_failed[OF p, of e sv start] by blast
  have "auth_type ?s = AUTH_TYPE_NONE" "s_access_level ?s = k_VYATTAOP" "req_get ?s HTTP_REQ_URI = path"
    using assms(1) by (simp_all add: assms(2))
  then show ?thesis using dispatch_denied[of ?s e sv] t assms(5,6) by auto
qed

definition example_getenv :: "string \<Rightarrow> string option" where
  "example_getenv n = (if n = ''CONTENT_LENGTH'' then Some ''99999999'' else if n = ''REQUEST_URI'' then Some ''/rest/op'' else None)"

theorem oversize_answered_401_witness:
  "\<exists>t. serve_request example_server_env False (0, 0) example_getenv [] example_server =
      Inr (print_response example_server_env t, done_request example_server_env (0, 0) example_server) \<and>
    http_get (response t) HTTP_RESP_CODE = ''401''"
proof (rule oversize_answered_401[OF refl refl])
  have g: "example_getenv ''CONTENT_LENGTH'' = Some ''99999999''" "example_getenv ''REQUEST_URI'' = Some ''/rest/op''"
    "example_getenv ''REQUEST_METHOD'' = None" "example_getenv ''QUERY_STRING'' = None" "example_getenv ''ACCEPT'' = None"
    "example_getenv ''HTTP_AUTHORIZATION'' = None" "example_getenv ''HTTP_COOKIE'' = None" "example_getenv ''HOST'' = None"
    "example_getenv ''VYATTA_SPECIFICATION_VERSION'' = None" "example_getenv ''HTTP_PRAGMA'' = None"
    by (simp_all add: example_getenv_def)
  let ?s = "(new_session False)\<lparr>request := parse_headers example_getenv (http_new False)\<rparr>"
  have r: "req_get ?s HTTP_REQ_URI = ''/rest/op''" "req_get ?s HTTP_REQ_CONTENT_LENGTH = ''99999999''"
    by (simp_all add: parse_headers_def g http_set_cstr_def c_str_def)
  have n: "strtoul10 ''99999999'' = 99999999"
    by (simp add: strtoul10_def c_str_def is_space_def dec_val_def to_ulong_def)
  show "MAX_BODY_SIZE < strtoul10 (req_get ?s HTTP_REQ_CONTENT_LENGTH)" unfolding r n by (simp add: rest_consts)
  show "req_get ?s HTTP_REQ_CONTENT_LENGTH \<noteq> []" "req_get ?s HTTP_REQ_URI \<noteq> []" unfolding r by simp_all
  show "mode_of example_server_env k_VYATTAOP (req_get ?s HTTP_REQ_URI) \<noteq> None" unfolding r by (simp add: mode_of_def rest_consts)
qed

text \<open>The way of an authenticated request through parsing, authentication and dispatch to the operational mode.\<close>

lemma serve_op:
  assumes "parse getenv input (new_session False) = (True, s)"
    and "auth_validate (se_auth e) s (sv_cred sv, w_files (sv_world sv)) = Inr (True, t, cr, fs)"
    and "s_access_level t \<noteq> k_VYATTASERVICE_USER" "req_get t HTTP_REQ_URI = OP_REQ_ROOT @ rest"
    and "op_process (se_op e) t (sv_mgr sv, (sv_world sv)\<lparr>w_files := fs\<rparr>) = Inr (u, st)"
  shows "serve_request e False start getenv input sv =
    Inr (fst (http_serialize (se_json e) (response u)), done_request e start (sv\<lparr>sv_cred := cr, sv_mgr := fst st, sv_world := snd st\<rparr>))"
proof -
  let ?sv1 = "sv\<lparr>sv_cred := cr, sv_world := (sv_world sv)\<lparr>w_files := fs\<rparr>\<rparr>"
  have dbg: "\<not> s_debug s" "\<not> s_debug t" using parse_debug[OF assms(1)] validate.kept[OF assms(2)] by simp_all
  have "mode_of e (s_access_level t) (req_get t HTTP_REQ_URI) = Some (lift_mode op_part put_op (op_process (se_op e)))"
    using assms(3) by (simp add: mode_of_def assms(4) rest_consts)
  then have "dispatch e t ?sv1 = Inr (u, put_op st ?sv1)"
    using assms(5) dbg(2) assms(4) by (simp add: dispatch_def vyatta_debug_off lift_mode_def rest_consts op_part_def)
  then have "serve_parsed e False s sv = Inr (fst (http_serialize (se_json e) (response u)), put_op st ?sv1)"
    using assms(2) dbg by (simp add: serve_parsed_def run_auth_def vyatta_debug_off Let_def)
  then show ?thesis using assms(1) by (simp add: serve_request_def Command_validate_def put_op_def)
qed

lemma serve_op_post:
  assumes "parse getenv input (new_session False) = (True, s)"
    and "auth_validate (se_auth e) s (sv_cred sv, w_files (sv_world sv)) = Inr (True, t, cr, fs)" "\<not> service_user t"
    and "s_access_level t \<noteq> k_VYATTASERVICE_USER"
    and "op_request t ''POST'' (join ''/'' ((c # word) # args))" "args \<noteq> []"
    and "slash_free word" "oe_unescape (se_op e) word \<noteq> None"
    and "\<forall>x \<in> set args. slash_free x \<and> oe_unescape (se_op e) x = Some (de x)"
    and "cmd = (c # word) @ concat (map (\<lambda>x. quote_arg (c_str (de x))) args)"
    and "msg_text cmd" "msg_text tok" "msg_text (s_user t)" "16 \<le> length tok" "length (COMMAND_MSG tok cmd (s_user t)) < 1024"
    and "oe_token (se_op e) = Some tok" "oe_init (se_op e) 0" "l_write (oe_link (se_op e) 0)"
  shows "map_option fst (ae_getpwnam (se_auth e) (c_str (s_user t))) = Some (c_uid cr) \<and>
    (\<exists>out sv'. serve_request e False start getenv input sv = Inr (out, sv') \<and>
      (sv_mgr sv', sv_world sv') = handle_command (l_env (oe_link (se_op e) 0)) tok cmd (s_user t) (sv_mgr sv) ((sv_world sv)\<lparr>w_files := fs\<rparr>) \<and>
      c_uid (sv_cred sv') = fst start)"
proof -
  let ?hc = "handle_command (l_env (oe_link (se_op e) 0)) tok cmd (s_user t) (sv_mgr sv) ((sv_world sv)\<lparr>w_files := fs\<rparr>)"
  have su: "\<not> service_user s" using parse_auth[OF assms(1)] by simp
  have path: "req_get t HTTP_REQ_URI = OP_REQ_ROOT @ ''/'' @ join ''/'' ((c # word) # args)" using assms(5) by (simp add: op_request_def)
  have tr: "translate_rest_to_cli (oe_unescape (se_op e)) (join ''/'' ((c # word) # args)) = Inr cmd"
    using translate_words[OF assms(7,8,6,9)] assms(10) by simp
  have "tok \<noteq> []" using assms(14) by auto
  then obtain u where "op_process (se_op e) t (sv_mgr sv, (sv_world sv)\<lparr>w_files := fs\<rparr>) = Inr (u, ?hc)"
    using op_post_path[OF assms(5) tr assms(17)] start_command[OF assms(12,14,11,13,18,15)] assms(16) by simp
  note serve_op[OF assms(1,2,4) path this, of start]
  moreover have "map_option fst (ae_getpwnam (se_auth e) (c_str (s_user t))) = Some (c_uid cr)"
    using validate.accepted_user[OF assms(2) su assms(3)] .
  ultimately show ?thesis by auto
qed

text \<open>
  from the wire to the daemon. An authenticated POST of a command below \<open>/rest/op\<close> is handed to the daemon as the
  quoted command line, under the name of the account that passed authentication and a fresh token,
  while the process runs with the number of that account; afterwards the process has its own identity again.
\<close>

theorem request_reaches_daemon:
  assumes "parse getenv input (new_session False) = (True, s)"
    and "auth_validate (se_auth e) s (sv_cred sv, w_files (sv_world sv)) = Inr (True, t, cr, fs)" "\<not> service_user t"
    and "s_access_level t \<noteq> k_VYATTASERVICE_USER"
    and "op_request t ''POST'' (join ''/'' ((c # word) # args))" "args \<noteq> []"
    and "slash_free word" "oe_unescape (se_op e) word \<noteq> None"
    and "\<forall>x \<in> set args. slash_free x \<and> oe_unescape (se_op e) x = Some (de x)"
    and "cmd = (c # word) @ concat (map (\<lambda>x. quote_arg (c_str (de x))) args)"
    and "msg_text cmd" "msg_text tok" "msg_text (s_user t)" "16 \<le> length tok" "length (COMMAND_MSG tok cmd (s_user t)) < 1024"
    and "oe_token (se_op e) = Some tok" "oe_init (se_op e) 0" "l_write (oe_link (se_op e) 0)"
  shows "map_option fst (ae_getpwnam (se_auth e) (c_str (s_user t))) = Some (c_uid cr) \<and>
    (\<exists>out sv'. serve_request e False start getenv input sv = Inr (out, sv') \<and>
      (sv_mgr sv', sv_world sv') = handle_command (l_env (oe_link (se_op e) 0)) tok cmd (s_user t) (sv_mgr sv) ((sv_world sv)\<lparr>w_files := fs\<rparr>) \<and>
      c_uid (sv_cred sv') = fst start)"
  using assms by (rule serve_op_post)

definition alice_getenv :: "string \<Rightarrow> string option" where
  "alice_getenv n = (if n = ''HTTP_AUTHORIZATION'' then Some ''Basic YWxpY2U6cHc='' else if n = ''REQUEST_URI'' then Some ''/rest/op/show/version''
     else if n = ''REQUEST_METHOD'' then Some ''POST'' else None)"

definition alice_session :: Session where
  "alice_session = (new_session False)\<lparr>request := parse_headers alice_getenv (http_new False)\<rparr>"

lemma alice_request:
  "req_get alice_session HTTP_REQ_URI = ''/rest/op/show/version''" "req_get alice_session HTTP_REQ_METHOD = ''POST''"
  "req_get alice_session HTTP_REQ_AUTHORIZATION = ''Basic YWxpY2U6cHc=''" "req_get alice_session HTTP_REQ_CONTENT_LENGTH = []"
  "req_get alice_session HTTP_REQ_PRAGMA = []" "req_get alice_session HTTP_REQ_COOKIE = []"
  by (simp_all add: alice_session_def parse_headers_def alice_getenv_def http_set_cstr_def c_str_def)

text \<open>Whoever asks with these credentials is accepted as the same account, and the session is changed in the identity only.\<close>

lemma credentials_accepted:
  assumes "req_get s HTTP_REQ_AUTHORIZATION = ''Basic YWxpY2U6cHc=''" "req_get s HTTP_REQ_PRAGMA = []" "req_get s HTTP_REQ_COOKIE = []"
    and "\<not> s_debug s" "\<not> service_user s" "find_sub ''/rest/service'' (req_get s HTTP_REQ_URI) \<noteq> Some 0"
  shows "\<exists>cr'. auth_validate example_auth_env s (cr, fs) =
    Inr (True, s\<lparr>s_user := ''alice'', s_access_level := k_VYATTACFG, auth_type := AUTH_TYPE_BASIC\<rparr>, cr', fs)"
  using assms(4-6)
  by (simp add: auth_validate_def assms(1-3) vyatta_debug_off example_auth_env_def auth_coll_def basic_handle_def rest_consts
      basic_authorized_def basic_credentials_def base64Decode_def Let_def basic_login_def basic_service_def basic_account_def
      basic_finish_def basic_pam_def conv_fun_def basic_identity_def c_str_def contains_def dbg_append_def)

definition alice_asks :: "string \<Rightarrow> string \<Rightarrow> string \<Rightarrow> string option" where
  "alice_asks meth uri n = (if n = ''HTTP_AUTHORIZATION'' then Some ''Basic YWxpY2U6cHc='' else if n = ''REQUEST_URI'' then Some uri
     else if n = ''REQUEST_METHOD'' then Some meth else None)"

lemma alice_asks_accepted:
  assumes "NUL \<notin> set uri" "NUL \<notin> set meth" "find_sub ''/rest/service'' uri \<noteq> Some 0"
  obtains s t where "parse (alice_asks meth uri) [] (new_session False) = (True, s)"
    "\<forall>cr fs. \<exists>cr'. auth_validate example_auth_env s (cr, fs) = Inr (True, t, cr', fs)"
    "s_user t = ''alice''" "s_access_level t = k_VYATTACFG" "auth_type t = AUTH_TYPE_BASIC" "\<not> s_debug t"
    "req_get t HTTP_REQ_URI = uri" "req_get t HTTP_REQ_METHOD = meth" "response t = response (new_session False)"
proof -
  let ?s = "(new_session False)\<lparr>request := parse_headers (alice_asks meth uri) (http_new False)\<rparr>"
  let ?t = "?s\<lparr>s_user := ''alice'', s_access_level := k_VYATTACFG, auth_type := AUTH_TYPE_BASIC\<rparr>"
  have req: "req_get ?s HTTP_REQ_URI = uri" "req_get ?s HTTP_REQ_METHOD = meth"
    "req_get ?s HTTP_REQ_AUTHORIZATION = ''Basic YWxpY2U6cHc=''" "req_get ?s HTTP_REQ_CONTENT_LENGTH = []"
    "req_get ?s HTTP_REQ_PRAGMA = []" "req_get ?s HTTP_REQ_COOKIE = []"
    using assms(1,2) by (simp_all add: parse_headers_def alice_asks_def http_set_cstr_def c_str_id)
  show ?thesis
  proof (rule that[of ?s ?t])
    show "parse (alice_asks meth uri) [] (new_session False) = (True, ?s)" using req(4) by (simp add: parse_def Let_def)
    show "\<forall>cr fs. \<exists>cr'. auth_validate example_auth_env ?s (cr, fs) = Inr (True, ?t, cr', fs)"
      using credentials_accepted[of ?s] req assms(3) by simp
  qed (use req in simp_all)
qed

lemma alice_accepted:
  "\<exists>t cr. auth_validate example_auth_env alice_session (example_root, fs) = Inr (True, t, cr, fs) \<and> s_user t = ''alice'' \<and>
    \<not> service_user t \<and> s_access_level t = k_VYATTACFG \<and> auth_type t = AUTH_TYPE_BASIC \<and> request t = request alice_session"
proof -
  have "\<not> s_debug alice_session" "\<not> service_user alice_session" by (simp_all add: alice_session_def)
  from credentials_accepted[OF alice_request(3,5,6) this] show ?thesis
    using alice_request(1) \<open>\<not> service_user alice_session\<close> by fastforce
qed

theorem request_reaches_daemon_witness:
  "\<exists>out sv'. serve_request example_server_env False (0, 0) alice_getenv [] example_server = Inr (out, sv') \<and>
    (sv_mgr sv', sv_world sv') = handle_command example_env ''0123456789ABCDEF'' (''show '' @ [APOS] @ ''version'' @ [APOS]) ''alice''
      (example_manager []) example_world"
proof -
  let ?e = example_server_env and ?cmd = "''show '' @ [APOS] @ ''version'' @ [APOS]"
  have p: "parse alice_getenv [] (new_session False) = (True, alice_session)"
    using alice_request(4) by (simp add: parse_def Let_def alice_session_def)
  have env: "se_auth ?e = example_auth_env" "se_op ?e = example_op_env" "sv_cred example_server = example_root"
    "sv_mgr example_server = example_manager []" "sv_world example_server = example_world"
    by (simp_all add: example_server_env_def example_server_def)
  obtain t cr where a: "auth_validate (se_auth ?e) alice_session (sv_cred example_server, w_files (sv_world example_server)) =
      Inr (True, t, cr, w_files example_world)" "s_user t = ''alice''" "\<not> service_user t" "s_access_level t = k_VYATTACFG"
      "auth_type t = AUTH_TYPE_BASIC" "request t = request alice_session"
    using alice_accepted[of "w_files example_world"] env by auto
  have op: "op_request t ''POST'' (join ''/'' ((CHR ''s'' # ''how'') # [''version'']))"
    using a(5,6) alice_request(1,2) by (simp add: op_request_def rest_consts)
  have oe: "l_env (oe_link example_op_env 0) = example_env" "l_write (oe_link example_op_env 0)" "oe_init example_op_env 0"
    "oe_token example_op_env = Some ''0123456789ABCDEF''" "oe_unescape example_op_env = Some"
    by (simp_all add: example_op_env_def example_link_def)
  have q: "?cmd = (CHR ''s'' # ''how'') @ concat (map (\<lambda>x. quote_arg (c_str x)) [''version''])" by (simp add: quote_arg_def c_str_def)
  have w: "example_world\<lparr>w_files := w_files example_world\<rparr> = example_world" by simp
  show ?thesis
    using request_reaches_daemon[where de = "\<lambda>x. x" and tok = "''0123456789ABCDEF''" and start = "(0, 0)", OF p a(1,3) _ op _ _ _ _ q] a(2,4)
    by (auto simp: env oe w slash_free_def msg_text_def COMMAND_MSG_def)
qed

end
