(* ===== verification/Chunker_Jobs.thy ===== *)
theory Chunker_Jobs
  imports Chunker_Manager
begin

text \<open>
  What the chunker daemon promises, without tags, files and process ids: a table of jobs, each
  with an owner, a statement and a flag whether its output was read to the end. A job is
  submitted under a free token, finishes once, and disappears by removal; nothing else
  happens to it. The daemon of \<open>Chunker_Manager\<close> refines this specification.
\<close>

section \<open>The abstract table\<close>

record job =
  j_owner :: string
  j_statement :: string
  j_finished :: bool

type_synonym jobs = "string \<rightharpoonup> job"

inductive jobs_step :: "jobs \<Rightarrow> jobs \<Rightarrow> bool" where
  submit: "J t = None \<Longrightarrow> t \<noteq> [] \<Longrightarrow> st \<noteq> [] \<Longrightarrow> u \<noteq> [] \<Longrightarrow>
     jobs_step J (J(t \<mapsto> \<lparr>j_owner = u, j_statement = st, j_finished = False\<rparr>))"
| finish: "J t = Some j \<Longrightarrow> \<not> j_finished j \<Longrightarrow> jobs_step J (J(t \<mapsto> j\<lparr>j_finished := True\<rparr>))"
| remove: "J t = Some j \<Longrightarrow> jobs_step J (J(t := None))"

inductive_cases jobs_stepE: "jobs_step J J'"

lemma jobs_step_keeps:
  "jobs_step J J' \<Longrightarrow> J t = Some j \<Longrightarrow> J' t = Some j' \<Longrightarrow> j' = j \<or> j' = j\<lparr>j_finished := True\<rparr>"
  by (erule jobs_stepE) (auto split: if_splits)

section \<open>The table of the daemon\<close>

definition job_of :: "ProcessData \<Rightarrow> job" where
  "job_of pd = \<lparr>j_owner = pd_user pd, j_statement = pd_command pd, j_finished = (pd_status pd = K_DEAD)\<rparr>"

definition job_table :: "manager \<Rightarrow> jobs" where
  "job_table m t = map_option job_of (map_of (proc_coll m) t)"

lemma job_table_put [simp]: "job_table (m\<lparr>proc_coll := map_put k pd (proc_coll m)\<rparr>) = (job_table m)(k \<mapsto> job_of pd)"
  by (rule ext) (simp add: job_table_def map_put_get)

lemma job_table_insert [simp]:
  "job_table (m\<lparr>proc_coll := map_insert k pd (proc_coll m)\<rparr>) =
     (if job_table m k = None then (job_table m)(k \<mapsto> job_of pd) else job_table m)"
  by (auto simp: map_insert_def job_table_def split: option.splits)

lemma job_table_erase [simp]: "job_table (m\<lparr>proc_coll := map_erase k (proc_coll m)\<rparr>) = (job_table m)(k := None)"
  by (rule ext) (simp add: job_table_def map_erase_get)

lemma job_of_update [simp]:
  "job_of (pd\<lparr>last_update := x\<rparr>) = job_of pd"
  "job_of (pd\<lparr>read_offset := off\<rparr>) = job_of pd"
  by (simp_all add: job_of_def)

lemma job_of_advance: "job_of (advance fs t cs pd) = job_of pd \<or> job_of (advance fs t cs pd) = job_of pd\<lparr>j_finished := True\<rparr>"
  by (auto simp: advance_def Let_def job_of_def split: option.splits)

section \<open>Every handler is a step of the specification\<close>

lemma same_job: "J t = Some j \<Longrightarrow> jobs_step\<^sup>=\<^sup>= J (J(t \<mapsto> j))"
  by (simp add: map_upd_triv)

lemma finish_job: "J t = Some j \<Longrightarrow> jobs_step\<^sup>=\<^sup>= J (J(t \<mapsto> j\<lparr>j_finished := True\<rparr>))"
  using finish[of J t j] same_job[of J t j] by (cases "j_finished j") auto

lemma remove_job: "jobs_step\<^sup>=\<^sup>= J (J(t := None))"
  using remove[of J t] by (cases "J t") (auto simp: fun_upd_idem)

lemma command_refines: "jobs_step\<^sup>=\<^sup>= (job_table m) (job_table (fst (handle_command e token statement user m w)))"
proof (cases "map_of (proc_coll m) token \<noteq> None \<and> statement = []")
  case True
  then show ?thesis using same_job[of "job_table m" token]
    by (auto simp: handle_command_def job_table_def)
next
  case False
  obtain st fs ends where s: "start_new (e_os e) (w_files w) (e_cred e) (m_pid m) token statement user = (st, fs, ends)"
    by (metis prod_cases3)
  then have "st \<Longrightarrow> token \<noteq> [] \<and> statement \<noteq> [] \<and> user \<noteq> []" by (auto simp: start_new_def split: if_splits)
  then show ?thesis using False s submit[of "job_table m" token statement user]
    by (auto simp: handle_command_def job_of_def ProcessData_new_def split: option.splits bool.splits)
qed

lemma next_refines: "jobs_step\<^sup>=\<^sup>= (job_table m) (job_table (snd (handle_next fs token user m)))"
proof (cases "map_of (proc_coll m) token")
  case None
  then show ?thesis by (simp add: handle_next_def)
next
  case (Some pd)
  then have j: "job_table m token = Some (job_of pd)" by (simp add: job_table_def)
  let ?pd = "if pd_status pd = K_DEAD then pd\<lparr>read_offset := - 1\<rparr> else pd"
  have "job_of ?pd = job_of pd" by simp
  then have "jobs_step\<^sup>=\<^sup>= (job_table m) ((job_table m)(token \<mapsto> job_of (advance fs token (chunk_size m) ?pd)))"
    using same_job[of "job_table m", OF j] finish_job[of "job_table m", OF j] job_of_advance[of fs token "chunk_size m" ?pd] by metis
  then show ?thesis using Some by (simp add: handle_next_def Let_def)
qed

lemma kill_refines: "jobs_step\<^sup>=\<^sup>= (job_table m) (job_table (fst (kill_process e key m w)))"
  using remove_job[of "job_table m" key]
  by (auto simp: kill_process_def Let_def split: option.splits prod.splits)

lemmas handler_refines = command_refines next_refines kill_refines

lemma process_refines: "jobs_step\<^sup>=\<^sup>= (job_table m) (job_table (fst (snd (manager_process e sock buf m w))))"
  unfolding manager_process_def Let_def
  using handler_refines by (simp split: option.splits prod.splits) (metis fst_conv snd_conv)

lemma read_refines: "manager_read e c m w = Inr (r, m', w') \<Longrightarrow> jobs_step\<^sup>=\<^sup>= (job_table m) (job_table m')"
  using process_refines[of m e] by (auto simp: manager_read_def split: connection.splits) (metis fst_conv snd_conv)

interpretation jobs: simulation chunker_init chunker_step "\<lambda>s. mgr_ok (fst s)" "\<lambda>s. job_table (fst s)" jobs_step
proof unfold_locales
  fix s t assume "chunker_step s t"
  then show "jobs_step\<^sup>=\<^sup>= (job_table (fst s)) (job_table (fst t))"
    by (cases s) (auto elim!: chunker_stepE dest: read_refines)
qed

section \<open>Properties\<close>

text \<open>C9: the daemon refines the table of jobs. From its start, whatever messages arrive and
  whatever happens to the files, its process table passes through the states of the abstract
  table only: a job is submitted under a free token by a named user, finishes, is removed.
  So in any one step a job that is still there has kept its owner and its statement, and a
  finished one stays finished.\<close>

theorem daemon_refines_jobs:
  assumes "chunker_step\<^sup>*\<^sup>* (manager_new pid kt cs, w) (m, w1)" and "chunker_step (m, w1) (m', w2)"
  shows "jobs_step\<^sup>*\<^sup>* Map.empty (job_table m) \<and>
    (jobs_step (job_table m) (job_table m') \<or> job_table m' = job_table m) \<and>
    (\<forall>t j j'. job_table m t = Some j \<and> job_table m' t = Some j' \<longrightarrow>
       j' = j \<or> j' = j\<lparr>j_finished := True\<rparr>)"
proof -
  have start: "job_table (manager_new pid kt cs) = Map.empty"
    by (rule ext) (simp add: job_table_def manager_new_def)
  have init: "chunker_init (manager_new pid kt cs, w)" by (auto simp: chunker_init_def)
  have one: "jobs_step\<^sup>=\<^sup>= (job_table m) (job_table m')"
    using jobs.simulated[OF chunker.inv_reachable[OF init assms(1)] assms(2)] by simp
  then show ?thesis
    using jobs.simulated_reachable[OF init assms(1)] jobs_step_keeps[of "job_table m" "job_table m'"]
    unfolding fst_conv start by auto
qed

lemma example_table:
  "job_table (fst (handle_command example_env ''42'' ''show version'' ''vyatta'' (fst example_start) (snd example_start))) =
     [''42'' \<mapsto> \<lparr>j_owner = ''vyatta'', j_statement = ''show version'', j_finished = False\<rparr>]"
  by (rule ext) (simp add: handle_command_def start_new_def example_env_def example_os_def example_start_def
      writer_proc_def Let_def job_of_def job_table_def map_insert_def ProcessData_new_def manager_new_def
      split: prod.splits)

theorem daemon_refines_jobs_witness:
  "jobs_step Map.empty
     (job_table (fst (handle_command example_env ''42'' ''show version'' ''vyatta'' (fst example_start) (snd example_start))))"
proof -
  obtain m' w' where h: "handle_command example_env ''42'' ''show version'' ''vyatta'' (fst example_start) (snd example_start)
      = (m', w')" by fastforce
  have start: "job_table (fst example_start) = Map.empty"
    by (rule ext) (simp add: job_table_def example_start_def manager_new_def)
  note step = turn[OF example_submit[unfolded h]]
  from daemon_refines_jobs[of "''/tmp''" 300 98304 "snd example_start" "fst example_start" "snd example_start", OF _ step]
  show ?thesis using example_table by (simp add: h start) (simp add: example_start_def)
qed

end
