(* ===== verification/Job_Isolation.thy ===== *)
theory Job_Isolation
  imports Server Chunker_Jobs
begin

text \<open>
  The jobs of one user under the requests of another. Each request of the operational mode sends at most three
  messages to the daemon; it is shown message by message that a job of somebody else keeps its owner,
  its statement and its state, whatever is requested; a DELETE can end the one job whose token it names, since
  the daemon does not compare users when it is told to delete.
\<close>

section \<open>The handlers\<close>

definition foreign_kept :: "string \<Rightarrow> manager \<Rightarrow> manager \<Rightarrow> bool" where
  "foreign_kept u m m' \<longleftrightarrow> (\<forall>t j. job_table m t = Some j \<and> j_owner j \<noteq> u \<longrightarrow> job_table m' t = Some j)"

definition owner_of :: "manager \<Rightarrow> string \<Rightarrow> string option" where
  "owner_of m t = map_option j_owner (job_table m t)"

lemma foreign_kept_refl [simp]: "foreign_kept u m m"
  by (simp add: foreign_kept_def)

lemma foreign_kept_trans: "foreign_kept u m m' \<Longrightarrow> foreign_kept u m' m'' \<Longrightarrow> foreign_kept u m m''"
  by (simp add: foreign_kept_def)

lemma foreign_kept_upd:
  "job_table m' = (job_table m)(k := x) \<Longrightarrow> owner_of m k \<in> {None, Some u} \<Longrightarrow> foreign_kept u m m'"
  by (auto simp: foreign_kept_def owner_of_def)

lemma owner_of_entry: "owner_of m t = map_option pd_user (map_of (proc_coll m) t)"
  by (simp add: owner_of_def job_table_def option.map_comp comp_def job_of_def)

lemma command_effect:
  "job_table (fst (handle_command e token statement user m w)) = job_table m \<or>
   (job_table m token = None \<and> token \<noteq> [] \<and> statement \<noteq> [] \<and>
    job_table (fst (handle_command e token statement user m w)) =
      (job_table m)(token \<mapsto> \<lparr>j_owner = user, j_statement = statement, j_finished = False\<rparr>))"
proof (cases "map_of (proc_coll m) token \<noteq> None \<and> statement = []")
  case True
  then obtain pd where pd: "map_of (proc_coll m) token = Some pd" by auto
  then have "job_table m token = Some (job_of pd)" by (simp add: job_table_def)
  then have "(job_table m)(token \<mapsto> job_of pd) = job_table m" by (rule map_upd_triv)
  then show ?thesis using True pd by (simp add: handle_command_def)
next
  case False
  obtain st fs ends where s: "start_new (e_os e) (w_files w) (e_cred e) (m_pid m) token statement user = (st, fs, ends)"
    by (metis prod_cases3)
  then have "st \<Longrightarrow> token \<noteq> [] \<and> statement \<noteq> []" by (auto simp: start_new_def split: if_splits)
  then show ?thesis using False s
    by (auto simp: handle_command_def job_of_def ProcessData_new_def split: option.splits bool.splits)
qed

lemma command_keeps_foreign: "foreign_kept u m (fst (handle_command e token statement user m w))"
  using command_effect[where m = m and e = e and token = token and statement = statement and user = user and w = w] by (auto simp: foreign_kept_def)

lemma next_keeps_foreign:
  "foreign_kept u m (snd (handle_next fs token u m)) \<and> owner_of (snd (handle_next fs token u m)) token = owner_of m token"
proof (cases "\<exists>pd. map_of (proc_coll m) token = Some pd \<and> pd_user pd = u")
  case True
  then obtain pd where pd: "map_of (proc_coll m) token = Some pd" "pd_user pd = u" by blast
  let ?pd = "advance fs token (chunk_size m) (if pd_status pd = K_DEAD then pd\<lparr>read_offset := - 1\<rparr> else pd)"
  have m: "snd (handle_next fs token u m) = m\<lparr>proc_coll := map_put token ?pd (proc_coll m)\<rparr>"
    using pd by (simp add: handle_next_def Let_def)
  have "pd_user ?pd = u" using pd(2) by (simp add: advance_def Let_def split: option.splits)
  then show ?thesis unfolding m using pd
    by (auto simp: owner_of_entry map_put_get intro: foreign_kept_upd[of _ _ token "Some (job_of ?pd)"])
next
  case False
  then have "snd (handle_next fs token u m) = m" by (auto simp: handle_next_def split: option.splits)
  then show ?thesis by simp
qed

lemma kill_keeps_others: "tok \<noteq> key \<Longrightarrow> job_table (fst (kill_process e key m w)) tok = job_table m tok"
  by (auto simp: kill_process_def Let_def split: option.splits prod.splits)

lemma kill_keeps_foreign:
  assumes "owner_of m key \<in> {None, Some u}"
  shows "foreign_kept u m (fst (kill_process e key m w))"
proof (cases "fst (kill_process e key m w) = m")
  case False
  then have "fst (kill_process e key m w) = m\<lparr>proc_coll := map_erase key (proc_coll m)\<rparr>"
    by (auto simp: kill_process_def Let_def split: option.splits prod.splits if_splits)
  then show ?thesis using assms by (auto intro: foreign_kept_upd[of _ _ key None])
qed simp

section \<open>The messages\<close>

lemma start_keeps_foreign:
  assumes "mrc_start l tok user cmd s = Inr (i, s')"
  shows "foreign_kept u (fst s) (fst s')"
proof (cases "s' = s")
  case False
  then obtain t buffer r where b: "sprintf1024 (COMMAND_MSG (c_str t) (c_str cmd) (c_str user)) = Inr buffer"
    "send l buffer s = Some (r, s')"
    using assms by (auto simp: mrc_start_def bind_res_Inr_iff split: option.splits if_splits)
  let ?msg = "COMMAND_MSG (c_str t) (c_str cmd) (c_str user)"
  have "NUL \<notin> set ?msg" by (simp add: COMMAND_MSG_def c_str_no_NUL)
  then have c: "c_str (take 1024 buffer) = ?msg" using sprintf1024_sent[OF b(1)] by simp
  have "contains ?msg ''<command>''"
    unfolding contains_iff COMMAND_MSG_def by (rule exI[of _ "''<vyatta>''"]) simp
  then show ?thesis using b(2) command_keeps_foreign[of u "fst s" "l_env l"]
    by (auto simp: send_def manager_process_def Let_def c split: if_splits option.splits)
qed simp

lemma send_process:
  assumes "sprintf1024 (PROCESS_MSG ''123456'' user) = Inr buffer" and "send l buffer s = Some (r, s')" and "msg_text user"
  shows "s' = s"
proof -
  have t: "msg_text ''123456''" by (simp add: msg_text_def)
  have "NUL \<notin> set (PROCESS_MSG ''123456'' user)" using assms(3) by (simp add: PROCESS_MSG_def msg_text_def)
  then have "c_str (take 1024 buffer) = PROCESS_MSG ''123456'' user" using sprintf1024_sent[OF assms(1)] by simp
  then show ?thesis using assms(2) process_tags[OF t assms(3)]
    by (auto simp: send_def manager_process_def Let_def split: if_splits)
qed

lemma send_details:
  assumes "sprintf1024 (DETAILS_MSG token user) = Inr buffer" and "send l buffer s = Some (r, s')"
    and "msg_text token" and "msg_text user"
  shows "s' = s \<and> r = Some (handle_details token user (proc_coll (fst s)))"
proof -
  have "l_write l" using assms(2) by (auto simp: send_def split: if_splits)
  from send_details_msg[OF assms(1,3,4) this, of "fst s" "snd s"] show ?thesis using assms(2) by simp
qed

lemma processes_keep:
  assumes "get_processes l user s = Inr (ps, s')" and "msg_text user"
  shows "s' = s"
proof (cases "user = []")
  case False
  then have "bind_res (sprintf1024 (PROCESS_MSG ''123456'' user)) (\<lambda>buffer. case send l buffer s of None \<Rightarrow> Inr ([], s)
      | Some (r, s1) \<Rightarrow> if \<not> l_read l then Inr ([], s1)
          else bind_res (recv r) (\<lambda>out. Inr (map parse_entry (str_coll out ''%2C''), s1))) = Inr (ps, s')"
    using assms by (simp add: get_processes_def msg_textD)
  then show ?thesis by (cases rule: reply_cases) (use send_process assms(2) in auto)
qed (use assms in \<open>simp add: get_processes_def\<close>)

lemma details_keep:
  assumes "get_process_details l user token s = Inr (pd, s')" and "msg_text user" and "msg_text token" and "mgr_ok (fst s)"
  shows "s' = s \<and> (p_id pd \<noteq> [] \<longrightarrow> owner_of (fst s) token = Some user)"
proof (cases "user = [] \<or> token = []")
  case False
  let ?r = "handle_details token user (proc_coll (fst s))"
  have n: "p_id proc_info_new = []" by (simp add: proc_info_new_def)
  have "bind_res (sprintf1024 (DETAILS_MSG token user)) (\<lambda>buffer. case send l buffer s of None \<Rightarrow> Inr (proc_info_new, s)
      | Some (r, s1) \<Rightarrow> if \<not> l_read l then Inr (proc_info_new, s1) else bind_res (recv r) (\<lambda>out.
          Inr (case str_coll out ''%2C'' of [] \<Rightarrow> proc_info_new | t # _ \<Rightarrow> parse_entry t, s1))) = Inr (pd, s')"
    using False assms(1-3) by (simp add: get_process_details_def msg_textD)
  then show ?thesis
  proof (cases rule: reply_cases)
    case (2 buffer r)
    then show ?thesis using send_details[OF 2(1,2) assms(3,2)] n by simp
  next
    case (3 buffer r s1 out)
    note d = send_details[OF 3(1,2) assms(3,2)]
    have "owner_of (fst s) token = Some user" if "?r \<noteq> []"
      using that handle_details_one[OF assms(4), of token user] by (auto simp: owner_of_entry split: option.splits if_splits)
    moreover have "p_id pd = []" if "?r = []"
    proof -
      have "out = []" using 3(3) d that by (simp add: recv_def)
      moreover have "str_coll [] ''%2C'' = []" by (simp add: str_coll_spec nonempty_fields_def remove_single_nl_def)
      ultimately show ?thesis using 3(4) n by auto
    qed
    ultimately show ?thesis using d 3(4) by auto
  qed (use n in simp)
qed (use assms in \<open>auto simp: get_process_details_def proc_info_new_def\<close>)

lemma chunk_request_cases:
  assumes "get_chunk l einval user token s = Inr (out, s')" and "msg_text user" and "msg_text token"
  obtains "fst s' = fst s" | "fst s' = snd (handle_next (w_files (snd s)) token user (fst s))"
proof (cases "user = [] \<or> token = []")
  case False
  define k where "k = (\<lambda>out s1. let chunk = str_get (str_coll out ''%3A'') 4 in
      if chunk = [] then Inr ([], s1) else let chunk_pos = strtol10 chunk in
      if chunk_pos = 0 \<and> einval then Inr ([], s1)
      else case read_chunk (l_open l) (l_after l (w_files (snd s1))) token chunk_pos of
        (resp, fs) \<Rightarrow> (Inr (resp, fst s1, (snd s1)\<lparr>w_files := fs\<rparr>) :: (string \<times> manager \<times> world) res))"
  have k: "fst s' = fst s1" if "k x s1 = Inr (out, s')" for x s1
    using that by (auto simp: k_def Let_def split: if_splits prod.splits)
  have sent: "fst s1 = snd (handle_next (w_files (snd s)) token user (fst s))"
    if "sprintf1024 (NEXT_MSG token user) = Inr buffer" "send l buffer s = Some (r, s1)" for buffer r s1
  proof -
    have "l_write l" using that(2) by (auto simp: send_def split: if_splits)
    then show ?thesis
      using send_next[OF assms(3,2) that(1), of l "fst s" "snd s"] that(2) by (auto split: prod.splits)
  qed
  have "bind_res (sprintf1024 (NEXT_MSG token user)) (\<lambda>buffer. case send l buffer s of None \<Rightarrow> Inr ([], s)
      | Some (r, s1) \<Rightarrow> if \<not> l_read l then Inr ([], s1) else bind_res (recv r) (\<lambda>x. k x s1)) = Inr (out, s')"
    using False assms(1-3) unfolding get_chunk_def k_def by (simp add: msg_textD)
  then show ?thesis
  proof (cases rule: reply_cases)
    case 2
    then show ?thesis using sent that(2) by blast
  next
    case (3 buffer r s1 x)
    then show ?thesis using sent[OF 3(1,2)] k[OF 3(4)] that(2) by simp
  qed (use that(1) in simp)
qed (use assms that(1) in \<open>auto simp: get_chunk_def\<close>)

lemma chunk_keeps_foreign:
  assumes "get_chunk l einval user token s = Inr (out, s')" and "msg_text user" and "msg_text token"
  shows "foreign_kept user (fst s) (fst s') \<and> owner_of (fst s') token = owner_of (fst s) token"
  using assms by (cases rule: chunk_request_cases) (use next_keeps_foreign[of user "fst s"] in auto)

lemma kill_request_cases:
  assumes "mrc_kill l user token s = Inr s'" and "msg_text user" and "msg_text token"
  obtains "s' = s" | "s' = kill_process (l_env l) token (fst s) (snd s)"
proof (cases "s' = s")
  case False
  then obtain buffer r where b: "sprintf1024 (DELETE_MSG token user) = Inr buffer" "send l buffer s = Some (r, s')"
    using assms by (auto simp: mrc_kill_def bind_res_Inr_iff msg_textD split: option.splits if_splits)
  have "NUL \<notin> set (DELETE_MSG token user)" using assms(2,3) by (simp add: DELETE_MSG_def msg_text_def)
  then have "c_str (take 1024 buffer) = DELETE_MSG token user" using sprintf1024_sent[OF b(1)] by simp
  then have "s' = kill_process (l_env l) token (fst s) (snd s)" using b(2) delete_tags[OF assms(3,2)]
    by (auto simp: send_def manager_process_def Let_def split: if_splits)
  then show ?thesis by (rule that(2))
qed (rule that(1))

lemma kill_request_keeps_foreign:
  assumes "mrc_kill l user token s = Inr s'" and "msg_text user" and "msg_text token" and "owner_of (fst s) token = Some user"
  shows "foreign_kept user (fst s) (fst s')"
  using assms(1-3) by (cases rule: kill_request_cases) (use kill_keeps_foreign assms(4) in auto)

lemma kill_request_keeps_others:
  assumes "mrc_kill l user token s = Inr s'" and "msg_text user" and "msg_text token" and "tok \<noteq> token"
  shows "job_table (fst s') tok = job_table (fst s) tok"
  using assms(1-3) by (cases rule: kill_request_cases) (use kill_keeps_others assms(4) in auto)

section \<open>The requests\<close>

lemma poll_keeps_foreign:
  assumes "op_poll_id e s pid st = Inr (t, st')" and "msg_text (s_user s)" and "msg_text pid" and "mgr_ok (fst st)"
  shows "foreign_kept (s_user s) (fst st) (fst st')"
proof (cases "oe_init e 0")
  case True
  then obtain pd st1 where d: "get_process_details (oe_link e 0) (s_user s) pid st = Inr (pd, st1)"
    "(if p_id pd = [] then Inr (Error OPMODE_PROCESS_FINISHED s, st1)
        else if \<not> oe_init e 1 then Inr (vyatta_debug ''op:chunker init failed'' (Error SERVER_ERROR s), st1)
        else bind_res (get_chunk (oe_link e 1) (oe_einval e) (s_user s) pid st1) (\<lambda>(out, st2). op_chunk e s pid out st2)) = Inr (t, st')"
    using assms(1) by (auto simp: op_poll_id_def bind_res_Inr_iff)
  note st1 = details_keep[OF d(1) assms(2-4)]
  show ?thesis
  proof (cases "p_id pd = [] \<or> \<not> oe_init e 1")
    case False
    then obtain out st2 where c: "get_chunk (oe_link e 1) (oe_einval e) (s_user s) pid st = Inr (out, st2)"
      "op_chunk e s pid out st2 = Inr (t, st')"
      using d(2) st1 by (auto simp: bind_res_Inr_iff)
    note k = chunk_keeps_foreign[OF c(1) assms(2,3)]
    then have "owner_of (fst st2) pid = Some (s_user s)" using st1 False by simp
    then have "foreign_kept (s_user s) (fst st2) (fst st')"
      using c(2) kill_request_keeps_foreign[OF _ assms(2,3), of "oe_link e 2" st2]
      by (auto simp: op_chunk_def bind_res_Inr_iff split: if_splits)
    then show ?thesis using k foreign_kept_trans by blast
  qed (use d(2) st1 in \<open>auto split: if_splits\<close>)
qed (use assms in \<open>auto simp: op_poll_id_def\<close>)

text \<open>The token a DELETE names: the last component of its path.\<close>

definition deletes :: "Session \<Rightarrow> string \<Rightarrow> bool" where
  "deletes s tok \<longleftrightarrow> req_get s HTTP_REQ_METHOD = ''DELETE'' \<and>
     tok = (case rfind_sub ''/'' (req_get s HTTP_REQ_URI) of
       Some pos \<Rightarrow> drop (pos + 1) (req_get s HTTP_REQ_URI) | None \<Rightarrow> req_get s HTTP_REQ_URI)"

lemma deletes_cong: "request t = request s \<Longrightarrow> deletes t tok = deletes s tok"
  by (simp only: deletes_def)

lemma op_delete_keeps_others:
  assumes "op_delete e s (req_get s HTTP_REQ_URI) st = Inr (t, st')" and "req_get s HTTP_REQ_METHOD = ''DELETE''"
    and "msg_text (s_user s)" and "msg_text (req_get s HTTP_REQ_URI)" and "\<not> deletes s tok"
  shows "job_table (fst st') tok = job_table (fst st) tok"
proof -
  define pid where "pid = (case rfind_sub ''/'' (req_get s HTTP_REQ_URI) of
       Some pos \<Rightarrow> drop (pos + 1) (req_get s HTTP_REQ_URI) | None \<Rightarrow> req_get s HTTP_REQ_URI)"
  have "msg_text pid" using assms(4) by (auto simp: pid_def msg_text_def split: option.splits dest: in_set_dropD)
  moreover have "tok \<noteq> pid" using assms(2,5) by (auto simp: deletes_def pid_def)
  ultimately show ?thesis using assms(1) kill_request_keeps_others[of "oe_link e 0" "s_user s" pid st _ tok] assms(3)
    unfolding op_delete_def pid_def[symmetric] by (auto simp: Let_def bind_res_Inr_iff split: if_splits)
qed

lemma op_process_keeps_foreign:
  assumes "op_process e s st = Inr (t, st')" and "req_get s HTTP_REQ_METHOD \<noteq> ''DELETE''"
    and "msg_text (s_user s)" and "msg_text (req_get s HTTP_REQ_URI)" and "mgr_ok (fst st)"
  shows "foreign_kept (s_user s) (fst st) (fst st')"
proof -
  have "foreign_kept (s_user s) (fst st) (fst st')" if "op_post e s p st = Inr (t, st')" for p
    using that by (auto simp: op_post_def bind_res_Inr_iff split: if_splits dest!: start_keeps_foreign)
  moreover have "foreign_kept (s_user s) (fst st) (fst st')" if "op_list e s st = Inr (t, st')"
    using that assms(3) by (auto simp: op_list_def bind_res_Inr_iff split: if_splits dest!: processes_keep)
  moreover have "foreign_kept (s_user s) (fst st) (fst st')" if p: "op_poll e s (req_get s HTTP_REQ_URI) st = Inr (t, st')"
  proof (cases "rfind_sub ''/'' (req_get s HTTP_REQ_URI)")
    case (Some pos)
    have "msg_text (drop (pos + 1) (req_get s HTTP_REQ_URI))"
      using assms(4) by (auto simp: msg_text_def dest: in_set_dropD)
    then show ?thesis using p Some poll_keeps_foreign[of e _ _ st t st'] assms(3,5)
      by (fastforce simp: op_poll_def Let_def split: if_splits)
  qed (use p in \<open>simp add: op_poll_def Let_def\<close>)
  ultimately show ?thesis using assms(1,2)
    by (auto simp: op_process_def op_get_def Let_def split: if_splits prod.splits bool.splits)
qed

lemma op_process_keeps_job:
  assumes "op_process e s st = Inr (t, st')" and "\<not> deletes s tok"
    and "msg_text (s_user s)" and "msg_text (req_get s HTTP_REQ_URI)" and "mgr_ok (fst st)"
    and "job_table (fst st) tok = Some j" "j_owner j \<noteq> s_user s"
  shows "job_table (fst st') tok = Some j"
proof (cases "req_get s HTTP_REQ_METHOD = ''DELETE''")
  case True
  have "job_table (fst st') tok = job_table (fst st) tok" if "op_delete e s (req_get s HTTP_REQ_URI) st = Inr (t, st')"
    using that True assms(2-4) by (intro op_delete_keeps_others) auto
  then show ?thesis using assms(1,6) True by (auto simp: op_process_def Let_def split: if_splits)
next
  case False
  show ?thesis using op_process_keeps_foreign[OF assms(1) False assms(3-5)] assms(6,7) by (simp add: foreign_kept_def)
qed

section \<open>What a request does to the table\<close>

text \<open>The changes a request may make, by its method: a POST submits a job of the requester under a token that is free, a GET marks a job of
  the requester as finished or removes it, a DELETE removes the job it names.\<close>

definition last_component :: "string \<Rightarrow> string" where
  "last_component uri = (case rfind_sub ''/'' uri of Some pos \<Rightarrow> drop (pos + 1) uri | None \<Rightarrow> uri)"

definition posted_text :: "op_env \<Rightarrow> Session \<Rightarrow> string res" where
  "posted_text e s = translate_rest_to_cli (oe_unescape e) (drop (length OP_REQ_ROOT + 1) (req_get s HTTP_REQ_URI))"

definition job_effect :: "op_env \<Rightarrow> Session \<Rightarrow> string \<Rightarrow> jobs \<Rightarrow> jobs \<Rightarrow> bool" where
  "job_effect e s u J J' \<longleftrightarrow> J' = J \<or>
     req_get s HTTP_REQ_METHOD = ''POST'' \<and> (\<exists>tok st. oe_token e = Some tok \<and> posted_text e s = Inr st \<and>
       J tok = None \<and> tok \<noteq> [] \<and> st \<noteq> [] \<and> J' = J(tok \<mapsto> \<lparr>j_owner = u, j_statement = st, j_finished = False\<rparr>)) \<or>
     req_get s HTTP_REQ_METHOD = ''GET'' \<and> (\<exists>tok j. J tok = Some j \<and> j_owner j = u \<and> tok = last_component (req_get s HTTP_REQ_URI) \<and>
       J' \<in> {J(tok \<mapsto> j\<lparr>j_finished := True\<rparr>), J(tok := None)}) \<or>
     (\<exists>tok. deletes s tok \<and> J' = J(tok := None))"

lemma job_effect_refl [simp]: "job_effect e s u J J"
  by (simp add: job_effect_def)

lemma job_effect_cong: "request t = request s \<Longrightarrow> job_effect e t u J J' = job_effect e s u J J'"
  using deletes_cong[of t s] by (simp add: job_effect_def posted_text_def)

lemma next_effect:
  "job_table (snd (handle_next fs token u m)) = job_table m \<or>
   (\<exists>j. job_table m token = Some j \<and> j_owner j = u \<and> job_table (snd (handle_next fs token u m)) = (job_table m)(token \<mapsto> j\<lparr>j_finished := True\<rparr>))"
proof (cases "\<exists>pd. map_of (proc_coll m) token = Some pd \<and> pd_user pd = u")
  case True
  then obtain pd where pd: "map_of (proc_coll m) token = Some pd" "pd_user pd = u" by blast
  let ?pd = "if pd_status pd = K_DEAD then pd\<lparr>read_offset := - 1\<rparr> else pd"
  have j: "job_table m token = Some (job_of pd)" "j_owner (job_of pd) = u" using pd by (simp_all add: job_table_def job_of_def)
  have "snd (handle_next fs token u m) = m\<lparr>proc_coll := map_put token (advance fs token (chunk_size m) ?pd) (proc_coll m)\<rparr>"
    using pd by (simp add: handle_next_def Let_def)
  moreover have "job_of ?pd = job_of pd" by simp
  ultimately show ?thesis using job_of_advance[of fs token "chunk_size m" ?pd] j by (auto simp: map_upd_triv)
next
  case False
  then have "snd (handle_next fs token u m) = m" by (auto simp: handle_next_def split: option.splits)
  then show ?thesis by simp
qed

lemma kill_effect: "job_table (fst (kill_process e key m w)) \<in> {job_table m, (job_table m)(key := None)}"
  by (auto simp: kill_process_def Let_def split: option.splits prod.splits)

lemma kill_request_effect:
  assumes "mrc_kill l user token s = Inr s'" and "msg_text user" and "msg_text token"
  shows "job_table (fst s') \<in> {job_table (fst s), (job_table (fst s))(token := None)}"
  using assms by (cases rule: kill_request_cases) (use kill_effect in auto)

lemma poll_effect:
  assumes "op_poll_id e s pid st = Inr (t, st')" and "msg_text (s_user s)" and "msg_text pid" and "mgr_ok (fst st)"
  shows "job_table (fst st') = job_table (fst st) \<or>
    (\<exists>j. job_table (fst st) pid = Some j \<and> j_owner j = s_user s \<and>
       job_table (fst st') \<in> {(job_table (fst st))(pid \<mapsto> j\<lparr>j_finished := True\<rparr>), (job_table (fst st))(pid := None)})"
proof (cases "oe_init e 0")
  case True
  then obtain pd st1 where d: "get_process_details (oe_link e 0) (s_user s) pid st = Inr (pd, st1)"
    "(if p_id pd = [] then Inr (Error OPMODE_PROCESS_FINISHED s, st1)
        else if \<not> oe_init e 1 then Inr (vyatta_debug ''op:chunker init failed'' (Error SERVER_ERROR s), st1)
        else bind_res (get_chunk (oe_link e 1) (oe_einval e) (s_user s) pid st1) (\<lambda>(out, st2). op_chunk e s pid out st2)) = Inr (t, st')"
    using assms(1) by (auto simp: op_poll_id_def bind_res_Inr_iff)
  note st1 = details_keep[OF d(1) assms(2-4)]
  show ?thesis
  proof (cases "p_id pd = [] \<or> \<not> oe_init e 1")
    case False
    then obtain out st2 where c: "get_chunk (oe_link e 1) (oe_einval e) (s_user s) pid st = Inr (out, st2)"
      "op_chunk e s pid out st2 = Inr (t, st')"
      using d(2) st1 by (auto simp: bind_res_Inr_iff)
    obtain j where j: "job_table (fst st) pid = Some j" "j_owner j = s_user s" using st1 False by (auto simp: owner_of_def)
    have "job_table (fst st') \<in> {job_table (fst st2), (job_table (fst st2))(pid := None)}"
      using c(2) kill_request_effect[OF _ assms(2,3), of "oe_link e 2" st2]
      by (auto simp: op_chunk_def bind_res_Inr_iff split: if_splits)
    moreover have "job_table (fst st2) = job_table (fst st) \<or> job_table (fst st2) = (job_table (fst st))(pid \<mapsto> j\<lparr>j_finished := True\<rparr>)"
      using c(1) assms(2,3) by (cases rule: chunk_request_cases) (use next_effect[of "w_files (snd st)" pid "s_user s" "fst st"] j in auto)
    ultimately show ?thesis using j by auto
  qed (use d(2) st1 in \<open>auto split: if_splits\<close>)
qed (use assms in \<open>auto simp: op_poll_id_def\<close>)

lemma start_effect:
  assumes "mrc_start l tok user cmd s = Inr (i, s')" and "msg_text user" and "msg_text cmd" and "\<forall>x. tok = Some x \<longrightarrow> msg_text x"
  shows "job_table (fst s') = job_table (fst s) \<or>
    (\<exists>x. tok = Some x \<and> job_table (fst s) x = None \<and> x \<noteq> [] \<and> cmd \<noteq> [] \<and>
       job_table (fst s') = (job_table (fst s))(x \<mapsto> \<lparr>j_owner = user, j_statement = cmd, j_finished = False\<rparr>))"
proof (cases "s' = s")
  case False
  then obtain x buffer r where b: "tok = Some x" "sprintf1024 (COMMAND_MSG (c_str x) (c_str cmd) (c_str user)) = Inr buffer"
    "send l buffer s = Some (r, s')"
    using assms(1) by (auto simp: mrc_start_def bind_res_Inr_iff split: option.splits if_splits)
  note x = assms(4)[rule_format, OF b(1)]
  let ?msg = "COMMAND_MSG x cmd user"
  have "NUL \<notin> set ?msg" using x assms(2,3) by (simp add: COMMAND_MSG_def msg_text_def)
  then have c: "c_str (take 1024 buffer) = ?msg" using sprintf1024_sent[of ?msg] b(2) x assms(2,3) by (simp add: msg_textD)
  have "s' = handle_command (l_env l) x cmd user (fst s) (snd s)"
    using b(3) command_tags[OF x assms(3,2)] by (auto simp: send_def manager_process_def Let_def c split: if_splits prod.splits)
  then show ?thesis using command_effect[where m = "fst s" and e = "l_env l" and token = x and statement = cmd and user = user and w = "snd s"] b(1) by auto
qed simp

lemma op_process_effect:
  assumes "op_process e s st = Inr (t, st')"
    and "msg_text (s_user s)" and "msg_text (req_get s HTTP_REQ_URI)" and "mgr_ok (fst st)"
    and "\<forall>x. oe_token e = Some x \<longrightarrow> msg_text x"
    and "\<forall>cmd. posted_text e s = Inr cmd \<longrightarrow> msg_text cmd"
  shows "job_effect e s (s_user s) (job_table (fst st)) (job_table (fst st'))"
proof -
  let ?uri = "req_get s HTTP_REQ_URI" and ?E = "job_effect e s (s_user s) (job_table (fst st)) (job_table (fst st'))"
  have post: ?E if p: "op_post e s ?uri st = Inr (t, st')" "req_get s HTTP_REQ_METHOD = ''POST''"
  proof (cases "st' = st")
    case False
    then obtain cmd i where "posted_text e s = Inr cmd"
      "mrc_start (oe_link e 0) (oe_token e) (s_user s) cmd st = Inr (i, st')"
      using p(1) by (auto simp: op_post_def posted_text_def bind_res_Inr_iff substr_def split: if_splits option.splits)
    then show ?thesis using start_effect[OF _ assms(2) _ assms(5)] assms(6) p(2) unfolding job_effect_def by blast
  qed simp
  have get: ?E if p: "op_poll e s ?uri st = Inr (t, st')" "req_get s HTTP_REQ_METHOD = ''GET''"
  proof (cases "rfind_sub ''/'' ?uri")
    case (Some pos)
    let ?pid = "drop (pos + 1) ?uri"
    have "msg_text ?pid" using assms(3) by (auto simp: msg_text_def dest: in_set_dropD)
    moreover have "last_component ?uri = ?pid" using Some by (simp add: last_component_def)
    ultimately show ?thesis using p Some poll_effect[of e _ ?pid st t st'] assms(2,4)
      unfolding job_effect_def by (fastforce simp: op_poll_def Let_def split: if_splits)
  qed (use p in \<open>simp add: op_poll_def Let_def\<close>)
  have del: ?E if p: "op_delete e s ?uri st = Inr (t, st')" "req_get s HTTP_REQ_METHOD = ''DELETE''"
  proof -
    define pid where "pid = (case rfind_sub ''/'' ?uri of Some pos \<Rightarrow> drop (pos + 1) ?uri | None \<Rightarrow> ?uri)"
    have "msg_text pid" using assms(3) by (auto simp: pid_def msg_text_def split: option.splits dest: in_set_dropD)
    moreover have "deletes s pid" using p(2) by (simp add: deletes_def pid_def)
    ultimately show ?thesis using p(1) kill_request_effect[of "oe_link e 0" "s_user s" pid st] assms(2)
      unfolding op_delete_def pid_def[symmetric] job_effect_def by (auto simp: Let_def bind_res_Inr_iff split: if_splits)
  qed
  have "?E" if "op_list e s st = Inr (t, st')"
    using that assms(2) by (auto simp: op_list_def bind_res_Inr_iff split: if_splits dest!: processes_keep)
  then show ?thesis using assms(1) post get del
    by (auto simp: op_process_def op_get_def Let_def split: if_splits prod.splits bool.splits)
qed

lemma dispatch_effect:
  assumes "dispatch e s sv = Inr (t, sv')"
    and "msg_text (s_user s)" and "msg_text (req_get s HTTP_REQ_URI)" and "mgr_ok (sv_mgr sv)"
    and "\<forall>x. oe_token (se_op e) = Some x \<longrightarrow> msg_text x"
    and "\<forall>cmd. posted_text (se_op e) s = Inr cmd \<longrightarrow> msg_text cmd"
  shows "job_effect (se_op e) s (s_user s) (job_table (sv_mgr sv)) (job_table (sv_mgr sv'))"
  using assms(1)
proof (cases rule: dispatch_cases)
  case (2 process d)
  let ?s = "vyatta_debug d (vyatta_debug ''XA'' s)"
  have "job_effect x ?s u J J' = job_effect x s u J J'" "posted_text x ?s = posted_text x s" for x u J J'
    by (simp_all add: job_effect_cong[of ?s s] posted_text_def)
  then show ?thesis using 2 assms(2-6) op_process_effect[of "se_op e" ?s "op_part sv" t]
    by (auto simp: mode_of_def lift_mode_def bind_res_Inr_iff op_part_def put_op_def put_conf_def split: if_splits)
qed simp_all

lemma dispatch_keeps_job:
  assumes "dispatch e s sv = Inr (t, sv')" and "\<not> deletes s tok"
    and "msg_text (s_user s)" and "msg_text (req_get s HTTP_REQ_URI)" and "mgr_ok (sv_mgr sv)"
    and "job_table (sv_mgr sv) tok = Some j" "j_owner j \<noteq> s_user s"
  shows "job_table (sv_mgr sv') tok = Some j"
  using assms(1)
proof (cases rule: dispatch_cases)
  case (2 process d)
  let ?s = "vyatta_debug d (vyatta_debug ''XA'' s)"
  have "\<not> deletes ?s tok" using assms(2) deletes_cong[of ?s s] by simp
  then show ?thesis using 2 assms(3-7) op_process_keeps_job[of "se_op e" ?s "op_part sv" t _ tok j]
    by (auto simp: mode_of_def lift_mode_def bind_res_Inr_iff op_part_def put_op_def put_conf_def split: if_splits)
qed (use assms(6) in simp_all)

end
