(* ===== verification/Op_Delivery.thy ===== *)
theory Op_Delivery
  imports Op_Mode
begin

text \<open>
  From the request for output to its end: the GET requests of the owner of a command are a source of pieces in
  the sense of \<open>chunk_source\<close>, so the delivery of the whole output holds for the answers of the server, not only
  for the client of the daemon.
\<close>

section \<open>One request for output\<close>

definition op_polling :: "op_env \<Rightarrow> Session \<Rightarrow> string \<Rightarrow> bool" where
  "op_polling e s pid \<longleftrightarrow> op_request s ''GET'' pid \<and> length pid = 16 \<and> CHR ''/'' \<notin> set pid \<and>
     oe_expand e (c_str pid) \<noteq> Some True \<and> oe_init e 0 \<and> oe_init e 1 \<and> oe_init e 2 \<and> \<not> oe_einval e \<and>
     link_ok (oe_link e 0) \<and> l_write (oe_link e 2) \<and> length (DETAILS_MSG pid (s_user s)) < 1024"

text \<open>The text of the answer to a request that meets the files \<open>fst g\<close> at the daemon and \<open>snd g\<close> when the piece is
  read: the body of an answer 200, nothing otherwise.\<close>

definition op_meets :: "op_env \<Rightarrow> files \<Rightarrow> op_env" where
  "op_meets e fs = e\<lparr>oe_link := (oe_link e)(1 := (oe_link e 1)\<lparr>l_after := (\<lambda>x. fs)\<rparr>)\<rparr>"

definition op_answer :: "op_env \<Rightarrow> Session \<Rightarrow> world \<Rightarrow> files \<times> files \<Rightarrow> manager \<Rightarrow> string \<times> manager" where
  "op_answer e s w g m =
     (case op_process (op_meets e (snd g)) s (m, w\<lparr>w_files := fst g\<rparr>) of
        Inl _ \<Rightarrow> ([], m)
      | Inr (t, m', _) \<Rightarrow>
          (if http_get (response t) HTTP_RESP_CODE = ''200'' then http_get (response t) HTTP_BODY else [], m'))"

lemma op_meets_simps [simp]:
  "oe_link (op_meets e fs) 1 = (oe_link e 1)\<lparr>l_after := (\<lambda>x. fs)\<rparr>"
  "oe_link (op_meets e fs) (Suc 0) = (oe_link e 1)\<lparr>l_after := (\<lambda>x. fs)\<rparr>"
  "op_polling (op_meets e fs) s pid = op_polling e s pid"
  by (simp_all add: op_meets_def op_polling_def)

lemma poll_state_after [simp]: "poll_state (l\<lparr>l_after := f\<rparr>) user token st m = poll_state l user token st m"
  by (simp add: poll_state_def link_ok_def)

lemma op_poll_chunk:
  assumes "op_polling e s pid" "poll_state (oe_link e 1) (s_user s) pid st m"
    and "get_chunk (oe_link e 1) False (s_user s) pid (m, w) = Inr (out, m', w')"
  shows "op_process e s (m, w) = op_chunk e (vyatta_debug ('': '' @ pid) (vyatta_debug ''get_bg_data: '' s)) pid out (m', w')"
proof -
  note o = assms(1)[unfolded op_polling_def]
  let ?u = "s_user s"
  obtain pd where pd: "pollable m pid pd" "pd_user pd = ?u" using assms(2) by (auto simp: poll_state_def)
  then have p: "mgr_ok m" "msg_text pid" "msg_text ?u" "map_of (proc_coll m) pid = Some pd" "entry_ok (pid, pd)" "clean_entry pd"
    using mgr_ok_get by (auto simp: pollable_def)
  then have ne: "pid \<noteq> []" "?u \<noteq> []" using pd(2) by (auto simp: entry_ok_def)
  have "get_process_details (oe_link e 0) ?u pid (m, w) = Inr (entry_info pd, m, w)"
    using get_details[OF _ p(1,2) ne(1) p(3) ne(2)] o p(4,6) pd(2) by simp
  moreover have "p_id (entry_info pd) \<noteq> []" using p(5) ne(1) by (simp add: entry_info_def entry_ok_def)
  ultimately show ?thesis using op_get_path[of s pid e] o assms(3) by (simp add: op_poll_id_def)
qed

lemma get_chunk_returns:
  assumes "poll_state l user token st m"
  shows "\<exists>out m' w'. get_chunk l False user token (m, w) = Inr (out, m', w')"
proof -
  obtain pd where "link_ok l" "pollable m token pd" "pd_user pd = user" using assms by (auto simp: poll_state_def)
  then show ?thesis using get_chunk_poll[of l m token pd w] by (auto split: prod.splits)
qed

text \<open>The answer carries the piece the client of the daemon is given.\<close>

lemma op_poll_outcome:
  assumes "op_polling e s pid" "poll_state (oe_link e 1) (s_user s) pid K_RUNNING m" "appended pid g"
    and "poll_off pid m \<le> length (out_text pid (fst g))" "\<not> contains (out_text pid (snd g)) ''END''"
  obtains out m' w' where "op_process (op_meets e (snd g)) s (m, w\<lparr>w_files := fst g\<rparr>) =
      op_chunk (op_meets e (snd g)) (vyatta_debug ('': '' @ pid) (vyatta_debug ''get_bg_data: '' s)) pid out (m', w')"
    "poll_chunk (oe_link e 1) w (s_user s) pid g m = (out, m')" "out \<noteq> ''END''" "length out \<le> CHUNKER_READ_SIZE"
proof -
  let ?e = "op_meets e (snd g)" and ?w = "w\<lparr>w_files := fst g\<rparr>" and ?text = "out_text pid (snd g)"
  have st: "poll_state (oe_link ?e 1) (s_user s) pid K_RUNNING m" using assms(2) by simp
  from get_chunk_returns[OF this] obtain out m' w' where
    c: "get_chunk (oe_link ?e 1) False (s_user s) pid (m, ?w) = Inr (out, m', w')" by blast
  then have p: "poll_chunk (oe_link e 1) w (s_user s) pid g m = (out, m')" by (simp add: poll_chunk_def)
  have out: "out = take CHUNKER_READ_SIZE (drop (poll_off pid m) ?text)"
    using poll_live_step(1)[OF assms(2-4), of w] unfolding p by simp
  then have "?text = take (poll_off pid m) ?text @ out @ drop CHUNKER_READ_SIZE (drop (poll_off pid m) ?text)"
    by (metis append_take_drop_id)
  then have "out \<noteq> ''END''" using assms(5) by (metis contains_iff)
  then show ?thesis using that[OF op_poll_chunk[OF _ st c] p] assms(1) out by simp
qed

lemma op_answer_poll:
  assumes "op_polling e s pid" "poll_state (oe_link e 1) (s_user s) pid K_RUNNING m" "appended pid g"
    and "poll_off pid m \<le> length (out_text pid (fst g))" "\<not> contains (out_text pid (snd g)) ''END''"
  shows "op_answer e s w g m = poll_chunk (oe_link e 1) w (s_user s) pid g m"
proof -
  obtain out m' w' where "op_process (op_meets e (snd g)) s (m, w\<lparr>w_files := fst g\<rparr>) =
      op_chunk (op_meets e (snd g)) (vyatta_debug ('': '' @ pid) (vyatta_debug ''get_bg_data: '' s)) pid out (m', w')"
    "poll_chunk (oe_link e 1) w (s_user s) pid g m = (out, m')" "out \<noteq> ''END''"
    by (rule op_poll_outcome[OF assms])
  then show ?thesis by (simp add: op_answer_def op_chunk_def Error_OK_body)
qed

interpretation served: chunk_source "op_answer e s w" "\<lambda>g. out_text pid (fst g)" "\<lambda>g. out_text pid (snd g)"
  "\<lambda>g. appended pid g \<and> \<not> contains (out_text pid (snd g)) ''END''" "\<lambda>g. out_done pid (fst g)" "poll_off pid"
  "\<lambda>m. op_polling e s pid \<and> poll_state (oe_link e 1) (s_user s) pid K_RUNNING m"
  "\<lambda>m. op_polling e s pid \<and> poll_state (oe_link e 1) (s_user s) pid K_DEAD m" CHUNKER_READ_SIZE
  for e s w pid
  by (rule chunk_source_view[OF chunk.chunk_source_axioms, where c = "\<lambda>_. w" and v = "\<lambda>m. m"]) (use op_answer_poll in auto)

section \<open>The end of a command\<close>

lemma pid_file_neq:
  "CHUNKER_RESP_PID @ ''/'' @ token \<noteq> chunk_file token'" "CHUNKER_RESP_PID @ ''/'' @ token \<noteq> end_file token'"
  by (simp_all add: chunk_file_def end_file_def rest_consts)

lemma kill_process_files:
  "w_files (snd (kill_process e key m w)) p = w_files w p \<or> p = c_str (CHUNKER_RESP_PID @ ''/'' @ key)"
  by (auto simp: kill_process_def Let_def run_cmd_def split: option.splits prod.splits dest: term_loop_cmds)

lemma op_end:
  assumes "op_polling e s pid" "poll_state (oe_link e 1) (s_user s) pid K_DEAD m" "out_done pid f"
  shows "\<exists>m' w'. op_process (op_meets e f) s (m, w\<lparr>w_files := f\<rparr>) =
      Inr (Error OPMODE_PROCESS_FINISHED (vyatta_debug ('': '' @ pid) (vyatta_debug ''get_bg_data: '' s)), m', w') \<and>
    w_files w' (chunk_file pid) = None \<and> w_files w' (end_file pid) = None \<and>
    (has_pid_file (w\<lparr>w_files := f\<rparr>) pid \<longrightarrow> map_of (proc_coll m') pid = None)"
proof -
  let ?e = "op_meets e f" and ?w = "w\<lparr>w_files := f(end_file pid := None, chunk_file pid := None)\<rparr>"
  have st: "poll_state (oe_link ?e 1) (s_user s) pid K_DEAD m" using assms(2) by simp
  from poll_dead[OF st, of "w\<lparr>w_files := f\<rparr>"] assms(3) obtain m1 where
    c: "get_chunk (oe_link ?e 1) False (s_user s) pid (m, w\<lparr>w_files := f\<rparr>) = Inr (''END'', m1, ?w)"
    by (auto simp: out_done_def)
  obtain pd where "pollable m pid pd" "pd_user pd = s_user s" using assms(2) by (auto simp: poll_state_def)
  then have t: "msg_text pid" "msg_text (s_user s)" "pid \<noteq> []" "s_user s \<noteq> []"
    using mgr_ok_get[of m pid pd] by (auto simp: pollable_def entry_ok_def)
  have o: "oe_init ?e 2" "l_write (oe_link ?e 2)" "length (DELETE_MSG pid (s_user s)) < 1024"
    using assms(1) by (simp_all add: op_polling_def op_meets_def DETAILS_MSG_def DELETE_MSG_def)
  obtain m' w' where k: "kill_process (l_env (oe_link ?e 2)) pid m1 ?w = (m', w')" by fastforce
  have nul: "c_str (CHUNKER_RESP_PID @ ''/'' @ pid) = CHUNKER_RESP_PID @ ''/'' @ pid"
    using t(1) by (simp add: c_str_id msg_text_def rest_consts)
  have files: "w_files w' (chunk_file pid) = None" "w_files w' (end_file pid) = None"
    using kill_process_files[of "l_env (oe_link ?e 2)" pid m1 ?w] pid_file_neq[of pid pid] k nul by (metis fun_upd_apply snd_conv world.select_convs(1) world.surjective world.update_convs(1))+
  have "has_pid_file ?w pid = has_pid_file (w\<lparr>w_files := f\<rparr>) pid"
    using pid_file_neq[of pid pid] nul by (simp add: has_pid_file_def)
  then have gone: "has_pid_file (w\<lparr>w_files := f\<rparr>) pid \<longrightarrow> map_of (proc_coll m') pid = None"
    using kill_process_same[of "l_env (oe_link ?e 2)" pid m1 ?w] k by simp
  have "op_process ?e s (m, w\<lparr>w_files := f\<rparr>) =
      Inr (Error OPMODE_PROCESS_FINISHED (vyatta_debug ('': '' @ pid) (vyatta_debug ''get_bg_data: '' s)), m', w')"
    using op_poll_chunk[OF _ st c] assms(1) o kill_command[OF t(1,3,2,4) o(2,3), of m1 ?w] k by (simp add: op_chunk_def)
  then show ?thesis using files gone by blast
qed

section \<open>All requests for output\<close>

text \<open>An output without the end word has none in any of its beginnings.\<close>

lemma written_good:
  assumes "\<forall>g \<in> set gs. appended pid g \<and> \<not> out_done pid (fst g) \<and> prefix (out_text pid (snd g)) (out_text pid f)"
    and "\<not> contains (out_text pid f) ''END''"
  shows "\<forall>g \<in> set gs. (appended pid g \<and> \<not> contains (out_text pid (snd g)) ''END'') \<and> \<not> out_done pid (fst g) \<and>
      prefix (out_text pid (fst g)) (out_text pid f)"
proof -
  have "\<not> contains x ''END''" if "prefix x (out_text pid f)" for x
    using that assms(2) contains_prefix by blast
  then show ?thesis using assms(1) by (auto simp: appended_def)
qed

lemma op_run:
  assumes "op_polling e s pid" "poll_state (oe_link e 1) (s_user s) pid K_RUNNING m" "poll_off pid m = 0"
    and "\<forall>g \<in> set gs. appended pid g \<and> \<not> out_done pid (fst g) \<and> prefix (out_text pid (snd g)) (out_text pid f)"
    and "sorted_wrt prefix (map (\<lambda>g. out_text pid (fst g)) gs)"
    and "out_good pid f" "out_done pid f" "\<not> contains (out_text pid f) ''END''"
  shows "\<exists>k \<le> length (out_text pid f) div CHUNKER_READ_SIZE + 1.
    (\<exists>ps. list_all2 prefix ps (fst (run_polls (op_answer e s w) (gs @ replicate k (f, f)) m)) \<and> concat ps = out_text pid f \<and>
      ((\<forall>g \<in> set gs. out_text pid (snd g) = out_text pid (fst g)) \<longrightarrow>
        ps = fst (run_polls (op_answer e s w) (gs @ replicate k (f, f)) m))) \<and>
    op_polling e s pid \<and> poll_state (oe_link e 1) (s_user s) pid K_DEAD (snd (run_polls (op_answer e s w) (gs @ replicate k (f, f)) m))"
proof -
  note gs = written_good[OF assms(4,8)]
  have f: "appended pid (f, f)" using assms(6) by (simp add: appended_def)
  have live: "op_polling e s pid \<and> poll_state (oe_link e 1) (s_user s) pid K_RUNNING m" using assms(1,2) by blast
  show ?thesis
    using served.deliver[where f = "(f, f)" and gs = gs and w = w, OF live assms(3)] gs assms(5,7,8) f by simp
qed

section \<open>Properties\<close>

text \<open>the owner of a running command who keeps asking for its output gets all of it. The texts of the
  answers 200, in the order of the requests, begin with parts that put together are exactly the output, and are
  these parts when the command writes nothing within a request; once the command has finished, a
  bounded number of requests deliver the rest, the next one is answered 410, and the output files are
  gone and the command is out of the daemon's table if its process id is known. The output does
  not contain the word \<open>END\<close>.\<close>

theorem op_output_delivered:
  assumes "op_polling e s pid" "poll_state (oe_link e 1) (s_user s) pid K_RUNNING m" "poll_off pid m = 0"
    and "\<forall>g \<in> set gs. appended pid g \<and> \<not> out_done pid (fst g) \<and> prefix (out_text pid (snd g)) (out_text pid f)"
    and "sorted_wrt prefix (map (\<lambda>g. out_text pid (fst g)) gs)"
    and "out_good pid f" "out_done pid f" "\<not> contains (out_text pid f) ''END''"
  shows "\<exists>k \<le> length (out_text pid f) div CHUNKER_READ_SIZE + 1.
    case run_polls (op_answer e s w) (gs @ replicate k (f, f)) m of (texts, m') \<Rightarrow>
      (\<exists>ps. list_all2 prefix ps texts \<and> concat ps = out_text pid f \<and>
         ((\<forall>g \<in> set gs. out_text pid (snd g) = out_text pid (fst g)) \<longrightarrow> ps = texts)) \<and>
      (\<exists>t m'' w'. op_process (op_meets e f) s (m', w\<lparr>w_files := f\<rparr>) = Inr (t, m'', w') \<and>
         http_get (response t) HTTP_RESP_CODE = ''410'' \<and>
         w_files w' (chunk_file pid) = None \<and> w_files w' (end_file pid) = None \<and>
         (has_pid_file (w\<lparr>w_files := f\<rparr>) pid \<longrightarrow> map_of (proc_coll m'') pid = None))"
proof -
  let ?run = "\<lambda>k. run_polls (op_answer e s w) (gs @ replicate k (f, f)) m"
  obtain k ps where k: "k \<le> length (out_text pid f) div CHUNKER_READ_SIZE + 1"
    "list_all2 prefix ps (fst (?run k))" "concat ps = out_text pid f"
    "(\<forall>g \<in> set gs. out_text pid (snd g) = out_text pid (fst g)) \<longrightarrow> ps = fst (?run k)"
    "poll_state (oe_link e 1) (s_user s) pid K_DEAD (snd (?run k))"
    using op_run[OF assms, of w] by blast
  from op_end[OF assms(1) k(5) assms(7), of w] k(1-4) show ?thesis
    by (intro exI[of _ k]) (fastforce split: prod.splits)
qed

theorem op_output_delivered_witness:
  "\<exists>k \<le> 1. case run_polls (op_answer example_op_env (op_session ''GET'' (OP_REQ_ROOT @ ''/'' @ ''0123456789ABCDEF'')) example_world)
      ([([chunk_file ''0123456789ABCDEF'' \<mapsto> ''he''], [chunk_file ''0123456789ABCDEF'' \<mapsto> ''hel''])] @
        replicate k ([chunk_file ''0123456789ABCDEF'' \<mapsto> ''hello'', end_file ''0123456789ABCDEF'' \<mapsto> ''end''],
          [chunk_file ''0123456789ABCDEF'' \<mapsto> ''hello'', end_file ''0123456789ABCDEF'' \<mapsto> ''end'']))
      (example_manager [example_entry ''0123456789ABCDEF'' ''bob'']) of (texts, m') \<Rightarrow>
      \<exists>ps. list_all2 prefix ps texts \<and> concat ps = ''hello''"
proof -
  let ?k = "''0123456789ABCDEF''"
  let ?s = "op_session ''GET'' (OP_REQ_ROOT @ ''/'' @ ?k)" and ?m = "example_manager [example_entry ?k ''bob'']"
  have "op_request ?s ''GET'' ?k" by (rule op_request_example)
  then have pol: "op_polling example_op_env ?s ?k"
    by (simp add: op_polling_def example_op_env_def example_link_def link_ok_def op_session_def DETAILS_MSG_def)
  have st: "poll_state (oe_link example_op_env 1) (s_user ?s) ?k K_RUNNING ?m"
    using example_op_poll_state by (simp add: example_op_env_def op_session_def)
  show ?thesis
    using op_output_delivered[OF pol st, of "[([chunk_file ?k \<mapsto> ''he''], [chunk_file ?k \<mapsto> ''hel''])]"
      "[chunk_file ?k \<mapsto> ''hello'', end_file ?k \<mapsto> ''end'']" example_world] end_file_neq[of ?k]
    by (fastforce simp: poll_off_def example_manager_def example_entry_def out_good_def out_done_def out_text_def appended_def
        file_text_def rest_consts contains_def split: prod.splits)
qed

end
