(* ===== verification/Wire_Delivery.thy ===== *)
theory Wire_Delivery
  imports Server Op_Delivery
begin

text \<open>
  The output of a command as a client sees it: each request for output is parsed, authenticated, dispatched and
  answered by the server, and the piece is what follows the empty line of the printed response. The
  requests as a whole are a source of pieces in the sense of \<open>chunk_source\<close>.
\<close>

section \<open>The text of an answer\<close>

text \<open>The client's view of a printed response: its body is what follows the first empty line.\<close>

definition http_body :: "string \<Rightarrow> string" where
  "http_body out = (case find_sub (CRLF @ CRLF) out of None \<Rightarrow> [] | Some i \<Rightarrow> drop (i + 4) out)"

definition answers :: "string \<Rightarrow> string \<Rightarrow> bool" where
  "answers code out \<longleftrightarrow> prefix (''Status: '' @ code @ CRLF) out"

lemma http_body_line:
  assumes "CR \<notin> set l" and "\<not> prefix CRLF rest"
  shows "http_body (l @ CRLF @ rest) = http_body rest"
proof -
  have "find_sub (CRLF @ CRLF) (l @ CRLF @ rest) = map_option (\<lambda>i. length l + 2 + i) (find_sub (CRLF @ CRLF) rest)"
    using find_sub_skip[OF assms(1), of "[NL] @ CRLF" "CRLF @ rest"] assms(2) by (simp add: option.map_comp comp_def)
  then show ?thesis by (simp add: http_body_def drop_Cons' add.commute split: option.split)
qed

lemma http_body_end: "CR \<notin> set l \<Longrightarrow> http_body (l @ CRLF @ CRLF @ b) = b"
  using find_sub_first[of CR l "[NL] @ CRLF" b] by (simp add: http_body_def)

lemma http_body_lines:
  "\<forall>l \<in> set ls. l \<noteq> [] \<and> CR \<notin> set l \<Longrightarrow> ls \<noteq> [] \<Longrightarrow> http_body (concat (map (\<lambda>l. l @ CRLF) ls) @ CRLF @ b) = b"
proof (induction ls)
  case (Cons l ls)
  show ?case
  proof (cases ls)
    case (Cons k ks)
    then obtain c r where "k = c # r" "c \<noteq> CR" using Cons.prems by (cases k) auto
    then have "\<not> prefix CRLF (concat (map (\<lambda>l. l @ CRLF) ls) @ CRLF @ b)" using Cons by simp
    then show ?thesis using Cons.IH Cons.prems Cons http_body_line[of l] by simp
  qed (use Cons.prems http_body_end[of l b] in simp)
qed simp

lemma fresh_response: "response (new_session False) = response_defaults (http_new False)"
  by (simp add: new_session_def vyatta_debug_off session_new_def)

lemma fresh_params:
  "param_coll (response_defaults (http_new False)) = [(HTTP_RESP_CONTENT_TYPE, ''application/json''),
     (HTTP_RESP_VYATTA_SPECIFICATION_VERSION, REST_SERVER_VERSION), (HTTP_RESP_CACHE_CONTROL, ''no-cache'')]"
  by (simp add: response_defaults_def http_set_def http_new_def less_KEY_def)

lemma Error_plain:
  assumes "type \<in> {OK, ACCEPTED, OPMODE_PROCESS_FINISHED}"
  shows "Error type s = on_response (http_set HTTP_RESP_CODE (fst (http_response_error type))) s"
proof -
  have "json_serialize [] (error_json OK []) = []" "json_serialize [] (error_json ACCEPTED []) = []"
    "json_serialize [] (error_json OPMODE_PROCESS_FINISHED []) = []" by code_simp+
  then show ?thesis using assms by (auto simp: Error_def Error_msg_def Let_def)
qed

lemma piece_printed:
  assumes "response s = response_defaults (http_new False)" and "length p \<le> MAX_BODY_SIZE"
  shows "let out = fst (http_serialize N (response (Error OK (s\<lparr>response :=
      (http_set HTTP_BODY p (http_set HTTP_RESP_CONTENT_TYPE ''text/plain'' (response s)))\<lparr>verbatim_body := True\<rparr>\<rparr>))))
    in answers ''200'' out \<and> http_body out = p"
proof -
  let ?h = "response (Error OK (s\<lparr>response :=
      (http_set HTTP_BODY p (http_set HTTP_RESP_CONTENT_TYPE ''text/plain'' (response s)))\<lparr>verbatim_body := True\<rparr>\<rparr>))"
  have h: "param_coll ?h = [(HTTP_RESP_CODE, ''200''), (HTTP_RESP_CONTENT_TYPE, ''text/plain''),
      (HTTP_RESP_VYATTA_SPECIFICATION_VERSION, REST_SERVER_VERSION), (HTTP_RESP_CACHE_CONTROL, ''no-cache''), (HTTP_BODY, p)]"
    "verbatim_body ?h"
    by (simp_all add: Error_plain assms(1) http_set_def fresh_params less_KEY_def)
  have "wf_http ?h" by (simp add: wf_http_def sorted_map_def h(1) less_KEY_def)
  from http_serialize_body[OF this, of p N] h assms(2) have out: "fst (http_serialize N ?h) = concat (map (\<lambda>l. l @ CRLF)
      [''Status: 200'', ''Content-Type: text/plain'', ''Vyatta-Specification-Version: '' @ REST_SERVER_VERSION,
       ''Cache-Control: no-cache'', ''Content-Length: '' @ dec (length p)]) @ CRLF @ p"
    by (simp add: Let_def reformat_body_def status_line_def response_headers_def)
  have "CR \<notin> set (dec (length p))" using dec_set[of "length p"] by auto
  then have "http_body (fst (http_serialize N ?h)) = p"
    unfolding out by (intro http_body_lines) (simp_all add: REST_SERVER_VERSION_def)
  then show ?thesis by (simp add: answers_def out Let_def)
qed

section \<open>One request for output\<close>

text \<open>A request for the output of a command that carries its credentials: whatever identity and files the server has, it is
  accepted for the same account, and nothing is put into the response by the way.\<close>

definition wire_polling :: "server_env \<Rightarrow> (string \<Rightarrow> string option) \<Rightarrow> Session \<Rightarrow> string \<Rightarrow> bool" where
  "wire_polling e getenv t pid \<longleftrightarrow>
     (case parse getenv [] (new_session False) of (ok, s) \<Rightarrow> ok \<and>
        (\<forall>cr fs. \<exists>cr'. auth_validate (se_auth e) s (cr, fs) = Inr (True, t, cr', fs))) \<and>
     s_access_level t \<noteq> k_VYATTASERVICE_USER \<and> response t = response (new_session False) \<and> op_polling (se_op e) t pid"

definition wire_request :: "server_env \<Rightarrow> nat \<times> nat \<Rightarrow> (string \<Rightarrow> string option) \<Rightarrow> files \<times> files \<Rightarrow> server \<Rightarrow> (string \<times> server) res" where
  "wire_request e start getenv g sv =
     serve_request (e\<lparr>se_op := op_meets (se_op e) (snd g)\<rparr>) False start getenv [] (sv\<lparr>sv_world := (sv_world sv)\<lparr>w_files := fst g\<rparr>\<rparr>)"

definition wire_answer :: "server_env \<Rightarrow> nat \<times> nat \<Rightarrow> (string \<Rightarrow> string option) \<Rightarrow> files \<times> files \<Rightarrow> server \<Rightarrow> string \<times> server" where
  "wire_answer e start getenv g sv =
     (case wire_request e start getenv g sv of Inl _ \<Rightarrow> ([], sv)
      | Inr (out, sv') \<Rightarrow> (if answers ''200'' out then http_body out else [], sv'))"

lemma wire_served:
  assumes "wire_polling e getenv t pid"
    and "op_process (op_meets (se_op e) (snd g)) t (sv_mgr sv, (sv_world sv)\<lparr>w_files := fst g\<rparr>) = Inr (u, m', w')"
  shows "\<exists>sv'. wire_request e start getenv g sv = Inr (fst (http_serialize (se_json e) (response u)), sv') \<and>
    sv_mgr sv' = m' \<and> sv_world sv' = w' \<and> c_uid (sv_cred sv') = fst start \<and> c_gid (sv_cred sv') = snd start"
proof -
  obtain s cr' where p: "parse getenv [] (new_session False) = (True, s)"
    "auth_validate (se_auth e) s (sv_cred sv, fst g) = Inr (True, t, cr', fst g)"
    using assms(1) by (fastforce simp: wire_polling_def split: prod.splits)
  have path: "req_get t HTTP_REQ_URI = OP_REQ_ROOT @ ''/'' @ pid" "s_access_level t \<noteq> k_VYATTASERVICE_USER"
    using assms(1) by (auto simp: wire_polling_def op_polling_def op_request_def)
  show ?thesis unfolding wire_request_def
    using serve_op[OF p(1) _ path(2,1), where e = "e\<lparr>se_op := op_meets (se_op e) (snd g)\<rparr>"
        and sv = "sv\<lparr>sv_world := (sv_world sv)\<lparr>w_files := fst g\<rparr>\<rparr>" and st = "(m', w')" and start = start] p(2) assms(2)
    by fastforce
qed

lemma wire_debug: "wire_polling e getenv t pid \<Longrightarrow> vyatta_debug d t = t"
proof -
  assume w: "wire_polling e getenv t pid"
  then obtain s where "parse getenv [] (new_session False) = (True, s)" "\<forall>cr fs. \<exists>cr'. auth_validate (se_auth e) s (cr, fs) = Inr (True, t, cr', fs)"
    by (auto simp: wire_polling_def split: prod.splits)
  then have "\<not> s_debug t" using parse_debug[of getenv "[]" "new_session False" True s] validate.kept by fastforce
  then show ?thesis by (rule vyatta_debug_off)
qed

lemma status_printed:
  assumes "response s = response_defaults (http_new False)" and "type \<in> {ACCEPTED, OPMODE_PROCESS_FINISHED}"
  shows "answers (fst (http_response_error type)) (fst (http_serialize N (response (Error type s))))"
proof -
  have "http_get (response (Error type s)) HTTP_BODY = []"
    using assms(2) by (auto simp: Error_plain assms(1)) (simp_all add: http_get_def fresh_params)
  moreover have "http_get (response (Error type s)) HTTP_RESP_CODE = fst (http_response_error type)"
    using assms(2) by (auto simp: Error_plain)
  ultimately show ?thesis unfolding answers_def using assms(2) by (intro serialize_status) auto
qed

text \<open>The text the client takes from the answer is the piece the daemon hands out.\<close>

lemma wire_answer_poll:
  assumes "wire_polling e getenv t pid" "poll_state (oe_link (se_op e) 1) (s_user t) pid K_RUNNING (sv_mgr sv)" "appended pid g"
    and "poll_off pid (sv_mgr sv) \<le> length (out_text pid (fst g))" "\<not> contains (out_text pid (snd g)) ''END''"
  shows "\<exists>sv'. wire_answer e start getenv g sv = (fst (poll_chunk (oe_link (se_op e) 1) (sv_world sv) (s_user t) pid g (sv_mgr sv)), sv') \<and>
    sv_mgr sv' = snd (poll_chunk (oe_link (se_op e) 1) (sv_world sv) (s_user t) pid g (sv_mgr sv))"
proof -
  have pol: "op_polling (se_op e) t pid" and resp: "response t = response_defaults (http_new False)"
    using assms(1) by (auto simp: wire_polling_def fresh_response)
  obtain out m' w' where "op_process (op_meets (se_op e) (snd g)) t (sv_mgr sv, (sv_world sv)\<lparr>w_files := fst g\<rparr>) =
      op_chunk (op_meets (se_op e) (snd g)) (vyatta_debug ('': '' @ pid) (vyatta_debug ''get_bg_data: '' t)) pid out (m', w')"
    and o: "poll_chunk (oe_link (se_op e) 1) (sv_world sv) (s_user t) pid g (sv_mgr sv) = (out, m')" "out \<noteq> ''END''" "length out \<le> CHUNKER_READ_SIZE"
    by (rule op_poll_outcome[OF pol assms(2-5)])
  then have op: "op_process (op_meets (se_op e) (snd g)) t (sv_mgr sv, (sv_world sv)\<lparr>w_files := fst g\<rparr>) =
      op_chunk (op_meets (se_op e) (snd g)) t pid out (m', w')" by (simp add: wire_debug[OF assms(1)])
  have len: "length out \<le> MAX_BODY_SIZE" using o(3) by (simp add: rest_consts)
  define u where "u = (if out = [] then Error ACCEPTED t else Error OK (t\<lparr>response :=
             (http_set HTTP_BODY out (http_set HTTP_RESP_CONTENT_TYPE ''text/plain'' (response t)))\<lparr>verbatim_body := True\<rparr>\<rparr>))"
  let ?out = "fst (http_serialize (se_json e) (response u))"
  have "op_process (op_meets (se_op e) (snd g)) t (sv_mgr sv, (sv_world sv)\<lparr>w_files := fst g\<rparr>) = Inr (u, m', w')"
    using op o(2) by (simp add: op_chunk_def u_def)
  from wire_served[OF assms(1) this, of start] obtain sv' where
    sv': "wire_request e start getenv g sv = Inr (?out, sv')" "sv_mgr sv' = m'" by blast
  have "(if answers ''200'' ?out then http_body ?out else []) = out"
  proof (cases "out = []")
    case True
    then have "answers ''202'' ?out" using status_printed[OF resp, of ACCEPTED "se_json e"] by (simp add: u_def)
    then show ?thesis using True by (auto simp: answers_def elim!: prefixE)
  next
    case False
    then show ?thesis using piece_printed[OF resp len, of "se_json e"] by (simp add: u_def Let_def)
  qed
  then show ?thesis using sv' o(1) by (simp add: wire_answer_def)
qed

interpretation wire: chunk_source "wire_answer e start getenv" "\<lambda>g. out_text pid (fst g)" "\<lambda>g. out_text pid (snd g)"
  "\<lambda>g. appended pid g \<and> \<not> contains (out_text pid (snd g)) ''END''" "\<lambda>g. out_done pid (fst g)" "\<lambda>sv. poll_off pid (sv_mgr sv)"
  "\<lambda>sv. wire_polling e getenv t pid \<and> poll_state (oe_link (se_op e) 1) (s_user t) pid K_RUNNING (sv_mgr sv)"
  "\<lambda>sv. wire_polling e getenv t pid \<and> poll_state (oe_link (se_op e) 1) (s_user t) pid K_DEAD (sv_mgr sv)" CHUNKER_READ_SIZE
  for e start getenv t pid
proof (rule chunk_source_view[OF chunk.chunk_source_axioms, where c = sv_world])
  fix g and sv :: server
  assume "wire_polling e getenv t pid" "poll_state (oe_link (se_op e) 1) (s_user t) pid K_RUNNING (sv_mgr sv)" "appended pid g"
    "\<not> contains (out_text pid (snd g)) ''END''" "poll_off pid (sv_mgr sv) \<le> length (out_text pid (fst g))"
  then show "fst (wire_answer e start getenv g sv) = fst (poll_chunk (oe_link (se_op e) 1) (sv_world sv) (s_user t) pid g (sv_mgr sv)) \<and>
    sv_mgr (snd (wire_answer e start getenv g sv)) = snd (poll_chunk (oe_link (se_op e) 1) (sv_world sv) (s_user t) pid g (sv_mgr sv))"
    using wire_answer_poll[of e getenv t pid sv g start] by fastforce
qed

section \<open>All requests for output\<close>

lemma wire_end:
  assumes "wire_polling e getenv t pid" "poll_state (oe_link (se_op e) 1) (s_user t) pid K_DEAD (sv_mgr sv)" "out_done pid f"
  shows "\<exists>out sv'. wire_request e start getenv (f, f) sv = Inr (out, sv') \<and> answers ''410'' out \<and>
    w_files (sv_world sv') (chunk_file pid) = None \<and> w_files (sv_world sv') (end_file pid) = None \<and>
    (has_pid_file ((sv_world sv)\<lparr>w_files := f\<rparr>) pid \<longrightarrow> map_of (proc_coll (sv_mgr sv')) pid = None) \<and>
    c_uid (sv_cred sv') = fst start \<and> c_gid (sv_cred sv') = snd start"
proof -
  have pol: "op_polling (se_op e) t pid" and resp: "response t = response_defaults (http_new False)"
    using assms(1) by (auto simp: wire_polling_def fresh_response)
  from op_end[OF pol assms(2,3), of "sv_world sv"] obtain m' w' where
    r: "op_process (op_meets (se_op e) f) t (sv_mgr sv, (sv_world sv)\<lparr>w_files := f\<rparr>) = Inr (Error OPMODE_PROCESS_FINISHED t, m', w')"
      "w_files w' (chunk_file pid) = None" "w_files w' (end_file pid) = None"
      "has_pid_file ((sv_world sv)\<lparr>w_files := f\<rparr>) pid \<longrightarrow> map_of (proc_coll m') pid = None"
    by (auto simp: wire_debug[OF assms(1)])
  have "answers ''410'' (fst (http_serialize (se_json e) (response (Error OPMODE_PROCESS_FINISHED t))))"
    using status_printed[OF resp, of OPMODE_PROCESS_FINISHED "se_json e"] by simp
  moreover from wire_served[OF assms(1), of "(f, f)" sv "Error OPMODE_PROCESS_FINISHED t" m' w' start] r(1) obtain sv' where
    "wire_request e start getenv (f, f) sv = Inr (fst (http_serialize (se_json e) (response (Error OPMODE_PROCESS_FINISHED t))), sv')"
    "sv_mgr sv' = m'" "sv_world sv' = w'" "c_uid (sv_cred sv') = fst start" "c_gid (sv_cred sv') = snd start"
    by auto
  ultimately show ?thesis using r(2-4) by blast
qed

lemma wire_run:
  assumes "wire_polling e getenv t pid" "poll_state (oe_link (se_op e) 1) (s_user t) pid K_RUNNING (sv_mgr sv)" "poll_off pid (sv_mgr sv) = 0"
    and "\<forall>g \<in> set gs. appended pid g \<and> \<not> out_done pid (fst g) \<and> prefix (out_text pid (snd g)) (out_text pid f)"
    and "sorted_wrt prefix (map (\<lambda>g. out_text pid (fst g)) gs)"
    and "out_good pid f" "out_done pid f" "\<not> contains (out_text pid f) ''END''"
  shows "\<exists>k \<le> length (out_text pid f) div CHUNKER_READ_SIZE + 1.
    (\<exists>ps. list_all2 prefix ps (fst (run_polls (wire_answer e start getenv) (gs @ replicate k (f, f)) sv)) \<and> concat ps = out_text pid f \<and>
      ((\<forall>g \<in> set gs. out_text pid (snd g) = out_text pid (fst g)) \<longrightarrow>
        ps = fst (run_polls (wire_answer e start getenv) (gs @ replicate k (f, f)) sv))) \<and>
    poll_state (oe_link (se_op e) 1) (s_user t) pid K_DEAD (sv_mgr (snd (run_polls (wire_answer e start getenv) (gs @ replicate k (f, f)) sv)))"
proof -
  note gs = written_good[OF assms(4,8)]
  have f: "appended pid (f, f)" using assms(6) by (simp add: appended_def)
  have live: "wire_polling e getenv t pid \<and> poll_state (oe_link (se_op e) 1) (s_user t) pid K_RUNNING (sv_mgr sv)" using assms(1,2) by blast
  show ?thesis
    using wire.deliver[where f = "(f, f)" and gs = gs and start = start, OF live assms(3)] gs assms(5,7,8) f by simp blast
qed

end
