(* ===== verification/Conf_Sessions.thy ===== *)
theory Conf_Sessions
  imports Conf_Mode
begin

text \<open>
  What the configuration mode promises, without paths and description files: a table of sessions, each with
  an owner and a description. A session is opened under a free token for the requesting user and is closed by its
  owner; nobody else changes it. The requests of \<open>Conf_Mode\<close>, by any users and in any order, refine
  this specification, and what they tell the configuration daemon and the shell is about
  sessions of the requesting user only.
\<close>

section \<open>The abstract table\<close>

text \<open>A session that was created without its description being written names no owner (an empty file) or cannot be
  read (a file without the separator).\<close>

datatype conf_session = Owned string string | Ownerless | Unreadable

type_synonym sessions = "string \<rightharpoonup> conf_session"

definition usable :: "string \<Rightarrow> sessions \<Rightarrow> string \<Rightarrow> bool" where
  "usable u T t \<longleftrightarrow> (case T t of Some (Owned v d) \<Rightarrow> v = u | Some Ownerless \<Rightarrow> True | _ \<Rightarrow> False)"

inductive sessions_step :: "string \<Rightarrow> sessions \<Rightarrow> sessions \<Rightarrow> bool" for u where
  opened: "T t = None \<Longrightarrow> sessions_step u T (T(t \<mapsto> Owned u d))"
| half_opened: "T t = None \<Longrightarrow> x \<in> {Ownerless, Unreadable} \<Longrightarrow> sessions_step u T (T(t \<mapsto> x))"
| closed: "usable u T t \<Longrightarrow> sessions_step u T (T(t := None))"

inductive_cases sessions_stepE: "sessions_step u T T'"

lemma sessions_step_keeps: "sessions_step u T T' \<Longrightarrow> T t = Some (Owned v d) \<Longrightarrow> v \<noteq> u \<Longrightarrow> T' t = Some (Owned v d)"
  by (erule sessions_stepE) (auto simp: usable_def)

section \<open>The table of the description files\<close>

definition session_of :: "string \<Rightarrow> conf_session" where
  "session_of content =
     (case fgets CHUNKER_READ_SIZE content of None \<Rightarrow> Ownerless
      | Some buf \<Rightarrow> (case find_sub ''/'' (c_str buf) of None \<Rightarrow> Unreadable
         | Some pos \<Rightarrow> Owned (take pos (c_str buf)) (drop (pos + 1) (c_str buf))))"

definition conf_table :: "files \<Rightarrow> sessions" where
  "conf_table fs t = map_option session_of (fs (VYATTA_MODIFY_FILE @ t))"

lemma modify_file: "c_str (VYATTA_MODIFY_FILE @ cid) = VYATTA_MODIFY_FILE @ c_str cid"
  by (simp add: rest_consts)

lemma conf_table_upd [simp]:
  "conf_table (fs(VYATTA_MODIFY_FILE @ t := x)) = (conf_table fs)(t := map_option session_of x)"
  by (rule ext) (simp add: conf_table_def)

lemma read_table:
  "read_conf_modify_file fs cid ud =
     (case conf_table fs (c_str cid) of Some (Owned u d) \<Rightarrow> (True, u, d) | Some Ownerless \<Rightarrow> (True, ud) | _ \<Rightarrow> (False, ud))"
  by (simp add: read_conf_modify_file_def conf_table_def session_of_def modify_file Let_def split: option.split)

lemma tag_usable:
  assumes "read_conf_modify_file_from_tag entries fs tag user cid = (True, cid')"
  shows "usable user (conf_table fs) (c_str cid')"
proof -
  have "tag \<noteq> []" "snd (read_conf_modify_file fs cid' ([], [])) = (user, tag)"
    using assms conf_tag_scan_sound[of fs tag user] by (auto simp: read_conf_modify_file_from_tag_def split: option.splits)
  then show ?thesis by (auto simp: read_table usable_def split: option.splits conf_session.splits)
qed

section \<open>What is written when a session is created\<close>

text \<open>An account name as the account database allows it.\<close>

definition plain_user :: "string \<Rightarrow> bool" where
  "plain_user u \<longleftrightarrow> set u \<inter> {CHR ''/'', NL, NUL} = {} \<and> length u + 2 \<le> CHUNKER_READ_SIZE - 1"

lemma c_str_plain: "set u \<inter> {CHR ''/'', NL, NUL} = {} \<Longrightarrow> c_str (u @ x) = u @ c_str x"
  by (induction u) auto

lemma session_of_prefix:
  assumes "plain_user u" and "prefix part (u @ ''/'' @ d)"
  shows "(\<exists>d'. session_of part = Owned u d') \<or> session_of part \<in> {Ownerless, Unreadable}"
proof (cases "prefix (u @ ''/'') part")
  case True
  then obtain r where r: "part = u @ CHR ''/'' # r" by (auto elim: prefixE)
  have "takeWhile (\<lambda>c. c \<noteq> NL) part = u @ CHR ''/'' # takeWhile (\<lambda>c. c \<noteq> NL) r"
    using assms(1) unfolding r plain_user_def by (subst takeWhile_append2) auto
  then have line: "(if length (takeWhile (\<lambda>c. c \<noteq> NL) part) < length part then takeWhile (\<lambda>c. c \<noteq> NL) part @ [NL]
      else takeWhile (\<lambda>c. c \<noteq> NL) part) = u @ CHR ''/'' # (if length (takeWhile (\<lambda>c. c \<noteq> NL) part) < length part
      then takeWhile (\<lambda>c. c \<noteq> NL) r @ [NL] else takeWhile (\<lambda>c. c \<noteq> NL) r)" by simp
  have "part \<noteq> []" using r by simp
  then obtain z where "fgets CHUNKER_READ_SIZE part = Some (take (CHUNKER_READ_SIZE - 1) (u @ CHR ''/'' # z))"
    unfolding fgets_def Let_def line by simp
  moreover obtain k where "CHUNKER_READ_SIZE - 1 - length u = Suc k" using assms(1) by (cases "CHUNKER_READ_SIZE - 1 - length u") (auto simp: plain_user_def)
  ultimately have f: "fgets CHUNKER_READ_SIZE part = Some (u @ CHR ''/'' # take k z)"
    using assms(1) by (simp add: plain_user_def)
  have "c_str (u @ CHR ''/'' # take k z) = u @ CHR ''/'' # c_str (take k z)"
    using assms(1) c_str_plain[of u] by (simp add: plain_user_def)
  moreover have "find_sub ''/'' (u @ CHR ''/'' # c_str (take k z)) = Some (length u)"
    using find_sub_first[of "CHR ''/''" u "[]"] assms(1) by (simp add: plain_user_def)
  ultimately show ?thesis by (simp add: session_of_def f)
next
  case False
  have "part = u @ us \<Longrightarrow> prefix us (CHR ''/'' # d) \<Longrightarrow> us = []" for us using False by (cases us) auto
  then have "prefix part u" using assms(2) by (auto simp: prefix_append)
  then have sl: "CHR ''/'' \<notin> set part" using assms(1) by (auto simp: plain_user_def dest: set_mono_prefix)
  have "CHR ''/'' \<notin> set buf" if "fgets n part = Some buf" for n buf
    using that sl by (auto simp: fgets_def Let_def split: if_splits dest!: in_set_takeD set_takeWhileD)
  then have "find_sub ''/'' (c_str buf) = None" if "fgets n part = Some buf" for n buf
    using that by (intro find_sub_absent) (auto simp: c_str_def dest!: set_takeWhileD)
  then show ?thesis by (auto simp: session_of_def split: option.splits)
qed

section \<open>The session a request works on\<close>

lemma read_usable: "read_conf_modify_file fs cid (user, x) = (True, user, d) \<Longrightarrow> usable user (conf_table fs) (c_str cid)"
  by (auto simp: read_table usable_def split: option.splits conf_session.splits)

lemma read_failed: "read_conf_modify_file fs cid ud = (False, u, d) \<Longrightarrow> u = fst ud"
  by (auto simp: read_table split: option.splits conf_session.splits)

lemma target_usable:
  assumes "conf_target e fs meth user path = Some (w, cid, user, tag)" and "meth \<noteq> ''POST''" and "w \<noteq> []"
  shows "usable user (conf_table fs) (c_str cid)"
  using assms tag_usable[of "ce_dir e" fs] read_usable[of fs cid user]
  by (auto simp: conf_target_def Let_def split: if_splits prod.splits bool.splits dest!: read_failed)

lemma post_target_usable:
  assumes "conf_target e fs ''POST'' user path = Some (w, cid, user, tag)" and "w \<noteq> []"
    and "(if tag = cid then read_conf_modify_file_from_tag (ce_dir e) fs tag user cid else (True, cid)) = (True, cid1)"
  shows "usable user (conf_table fs) (c_str cid1)"
  using assms tag_usable[of "ce_dir e" fs] read_usable[of fs cid user]
  by (auto simp: conf_target_def Let_def split: if_splits prod.splits bool.splits)

text \<open>What a request of a user tells the daemon and the shell: calls for the number of a session that the user may
  use or of the token just made, commands in the environment of a session that the user may use.\<close>

fun call_id :: "configd_call \<Rightarrow> string" where
  "call_id (Sess_setup sid) = sid"
| "call_id (Sess_discard sid) = sid"
| "call_id (Sess_teardown sid) = sid"
| "call_id (Sess_commit sid) = sid"
| "call_id (Sess_save sid) = sid"

definition own_number :: "conf_env \<Rightarrow> string \<Rightarrow> files \<Rightarrow> string \<Rightarrow> bool" where
  "own_number e u fs sid \<longleftrightarrow> (\<exists>cid. sid = conv_conf_id cid \<and> (usable u (conf_table fs) (c_str cid) \<or> ce_token e = Some cid))"

definition own_effect :: "conf_env \<Rightarrow> string \<Rightarrow> conf_state \<Rightarrow> conf_state \<Rightarrow> bool" where
  "own_effect e u st st' \<longleftrightarrow> (\<exists>calls cmds. cs_calls st' = cs_calls st @ calls \<and> cs_cmds st' = cs_cmds st @ cmds \<and>
     (\<forall>c \<in> set calls. own_number e u (cs_files st) (call_id c)) \<and>
     (\<forall>c \<in> set cmds. \<exists>cid. usable u (conf_table (cs_files st)) (c_str cid) \<and> prefix (session_command (conv_conf_id cid) @ '';'') c))"

lemma own_effect_refl [simp]: "own_effect e u st st"
  by (auto simp: own_effect_def)

lemma own_numberI: "usable u (conf_table fs) (c_str cid) \<Longrightarrow> own_number e u fs (conv_conf_id cid)"
  by (auto simp: own_number_def)

lemma own_effect_calls:
  assumes "cs_calls st' = cs_calls st @ calls" and "cs_cmds st' = cs_cmds st"
    and "\<forall>c \<in> set calls. own_number e u (cs_files st) (call_id c)"
  shows "own_effect e u st st'"
  unfolding own_effect_def using assms by (intro exI[of _ calls] exI[of _ "[]"]) simp

lemma discard_effect:
  assumes "cid \<noteq> [] \<Longrightarrow> usable u (conf_table (cs_files st)) (c_str cid)"
  shows "own_effect e u st (discard_session e cid ex st)"
proof (cases "cid = [] \<or> \<not> ce_open e")
  case False
  then have "own_number e u (cs_files st) (conv_conf_id cid)" using assms own_numberI by blast
  then show ?thesis using False
    by (intro own_effect_calls[where calls = "Sess_discard (conv_conf_id cid) # (if ex then [Sess_teardown (conv_conf_id cid)] else [])"])
      (auto simp: discard_session_def add_call_def Let_def)
qed (auto simp: discard_session_def)

lemma execute_effect:
  assumes "usable u (conf_table (cs_files st)) (c_str cid)"
    and "run_execute e (session_command (conv_conf_id cid) @ '';'' @ x) stdout st = (r, st')"
  shows "own_effect e u st st' \<and> cs_files st' = cs_files st"
proof -
  let ?p = "session_command (conv_conf_id cid) @ '';''"
  have "set (conv_conf_id cid) \<subseteq> set ''0123456789''" unfolding conv_conf_id_def ulltostring_def by (rule dec_set)
  then have "NUL \<notin> set ?p" by (auto simp: session_command_def shell_env_def rest_consts)
  then have "prefix ?p (c_str (?p @ x))" by (intro c_str_prefix) simp_all
  then show ?thesis using assms unfolding own_effect_def run_execute_def by auto
qed

section \<open>The requests\<close>

text \<open>What is assumed of a request: its account name has no slash, line break or NUL and fits the line that is read
  back, the token made for it is not in use (tokens are random, the code does not check), and a failing
  write leaves a first part of the text.\<close>

definition request_ok :: "conf_env \<Rightarrow> Session \<Rightarrow> conf_state \<Rightarrow> bool" where
  "request_ok e s st \<longleftrightarrow> plain_user (s_user s) \<and>
     (\<forall>tok. ce_token e = Some tok \<longrightarrow> conf_table (cs_files st) (c_str tok) = None) \<and>
     (\<forall>part. ce_write e = W_fail part \<longrightarrow> (\<exists>d. prefix part (s_user s @ ''/'' @ d)))"

abbreviation refines :: "string \<Rightarrow> conf_state \<Rightarrow> conf_state \<Rightarrow> bool" where
  "refines u st st' \<equiv> (sessions_step u)\<^sup>=\<^sup>= (conf_table (cs_files st)) (conf_table (cs_files st'))"

lemma written_step:
  assumes "plain_user u" and "T t = None" and "prefix part (u @ ''/'' @ d)"
  shows "sessions_step u T (T(t \<mapsto> session_of part))"
  using session_of_prefix[OF assms(1,3)] opened[of T t u] half_opened[of T t _ u] assms(2) by auto

lemma c_str_is_prefix: "prefix (c_str x) x"
  by (simp add: c_str_def takeWhile_is_prefix)

lemma create_refines:
  assumes "conf_create e s with_id user st = Inr (t, st')" and "request_ok e s st"
  shows "refines (s_user s) st st'"
proof (cases "cs_files st' = cs_files st")
  case False
  then obtain cid where cid: "ce_token e = Some cid"
    and w: "cs_files st' = snd (create_conf_modify_file (ce_write e) (cs_files st) cid (s_user s) (drop 1 with_id))"
    using assms(1)
    by (auto simp: conf_create_def Let_def setup_session_def add_call_def split: if_splits option.splits prod.splits bool.splits)
  have free: "conf_table (cs_files st) (c_str cid) = None" using assms(2) cid by (auto simp: request_ok_def)
  obtain part where "cs_files st' = (cs_files st)(VYATTA_MODIFY_FILE @ c_str cid \<mapsto> part)" "\<exists>d. prefix part (s_user s @ ''/'' @ d)"
    using w False assms(2) c_str_is_prefix[of "s_user s @ ''/'' @ drop 1 with_id"]
    by (auto simp: create_conf_modify_file_def modify_file request_ok_def Let_def split: write_outcome.splits)
  then show ?thesis using written_step[of "s_user s" "conf_table (cs_files st)" "c_str cid"] free assms(2) by (auto simp: request_ok_def)
qed simp

lemma create_effect:
  assumes "conf_create e s with_id user st = Inr (t, st')"
  shows "own_effect e u st st'"
proof -
  have "st' = st \<or> (\<exists>cid. ce_token e = Some cid \<and> cs_cmds st' = cs_cmds st \<and>
      cs_calls st' = cs_calls st @ (if ce_open e then [Sess_setup (conv_conf_id cid)] else []))"
    using assms
    by (auto simp: conf_create_def Let_def setup_session_def add_call_def split: if_splits option.splits prod.splits bool.splits)
  then show ?thesis by (elim disjE exE conjE, simp) (rule own_effect_calls, auto simp: own_number_def)
qed

lemma delete_refines:
  assumes "cid \<noteq> [] \<Longrightarrow> user = s_user s \<Longrightarrow> usable (s_user s) (conf_table (cs_files st)) (c_str cid)"
  shows "refines (s_user s) st (snd (conf_delete e s cid user st)) \<and> own_effect e (s_user s) st (snd (conf_delete e s cid user st))"
proof (cases "user = s_user s \<and> cid \<noteq> []")
  case True
  then show ?thesis using assms closed[of "s_user s" "conf_table (cs_files st)" "c_str cid"] discard_effect[of cid "s_user s" st e True]
    by (auto simp: conf_delete_def discard_session_def add_call_def modify_file Let_def)
next
  case False
  then have "snd (conf_delete e s cid user st) = st" by (auto simp: conf_delete_def discard_session_def Let_def)
  then show ?thesis by simp
qed

lemma put_effect:
  assumes "conf_put e s with_id cid user st = Inr (t, st')"
    and "with_id \<noteq> [] \<Longrightarrow> user = s_user s \<Longrightarrow> usable (s_user s) (conf_table (cs_files st)) (c_str cid)"
  shows "own_effect e (s_user s) st st' \<and> cs_files st' = cs_files st"
proof (cases "st' = st")
  case False
  then obtain run r where "run_execute e (session_command (conv_conf_id cid) @ '';'' @ run @ '' 2>&1'') [] st = (r, st')"
    "user = s_user s" "with_id \<noteq> []"
    using assms(1) by (auto simp: conf_put_def Let_def bind_res_Inr_iff split: if_splits option.splits prod.splits)
  then show ?thesis using execute_effect assms(2) by blast
qed simp

lemma action_effect:
  assumes "conf_action e s action cid st = Inr (t, st')" and "usable u (conf_table (cs_files st)) (c_str cid)"
  shows "own_effect e u st st' \<and> cs_files st' = cs_files st"
proof -
  have num: "own_number e u (cs_files st) (conv_conf_id cid)" using assms(2) by (rule own_numberI)
  have "own_effect e u st st' \<and> cs_files st' = cs_files st" if "commit_or_save e s action (conv_conf_id cid) x st = Inr (t, st')" for x
  proof (cases "st' = st")
    case False
    then have "st' = add_call (if action = ''commit'' then Sess_commit (conv_conf_id cid) else Sess_save (conv_conf_id cid)) st"
      using that by (auto simp: commit_or_save_def Let_def split: if_splits option.splits prod.splits)
    then show ?thesis using num by (auto simp: add_call_def intro!: own_effect_calls)
  qed simp
  moreover have "own_effect e u st (discard_session e cid False st) \<and> cs_files (discard_session e cid False st) = cs_files st"
    using discard_effect assms(2) by (auto simp: discard_session_def add_call_def Let_def)
  moreover have "own_effect e u st st' \<and> cs_files st' = cs_files st"
    if "run_action e s' (session_command (conv_conf_id cid) @ '';'' @ x @ '' 2>&1'') st = (t, st')" for s' x
    using that execute_effect[OF assms(2), of e "x @ '' 2>&1''" "'' ''"]
    by (auto simp: run_action_def Let_def split: prod.splits)
  ultimately show ?thesis using assms(1)
    by (auto simp: conf_action_def Let_def bind_res_Inr_iff split: if_splits option.splits)
qed

lemma post_refines:
  assumes "conf_post e s with_id cid user tag st = Inr (t, st')"
    and "conf_target e (cs_files st) ''POST'' (s_user s) path = Some (with_id, cid, user, tag)"
  shows "(request_ok e s st \<longrightarrow> refines (s_user s) st st') \<and> own_effect e (s_user s) st st'"
proof (cases "with_id \<noteq> [] \<and> find_sub ''/'' (drop 1 with_id) \<noteq> None")
  case True
  then obtain c r pos where w: "with_id = c # r" "find_sub ''/'' r = Some pos" by (cases with_id) auto
  show ?thesis
  proof (cases "st' = st")
    case False
    then obtain cid1 where "(if tag = cid then read_conf_modify_file_from_tag (ce_dir e) (cs_files st) tag user cid else (True, cid)) = (True, cid1)"
      "user = s_user s" "conf_action e (vyatta_debug ''CONF:G'' (vyatta_debug ''CONF:C'' s)) (drop (pos + 2) with_id) cid1 st = Inr (t, st')"
      using assms(1) w by (auto simp: conf_post_def Let_def split: prod.splits bool.splits if_splits)
    then show ?thesis using action_effect post_target_usable[of e "cs_files st"] assms(2) w(1) by (metis list.distinct(1) sup2CI)
  qed simp
next
  case False
  then have "conf_create e (vyatta_debug ''CONF:D'' (vyatta_debug ''CONF:C'' s)) with_id user st = Inr (t, st')"
    using assms(1) by (cases with_id) (auto simp: conf_post_def Let_def)
  moreover have "request_ok e (vyatta_debug ''CONF:D'' (vyatta_debug ''CONF:C'' s)) st = request_ok e s st" by (simp add: request_ok_def)
  ultimately show ?thesis using create_refines create_effect by fastforce
qed

lemma method_refines:
  assumes "conf_method e s meth path tgt st = Inr (t, st')"
    and "conf_target e (cs_files st) meth (s_user s) path = Some tgt"
  shows "(request_ok e s st \<longrightarrow> refines (s_user s) st st') \<and> own_effect e (s_user s) st st'"
proof -
  obtain w cid user tag where tgt: "tgt = (w, cid, user, tag)" by (cases tgt)
  have own: "w \<noteq> [] \<Longrightarrow> user = s_user s \<Longrightarrow> meth \<noteq> ''POST'' \<Longrightarrow> usable (s_user s) (conf_table (cs_files st)) (c_str cid)"
    using target_usable assms(2) tgt by blast
  have "w = [] \<Longrightarrow> cid = []" using assms(2) tgt by (auto simp: conf_target_def Let_def split: if_splits prod.splits bool.splits)
  consider "meth = ''GET''" "st' = st" | "meth = ''PUT''" "conf_put e s w cid user st = Inr (t, st')"
    | "meth = ''DELETE''" "st' = snd (conf_delete e s cid user st)" | "meth = ''POST''" "conf_post e s w cid user tag st = Inr (t, st')"
    | "st' = st"
    using assms(1) by (auto simp: tgt conf_method_def conf_get_def bind_res_Inr_iff split: if_splits)
  then show ?thesis
  proof cases
    case 2
    then show ?thesis using put_effect[OF 2(2)] own by simp
  next
    case 3
    have "cid \<noteq> [] \<Longrightarrow> user = s_user s \<Longrightarrow> usable (s_user s) (conf_table (cs_files st)) (c_str cid)"
      using own 3(1) \<open>w = [] \<Longrightarrow> cid = []\<close> by auto
    then show ?thesis using delete_refines 3(2) by blast
  next
    case 4
    then show ?thesis using post_refines assms(2) tgt by blast
  qed simp_all
qed

lemma conf_process_refines:
  assumes "conf_process e s st = Inr (t, st')"
  shows "(request_ok e s st \<longrightarrow> refines (s_user s) st st') \<and> own_effect e (s_user s) st st'"
proof (cases "st' = st")
  case False
  let ?s = "vyatta_debug ''CONF:B'' (vyatta_debug ''CONF:A'' s)"
  obtain meth path tgt where "conf_target e (cs_files st) meth (s_user ?s) path = Some tgt" "conf_method e ?s meth path tgt st = Inr (t, st')"
    using assms(1) False by (auto simp: conf_process_def Let_def split: if_splits option.splits)
  moreover have "request_ok e ?s st = request_ok e s st" by (simp add: request_ok_def)
  ultimately show ?thesis using method_refines[of e ?s] by fastforce
qed simp

section \<open>Sequences of requests\<close>

text \<open>A request of a user, or a change of the files that leaves the description files alone: the shell commands, most requests of
  the other modes and the rest of the system. A change that removes a description file is not such a step. The server
  itself can make one: a DELETE of the operational mode whose path names the file takes it for the process id file of
  a command and removes it.\<close>

inductive conf_step :: "string \<Rightarrow> conf_state \<Rightarrow> conf_state \<Rightarrow> bool" where
  request: "conf_process e s st = Inr (t, st') \<Longrightarrow> request_ok e s st \<Longrightarrow> conf_step (s_user s) st st'"
| outside: "\<forall>t. fs (VYATTA_MODIFY_FILE @ t) = cs_files st (VYATTA_MODIFY_FILE @ t) \<Longrightarrow> conf_step u st (st\<lparr>cs_files := fs\<rparr>)"

inductive_cases conf_stepE: "conf_step u st st'"

lemma conf_step_refines: "conf_step u st st' \<Longrightarrow> refines u st st'"
proof (erule conf_stepE, goal_cases)
  case (1 e s t)
  then show ?case using conf_process_refines by blast
next
  case (2 fs)
  then have "conf_table fs = conf_table (cs_files st)" by (intro ext) (simp add: conf_table_def)
  then show ?case using 2 by simp
qed

interpretation sessions: simulation "\<lambda>st. True" "\<lambda>st st'. \<exists>u \<in> U. conf_step u st st'" "\<lambda>st. True"
  "\<lambda>st. conf_table (cs_files st)" "\<lambda>T T'. \<exists>u \<in> U. sessions_step u T T'" for U
  by unfold_locales (use conf_step_refines in fastforce)+

lemma sessions_kept:
  assumes "(\<lambda>T T'. \<exists>u \<in> U. sessions_step u T T')\<^sup>*\<^sup>* T T'" and "T t = Some (Owned v d)" and "v \<notin> U"
  shows "T' t = Some (Owned v d)"
  using assms(1) by (induction rule: rtranclp_induct) (use assms(2,3) sessions_step_keeps in fastforce)+

section \<open>The life of a session\<close>

text \<open>A request that deletes the session of a token, and the steps that are no such request of the owner: anything
  that other users do, and the requests of the owner for other sessions or with other methods.\<close>

definition closes_session :: "conf_env \<Rightarrow> Session \<Rightarrow> files \<Rightarrow> string \<Rightarrow> bool" where
  "closes_session e s fs tok \<longleftrightarrow> req_get s HTTP_REQ_METHOD = ''DELETE'' \<and>
     (case conf_target e fs ''DELETE'' (s_user s) (req_get s HTTP_REQ_URI) of
        Some (_, cid, _, _) \<Rightarrow> c_str cid = tok | None \<Rightarrow> False)"

inductive life_step :: "string \<Rightarrow> string \<Rightarrow> conf_state \<Rightarrow> conf_state \<Rightarrow> bool" for owner tok where
  other: "conf_step u st st' \<Longrightarrow> u \<noteq> owner \<Longrightarrow> life_step owner tok st st'"
| own: "conf_process e s st = Inr (t, st') \<Longrightarrow> request_ok e s st \<Longrightarrow> s_user s = owner \<Longrightarrow>
    \<not> closes_session e s (cs_files st) tok \<Longrightarrow> life_step owner tok st st'"

lemma run_action_files: "cs_files (snd (run_action e s command st)) = cs_files st"
  by (simp add: run_action_def run_execute_def Let_def split: prod.split)

lemma action_files: "conf_action e s action cid st = Inr (t, st') \<Longrightarrow> cs_files st' = cs_files st"
  using run_action_files[of e "vyatta_debug ''CONF:H'' s" _ st]
  by (auto simp: conf_action_def commit_or_save_def discard_session_def add_call_def
      Let_def bind_res_Inr_iff split: if_splits option.splits prod.splits) (metis snd_conv)+

lemma create_files:
  assumes "conf_create e s with_id user st = Inr (t, st')" "request_ok e s st" "conf_table (cs_files st) x \<noteq> None"
  shows "conf_table (cs_files st') x = conf_table (cs_files st) x"
proof -
  from conf_create_changes[OF assms(1)] consider "st' = st" | tok where "ce_token e = Some tok"
    "\<forall>p. p \<noteq> VYATTA_MODIFY_FILE @ c_str tok \<longrightarrow> cs_files st' p = cs_files st p" by (auto simp: modify_file)
  then show ?thesis
  proof cases
    case 2
    then have "x \<noteq> c_str tok" using assms(2,3) by (auto simp: request_ok_def)
    then show ?thesis using 2 by (simp add: conf_table_def)
  qed simp
qed

lemma post_files:
  assumes "conf_post e s with_id cid user tag st = Inr (t, st')" "request_ok e s st" "conf_table (cs_files st) x \<noteq> None"
  shows "conf_table (cs_files st') x = conf_table (cs_files st) x"
proof -
  let ?s = "vyatta_debug ''CONF:C'' s"
  consider "st' = st" | action cid1 where "conf_action e (vyatta_debug ''CONF:G'' ?s) action cid1 st = Inr (t, st')"
    | "conf_create e (vyatta_debug ''CONF:D'' ?s) with_id user st = Inr (t, st')"
    using assms(1) by (auto simp: conf_post_def Let_def split: list.splits option.splits prod.splits bool.splits if_splits)
  then show ?thesis
  proof cases
    case 3
    moreover have "request_ok e (vyatta_debug ''CONF:D'' ?s) st" using assms(2) by (simp add: request_ok_def)
    ultimately show ?thesis using create_files assms(3) by blast
  qed (auto dest: action_files)
qed

lemma request_keeps:
  assumes "conf_process e s st = Inr (t, st')" "request_ok e s st" "\<not> closes_session e s (cs_files st) tok" "conf_table (cs_files st) tok \<noteq> None"
  shows "conf_table (cs_files st') tok = conf_table (cs_files st) tok"
proof (cases "st' = st")
  case False
  let ?s = "vyatta_debug ''CONF:B'' (vyatta_debug ''CONF:A'' s)"
  obtain w cid user tag where tgt: "conf_target e (cs_files st) (req_get s HTTP_REQ_METHOD) (s_user s) (req_get s HTTP_REQ_URI) = Some (w, cid, user, tag)"
    "conf_method e ?s (req_get s HTTP_REQ_METHOD) (req_get s HTTP_REQ_URI) (w, cid, user, tag) st = Inr (t, st')"
    using assms(1) False by (auto simp: conf_process_def Let_def split: if_splits option.splits)
  then consider "conf_put e ?s w cid user st = Inr (t, st')"
    | "req_get s HTTP_REQ_METHOD = ''DELETE''" "st' = snd (conf_delete e ?s cid user st)"
    | "conf_post e ?s w cid user tag st = Inr (t, st')"
    using False by (auto simp: conf_method_def conf_get_def bind_res_Inr_iff split: if_splits)
  then show ?thesis
  proof cases
    case 1
    then have "cs_files st' = cs_files st"
      by (auto simp: conf_put_def run_execute_def Let_def bind_res_Inr_iff split: if_splits option.splits prod.splits)
    then show ?thesis by simp
  next
    case 2
    then have "c_str cid \<noteq> tok" using assms(3) tgt(1) by (simp add: closes_session_def)
    then show ?thesis using 2(2) by (simp add: conf_delete_def discard_session_def add_call_def modify_file Let_def)
  next
    case 3
    moreover have "request_ok e ?s st" using assms(2) by (simp add: request_ok_def)
    ultimately show ?thesis using post_files assms(4) by blast
  qed
qed simp

lemma life_step_keeps:
  assumes "life_step v tok st st'" "conf_table (cs_files st) tok = Some (Owned v d)"
  shows "conf_table (cs_files st') tok = Some (Owned v d)"
  using assms(1)
proof cases
  case (other u)
  then show ?thesis using conf_step_refines sessions_step_keeps assms(2) by fastforce
next
  case (own e s t)
  then show ?thesis using request_keeps[of e s st t st' tok] assms(2) by simp
qed

lemma life_kept:
  assumes "(life_step v tok)\<^sup>*\<^sup>* st st'" "conf_table (cs_files st) tok = Some (Owned v d)"
  shows "conf_table (cs_files st') tok = Some (Owned v d)"
  using assms(1) by (induction rule: rtranclp_induct) (use assms(2) life_step_keeps in blast)+

lemma created_owned:
  assumes "create_conf_modify_file W_ok fs tok u d = (True, fs')" "plain_text u" "plain_text d" "CHR ''/'' \<notin> set u"
    "length u + length d + 1 < CHUNKER_READ_SIZE"
  shows "conf_table fs' (c_str tok) = Some (Owned u d)"
  using create_read_conf_modify_file[OF assms, of "(u @ ''x'', [])"] unfolding read_table
  by (auto split: option.splits conf_session.splits)

section \<open>Properties\<close>

text \<open>C15: the life of a configuration session. Creating it (with the daemon reachable, its description file written, a
  token of at least sixteen characters without a slash, and a description that is not empty, is neither the id of a session nor the
  description of one of the user's, has no slash or line break and fits, with the account name, the line that is read back)
  answers 201 with the token and sets the session up in the daemon under the number of the token; the token then names a session
  of the creating user with the given description. It stays so in every sequence of steps in which the owner does not delete
  it: requests of other users, other requests of the owner, and other work that leaves the description files alone, under
  the assumptions made of requests for C12. Then the owner's DELETE, with the daemon reachable,
  discards the session and tears it down in the daemon, in this order and with no other call, and removes its
  description; the other sessions stay.\<close>

theorem conf_session_lifecycle:
  assumes "conf_request s ''POST'' (''/'' @ desc)" "desc \<noteq> []" "CHR ''/'' \<notin> set desc"
    and "read_conf_modify_file (cs_files st) desc (s_user s, []) = (False, s_user s, [])"
    and "\<not> fst (read_conf_modify_file_from_tag (ce_dir e) (cs_files st) desc (s_user s) [])"
    and "ce_token e = Some tok" "16 \<le> length tok" "CHR ''/'' \<notin> set tok" "ce_write e = W_ok" "ce_open e"
    and "plain_text (s_user s)" "plain_text desc" "CHR ''/'' \<notin> set (s_user s)" "length (s_user s) + length desc + 1 < CHUNKER_READ_SIZE"
  shows "\<exists>t st1. conf_process e s st = Inr (t, st1) \<and>
      http_get (response t) HTTP_RESP_CODE = ''201'' \<and> http_get (response t) HTTP_RESP_LOCATION = ''rest/conf/'' @ tok \<and>
      cs_calls st1 = cs_calls st @ [Sess_setup (conv_conf_id tok)] \<and>
      conf_table (cs_files st1) (c_str tok) = Some (Owned (s_user s) desc) \<and>
    (\<forall>st2. (life_step (s_user s) (c_str tok))\<^sup>*\<^sup>* st1 st2 \<longrightarrow>
      conf_table (cs_files st2) (c_str tok) = Some (Owned (s_user s) desc) \<and>
      (\<forall>e2 d. conf_request d ''DELETE'' (''/'' @ tok) \<and> s_user d = s_user s \<and> ce_open e2 \<longrightarrow>
        (\<exists>t2 st3. conf_process e2 d st2 = Inr (t2, st3) \<and>
          cs_calls st3 = cs_calls st2 @ [Sess_discard (conv_conf_id tok), Sess_teardown (conv_conf_id tok)] \<and>
          cs_cmds st3 = cs_cmds st2 \<and> conf_table (cs_files st3) = (conf_table (cs_files st2))(c_str tok := None))))"
proof -
  obtain t st1 where p: "conf_process e s st = Inr (t, st1)"
    "http_get (response t) HTTP_RESP_CODE = ''201''" "http_get (response t) HTTP_RESP_LOCATION = ''rest/conf/'' @ tok"
    "cs_calls st1 = cs_calls st @ [Sess_setup (conv_conf_id tok)]"
    "create_conf_modify_file W_ok (cs_files st) tok (s_user s) desc = (True, cs_files st1)"
    using conf_created[OF assms(1-7,9,10)] by blast
  have own: "conf_table (cs_files st1) (c_str tok) = Some (Owned (s_user s) desc)"
    by (rule created_owned[OF p(5) assms(11-14)])
  have del: "\<exists>t2 st3. conf_process e2 d st2 = Inr (t2, st3) \<and>
      cs_calls st3 = cs_calls st2 @ [Sess_discard (conv_conf_id tok), Sess_teardown (conv_conf_id tok)] \<and>
      cs_cmds st3 = cs_cmds st2 \<and> conf_table (cs_files st3) = (conf_table (cs_files st2))(c_str tok := None)"
    if "conf_table (cs_files st2) (c_str tok) = Some (Owned (s_user s) desc)"
      "conf_request d ''DELETE'' (''/'' @ tok)" "s_user d = s_user s" "ce_open e2" for st2 e2 d
  proof -
    have "read_conf_modify_file (cs_files st2) tok (s_user d, []) = (True, s_user d, desc)" using that(1,3) by (simp add: read_table)
    moreover have "tok \<noteq> []" using assms(7) by auto
    ultimately show ?thesis using conf_deleted[OF that(2) assms(8) _ that(4)] by (fastforce simp: modify_file)
  qed
  show ?thesis using p own life_kept[OF _ own] del by blast
qed

text \<open>C12: the configuration mode refines the table of sessions. In any sequence of requests of a set of users the description
  files pass through the states of the abstract table only: a session is opened for the user who asks (without a readable owner
  if writing its description fails) and is closed by its owner, so the sessions of everybody else stay as they are.
  It is assumed that the account names are plain, that every token made is free, that a failing write leaves a
  first part of the text, and that what happens between the requests leaves the description files alone, as an
  operational DELETE that names one of them does not.\<close>

theorem conf_refines_sessions:
  assumes "(\<lambda>st st'. \<exists>u \<in> U. conf_step u st st')\<^sup>*\<^sup>* st st'"
  shows "(\<lambda>T T'. \<exists>u \<in> U. sessions_step u T T')\<^sup>*\<^sup>* (conf_table (cs_files st)) (conf_table (cs_files st')) \<and>
    (\<forall>t v d. conf_table (cs_files st) t = Some (Owned v d) \<and> v \<notin> U \<longrightarrow> conf_table (cs_files st') t = Some (Owned v d))"
proof -
  have "(\<lambda>T T'. \<exists>u \<in> U. sessions_step u T T')\<^sup>*\<^sup>* (conf_table (cs_files st)) (conf_table (cs_files st'))"
    using sessions.simulated_run[OF assms] by simp
  then show ?thesis using sessions_kept by blast
qed

lemma example_user [simp]: "s_user (conf_session m p) = ''bob''"
  by (simp add: conf_session_def)

lemma example_created:
  assumes "fs (VYATTA_MODIFY_FILE @ ''mine'') = None"
  shows "\<exists>t st'. conf_process example_conf_env (conf_session ''POST'' (CONF_REQ_ROOT @ ''/mine'')) (example_conf_state fs) = Inr (t, st') \<and>
    cs_files st' = fs(VYATTA_MODIFY_FILE @ ''0123456789ABCDEF'' \<mapsto> ''bob/mine'')"
proof -
  have env: "ce_token example_conf_env = Some ''0123456789ABCDEF''" "ce_write example_conf_env = W_ok"
    "ce_dir example_conf_env = Some []" "cs_files (example_conf_state fs) = fs"
    by (simp_all add: example_conf_env_def example_conf_state_def)
  have req: "conf_request (conf_session ''POST'' (CONF_REQ_ROOT @ ''/mine'')) ''POST'' ''/mine''"
    by (rule conf_request_example) simp
  have "conf_target example_conf_env fs ''POST'' ''bob'' (CONF_REQ_ROOT @ ''/mine'') = Some (''/mine'', ''mine'', ''bob'', ''mine'')"
    using assms by (simp add: conf_target_def path_id_def find_sub_absent read_conf_modify_file_def modify_file Let_def)
  then show ?thesis using conf_process_request[OF req] env
    by (simp add: conf_method_def conf_post_def conf_create_def find_sub_absent read_conf_modify_file_from_tag_def
        create_conf_modify_file_def setup_session_def add_call_def modify_file Let_def)
qed

theorem conf_refines_sessions_witness:
  "\<exists>t st'. conf_process example_conf_env (conf_session ''POST'' (CONF_REQ_ROOT @ ''/mine''))
      (example_conf_state [VYATTA_MODIFY_FILE @ ''77'' \<mapsto> ''eve/x'']) = Inr (t, st') \<and>
    (\<lambda>T T'. \<exists>u \<in> {''bob''}. sessions_step u T T')\<^sup>*\<^sup>* [''77'' \<mapsto> Owned ''eve'' ''x''] (conf_table (cs_files st')) \<and>
    conf_table (cs_files st') ''77'' = Some (Owned ''eve'' ''x'')"
proof -
  let ?fs = "[VYATTA_MODIFY_FILE @ ''77'' \<mapsto> ''eve/x'']"
  have "find_sub ''/'' ''eve/x'' = Some 3" by code_simp
  moreover have "fgets CHUNKER_READ_SIZE ''eve/x'' = Some ''eve/x''" by (rule fgets_line) (simp_all add: rest_consts)
  ultimately have eve: "session_of ''eve/x'' = Owned ''eve'' ''x''" by (simp add: session_of_def)
  have tab: "conf_table ?fs = [''77'' \<mapsto> Owned ''eve'' ''x'']"
    by (rule ext) (simp add: conf_table_def eve)
  from example_created[of ?fs] obtain t st' where
    r: "conf_process example_conf_env (conf_session ''POST'' (CONF_REQ_ROOT @ ''/mine'')) (example_conf_state ?fs) = Inr (t, st')"
    by auto
  have "request_ok example_conf_env (conf_session ''POST'' (CONF_REQ_ROOT @ ''/mine'')) (example_conf_state ?fs)"
    by (simp add: request_ok_def plain_user_def example_conf_env_def example_conf_state_def conf_table_def CHUNKER_READ_SIZE_def)
  from request[OF r this] have "(\<lambda>st st'. \<exists>u \<in> {''bob''}. conf_step u st st')\<^sup>*\<^sup>* (example_conf_state ?fs) st'" by auto
  note res = conf_refines_sessions[OF this]
  have fs: "cs_files (example_conf_state ?fs) = ?fs" by (simp add: example_conf_state_def)
  show ?thesis using res[unfolded fs tab] r by auto
qed

theorem conf_session_lifecycle_witness:
  "\<exists>t st1 t2 st2. conf_process example_conf_env (conf_session ''POST'' (CONF_REQ_ROOT @ ''/'' @ ''mine'')) (example_conf_state Map.empty) = Inr (t, st1) \<and>
      http_get (response t) HTTP_RESP_CODE = ''201'' \<and>
      conf_table (cs_files st1) ''0123456789ABCDEF'' = Some (Owned ''bob'' ''mine'') \<and>
    conf_process example_conf_env (conf_session ''DELETE'' (CONF_REQ_ROOT @ ''/'' @ ''0123456789ABCDEF'')) st1 = Inr (t2, st2) \<and>
      conf_table (cs_files st2) ''0123456789ABCDEF'' = None"
proof -
  let ?k = "''0123456789ABCDEF''" and ?st = "example_conf_state Map.empty"
  have post: "conf_request (conf_session ''POST'' (CONF_REQ_ROOT @ ''/'' @ ''mine'')) ''POST'' (''/'' @ ''mine'')"
    by (rule conf_request_example) simp
  have del: "conf_request (conf_session ''DELETE'' (CONF_REQ_ROOT @ ''/'' @ ?k)) ''DELETE'' (''/'' @ ?k)"
    by (rule conf_request_example) simp
  have env: "ce_token example_conf_env = Some ?k" "ce_write example_conf_env = W_ok" "ce_open example_conf_env" "ce_dir example_conf_env = Some []"
    by (simp_all add: example_conf_env_def)
  have none: "read_conf_modify_file (cs_files ?st) ''mine'' ud = (False, ud)" for ud
    by (simp add: read_conf_modify_file_def example_conf_state_def)
  have k: "c_str ?k = ?k" by (simp add: c_str_id)
  obtain t st1 where a: "conf_process example_conf_env (conf_session ''POST'' (CONF_REQ_ROOT @ ''/'' @ ''mine'')) ?st = Inr (t, st1)"
    "http_get (response t) HTTP_RESP_CODE = ''201''" "conf_table (cs_files st1) ?k = Some (Owned ''bob'' ''mine'')"
    "\<forall>st2. (life_step ''bob'' ?k)\<^sup>*\<^sup>* st1 st2 \<longrightarrow> (\<forall>e2 d. conf_request d ''DELETE'' (''/'' @ ?k) \<and> s_user d = ''bob'' \<and> ce_open e2 \<longrightarrow>
        (\<exists>t2 st3. conf_process e2 d st2 = Inr (t2, st3) \<and> conf_table (cs_files st3) = (conf_table (cs_files st2))(?k := None)))"
    using conf_session_lifecycle[of _ _ ?st example_conf_env ?k, OF post _ _ _ _ env(1) _ _ env(2,3)] none
    unfolding k example_user by (fastforce simp: env(4) read_conf_modify_file_from_tag_def plain_text_def rest_consts)
  then show ?thesis using del env(3) by (metis (no_types, lifting) example_user fun_upd_same rtranclp.rtrancl_refl)
qed

text \<open>a request reaches only sessions of its user. Whatever the method and the path, what a request of the configuration
  mode tells the configuration daemon is about the number of a session that belongs to the user (or
  has lost its owner), or of the token just made, and every shell command it runs begins with the
  environment of such a session.\<close>

theorem conf_acts_on_own:
  assumes "conf_process e s st = Inr (t, st')"
  shows "\<exists>calls cmds. cs_calls st' = cs_calls st @ calls \<and> cs_cmds st' = cs_cmds st @ cmds \<and>
     (\<forall>c \<in> set calls. \<exists>cid. call_id c = conv_conf_id cid \<and>
        (usable (s_user s) (conf_table (cs_files st)) (c_str cid) \<or> ce_token e = Some cid)) \<and>
     (\<forall>c \<in> set cmds. \<exists>cid. usable (s_user s) (conf_table (cs_files st)) (c_str cid) \<and>
        prefix (session_command (conv_conf_id cid) @ '';'') c)"
  using conf_process_refines[OF assms] by (simp add: own_effect_def own_number_def)

lemma example_deleted:
  "\<exists>t st'. conf_process example_conf_env (conf_session ''DELETE'' (CONF_REQ_ROOT @ ''/77'')) (example_conf_state [VYATTA_MODIFY_FILE @ ''77'' \<mapsto> []]) = Inr (t, st') \<and>
    cs_calls st' = [Sess_discard (conv_conf_id ''77''), Sess_teardown (conv_conf_id ''77'')]"
proof -
  have req: "conf_request (conf_session ''DELETE'' (CONF_REQ_ROOT @ ''/77'')) ''DELETE'' ''/77''"
    by (rule conf_request_example) simp
  have "conf_target example_conf_env [VYATTA_MODIFY_FILE @ ''77'' \<mapsto> []] ''DELETE'' ''bob'' (CONF_REQ_ROOT @ ''/77'') = Some (''/77'', ''77'', ''bob'', [])"
    by (simp add: conf_target_def path_id_def find_sub_absent read_conf_modify_file_def fgets_def modify_file Let_def)
  then show ?thesis using conf_process_request[OF req]
    by (simp add: conf_method_def conf_delete_def discard_session_def add_call_def example_conf_env_def example_conf_state_def Let_def)
qed

theorem conf_acts_on_own_witness:
  "\<exists>t st'. conf_process example_conf_env (conf_session ''DELETE'' (CONF_REQ_ROOT @ ''/77''))
      (example_conf_state [VYATTA_MODIFY_FILE @ ''77'' \<mapsto> []]) = Inr (t, st') \<and>
    cs_calls st' = [Sess_discard (conv_conf_id ''77''), Sess_teardown (conv_conf_id ''77'')] \<and>
    (\<forall>c \<in> set (cs_calls st'). \<exists>cid. call_id c = conv_conf_id cid \<and>
       (usable ''bob'' [''77'' \<mapsto> Ownerless] (c_str cid) \<or> cid = ''0123456789ABCDEF''))"
proof -
  let ?fs = "[VYATTA_MODIFY_FILE @ ''77'' \<mapsto> []]"
  have tab: "conf_table ?fs = [''77'' \<mapsto> Ownerless]" by (rule ext) (simp add: conf_table_def session_of_def fgets_def)
  have env: "cs_files (example_conf_state ?fs) = ?fs" "cs_calls (example_conf_state ?fs) = []" "ce_token example_conf_env = Some ''0123456789ABCDEF''"
    by (simp_all add: example_conf_env_def example_conf_state_def)
  from example_deleted obtain t st' where
    r: "conf_process example_conf_env (conf_session ''DELETE'' (CONF_REQ_ROOT @ ''/77'')) (example_conf_state ?fs) = Inr (t, st')"
      "cs_calls st' = [Sess_discard (conv_conf_id ''77''), Sess_teardown (conv_conf_id ''77'')]"
    by blast
  from conf_acts_on_own[OF r(1)] have "\<forall>c \<in> set (cs_calls st'). \<exists>cid. call_id c = conv_conf_id cid \<and>
       (usable ''bob'' [''77'' \<mapsto> Ownerless] (c_str cid) \<or> cid = ''0123456789ABCDEF'')"
    unfolding env tab example_user by auto
  with r show ?thesis by blast
qed

end
