(* ===== verification/Session_Isolation.thy ===== *)
theory Session_Isolation
  imports Server Conf_Sessions
begin

text \<open>
  Configuration sessions under the server as a whole: whatever the requests, the configuration daemon is told something
  only on behalf of an account that was authenticated, and only about a session of that account.
\<close>

section \<open>The sessions and the other files\<close>

text \<open>Authentication does not touch the description files.\<close>

lemma auth_keeps_sessions:
  assumes "auth_validate e s (cr0, fs) = Inr (b, t, cr, fs')"
  shows "conf_table fs' = conf_table fs"
proof
  fix tok
  have "VYATTA_MODIFY_FILE @ tok \<notin> auth_files"
    by (simp add: auth_files_def session_file_def tmp_file_def lck_file_def rest_consts)
  then show "conf_table fs' tok = conf_table fs tok" using auth_validate_files[OF assms] by (simp add: conf_table_def)
qed

lemma dispatch_calls:
  assumes "dispatch e s sv = Inr (t, sv')"
  shows "\<exists>calls. sv_calls sv' = sv_calls sv @ calls \<and>
    (\<forall>c \<in> set calls. own_number (se_conf e) (s_user s) (w_files (sv_world sv)) (call_id c))"
  using assms
proof (cases rule: dispatch_cases)
  case (2 process d)
  have "own_effect (se_conf e) (s_user s) (conf_part sv) st'"
    if "conf_process (se_conf e) (vyatta_debug d (vyatta_debug ''XA'' s)) (conf_part sv) = Inr (t, st')" for st'
    using conf_process_refines[OF that] by simp
  then show ?thesis using 2
    by (auto simp: mode_of_def lift_mode_def bind_res_Inr_iff put_op_def put_conf_def conf_part_def own_effect_def split: if_splits)
qed simp_all

text \<open>The daemon looks for process ids in the directory of the description files.\<close>

lemma op_delete_path:
  assumes "op_request s ''DELETE'' pid" "CHR ''/'' \<notin> set pid" "16 \<le> length pid" "oe_init e 0" "l_write (oe_link e 0)"
    and "msg_text pid" "msg_text (s_user s)" "s_user s \<noteq> []" "length (DELETE_MSG pid (s_user s)) < 1024"
  shows "\<exists>t. op_process e s (m, w) = Inr (t, kill_process (l_env (oe_link e 0)) pid m w)"
proof -
  have "pid \<noteq> []" using assms(3) by auto
  then have "mrc_kill (oe_link e 0) (s_user s) pid (m, w) = Inr (kill_process (l_env (oe_link e 0)) pid m w)"
    using kill_command assms(5-9) by blast
  moreover have "rfind_sub ''/'' (OP_REQ_ROOT @ ''/'' @ pid) = Some (length OP_REQ_ROOT)"
    using rfind_sub_last[OF assms(2), of OP_REQ_ROOT] by simp
  ultimately show ?thesis using assms(1,3,4)
    by (simp add: op_process_def op_request_def op_delete_def Let_def rest_consts)
qed

lemma delete_description:
  assumes "w_files w (VYATTA_MODIFY_FILE @ tok) = Some c" "c \<noteq> []" "NUL \<notin> set c" "length c \<le> 80" "NUL \<notin> set tok"
  shows "\<exists>m' w'. kill_process e (''.vyattamodify_'' @ tok) m w = (m', w') \<and> conf_table (w_files w') tok = None \<and>
    prefix (w_cmds w @ [''kill -15 -'' @ c @ c_str (e_junk e)]) (w_cmds w')"
proof -
  have loc: "c_str (CHUNKER_RESP_PID @ ''/'' @ ''.vyattamodify_'' @ tok) = VYATTA_MODIFY_FILE @ tok"
    using assms(5) by (simp add: c_str_id rest_consts)
  have pid: "c @ c_str (e_junk e) = c_str (take 80 c @ e_junk e)" using assms(3,4) by (simp add: c_str_append)
  let ?cmd = "''kill -15 -'' @ c @ c_str (e_junk e)"
  obtain w' n killed where k: "kill_process e (''.vyattamodify_'' @ tok) m w = (m\<lparr>proc_coll := map_erase (''.vyattamodify_'' @ tok) (proc_coll m)\<rparr>, w')"
    "w_files w' = (w_files w)(VYATTA_MODIFY_FILE @ tok := None)" "attempts e (''/proc/'' @ (c @ c_str (e_junk e)) @ ''/stat'') 3 n killed"
    "w_cmds w' = w_cmds w @ replicate n ?cmd @ (if killed then [] else [''kill -9 -'' @ c @ c_str (e_junk e)])"
    using kill_process_runs[where key = "''.vyattamodify_'' @ tok" and m = m, OF _ assms(2) pid, of w, unfolded loc, OF assms(1)] by blast
  obtain i where "n = Suc i" using k(3) by (auto simp: attempts_def split: if_splits)
  then have "prefix (w_cmds w @ [?cmd]) (w_cmds w')"
    by (simp only: k(4) replicate_Suc append_Cons append_Nil same_prefix_prefix) (simp add: prefix_def)
  moreover have "conf_table (w_files w') tok = None" unfolding k(2) by simp
  ultimately show ?thesis using k(1) by blast
qed

section \<open>Properties\<close>

text \<open>C5: the server changes only the requester's own sessions in the configuration daemon. Whatever request arrives and
  whichever mode handles it, either no session of the daemon is set up, discarded, torn down, committed or saved, or the request was authenticated and
  every such call is for the number of a session that belongs to the authenticated account (or has lost its owner), or of the
  token just made for it.\<close>

theorem config_calls_own:
  assumes "serve_request e False start getenv input sv = Inr (out, sv')"
  shows "sv_calls sv' = sv_calls sv \<or>
    (\<exists>s t cr fs calls. parse getenv input (new_session False) = (True, s) \<and>
       auth_validate (se_auth e) s (sv_cred sv, w_files (sv_world sv)) = Inr (True, t, cr, fs) \<and>
       sv_calls sv' = sv_calls sv @ calls \<and>
       (\<forall>c \<in> set calls. \<exists>cid. call_id c = conv_conf_id cid \<and>
          (usable (s_user t) (conf_table (w_files (sv_world sv))) (c_str cid) \<or> ce_token (se_conf e) = Some cid)))"
  using assms
proof (cases rule: serve_cases)
  case (2 s t cr fs)
  obtain u sv2 where d: "dispatch e t (sv\<lparr>sv_cred := cr, sv_world := (sv_world sv)\<lparr>w_files := fs\<rparr>\<rparr>) = Inr (u, sv2)"
    "sv' = done_request e start sv2"
    by (rule serve_accepted[OF assms 2])
  from dispatch_calls[OF d(1)] d(2) auth_keeps_sessions[OF 2(2)] 2 show ?thesis
    by (simp add: own_number_def)
qed (simp add: same_outside_def)

lemma example_delete_served:
  assumes "w_files (sv_world sv) (VYATTA_MODIFY_FILE @ ''77'') = Some []"
  shows "\<exists>out sv'. serve_request example_server_env False start (alice_asks ''DELETE'' ''/rest/conf/77'') [] sv = Inr (out, sv') \<and>
    sv_calls sv' = sv_calls sv @ [Sess_discard (conv_conf_id ''77''), Sess_teardown (conv_conf_id ''77'')]"
proof -
  let ?e = example_server_env
  have uri: "NUL \<notin> set ''/rest/conf/77''" "NUL \<notin> set ''DELETE''" "find_sub ''/rest/service'' ''/rest/conf/77'' \<noteq> Some 0" by simp_all
  obtain s t where p: "parse (alice_asks ''DELETE'' ''/rest/conf/77'') [] (new_session False) = (True, s)"
    and acc: "\<forall>cr fs. \<exists>cr'. auth_validate example_auth_env s (cr, fs) = Inr (True, t, cr', fs)"
    and t: "s_user t = ''alice''" "s_access_level t = k_VYATTACFG" "auth_type t = AUTH_TYPE_BASIC" "\<not> s_debug t"
      "req_get t HTTP_REQ_URI = ''/rest/conf/77''" "req_get t HTTP_REQ_METHOD = ''DELETE''" "response t = response (new_session False)"
    by (rule alice_asks_accepted[OF uri])
  have req: "conf_request t ''DELETE'' ''/77''" using t by (simp add: conf_request_def rest_consts)
  obtain cr where cr: "auth_validate example_auth_env s (sv_cred sv, w_files (sv_world sv)) = Inr (True, t, cr, w_files (sv_world sv))"
    using acc by blast
  have env: "se_auth ?e = example_auth_env" "se_conf ?e = example_conf_env" "ce_open example_conf_env"
    by (simp_all add: example_server_env_def example_conf_env_def)
  have "conf_target example_conf_env (w_files (sv_world sv)) ''DELETE'' ''alice'' (CONF_REQ_ROOT @ ''/77'') = Some (''/77'', ''77'', ''alice'', [])"
    using assms by (simp add: conf_target_def path_id_def find_sub_absent read_conf_modify_file_def fgets_def modify_file Let_def)
  then obtain u st where c: "conf_process example_conf_env t (conf_part (sv\<lparr>sv_cred := cr\<rparr>)) = Inr (u, st)"
    "cs_calls st = sv_calls sv @ [Sess_discard (conv_conf_id ''77''), Sess_teardown (conv_conf_id ''77'')]"
    using conf_process_request[OF req] t(1,4) env(3)
    by (auto simp: conf_part_def conf_method_def conf_delete_def discard_session_def add_call_def vyatta_debug_off Let_def)
  have "mode_of ?e (s_access_level t) (req_get t HTTP_REQ_URI) = Some (lift_mode conf_part put_conf (conf_process example_conf_env))"
    by (simp add: mode_of_def env(2) t(2,5) rest_consts)
  then have d: "dispatch ?e t (sv\<lparr>sv_cred := cr\<rparr>) = Inr (u, put_conf st (sv\<lparr>sv_cred := cr\<rparr>))"
    using c(1) t(4,5) by (simp add: dispatch_def vyatta_debug_off lift_mode_def)
  have "\<not> s_debug s" using parse_debug[OF p] by simp
  then have "\<exists>out. serve_request ?e False start (alice_asks ''DELETE'' ''/rest/conf/77'') [] sv = Inr (out, done_request ?e start (put_conf st (sv\<lparr>sv_cred := cr\<rparr>)))"
    using p t(4) cr d by (simp add: serve_request_def serve_parsed_def run_auth_def Command_validate_def vyatta_debug_off env(1) Let_def)
  then show ?thesis using c(2) by (auto simp: put_conf_def)
qed

theorem config_calls_own_witness:
  "\<exists>out sv'. serve_request example_server_env False (0, 0) (alice_asks ''DELETE'' ''/rest/conf/77'') []
      (example_server\<lparr>sv_world := example_world\<lparr>w_files := [VYATTA_MODIFY_FILE @ ''77'' \<mapsto> []]\<rparr>\<rparr>) = Inr (out, sv') \<and>
    sv_calls sv' = [Sess_discard (conv_conf_id ''77''), Sess_teardown (conv_conf_id ''77'')] \<and>
    (\<exists>u. \<forall>c \<in> set (sv_calls sv'). \<exists>cid. call_id c = conv_conf_id cid \<and>
       (usable u [''77'' \<mapsto> Ownerless] (c_str cid) \<or> cid = ''0123456789ABCDEF''))"
proof -
  let ?fs = "[VYATTA_MODIFY_FILE @ ''77'' \<mapsto> []]"
  let ?sv = "example_server\<lparr>sv_world := example_world\<lparr>w_files := ?fs\<rparr>\<rparr>"
  have tab: "conf_table ?fs = [''77'' \<mapsto> Ownerless]" by (rule ext) (simp add: conf_table_def session_of_def fgets_def)
  have env: "w_files (sv_world ?sv) = ?fs" "sv_calls ?sv = []" "ce_token (se_conf example_server_env) = Some ''0123456789ABCDEF''"
    by (simp_all add: example_server_def example_server_env_def example_conf_env_def)
  obtain out sv' where r: "serve_request example_server_env False (0, 0) (alice_asks ''DELETE'' ''/rest/conf/77'') [] ?sv = Inr (out, sv')"
    "sv_calls sv' = [Sess_discard (conv_conf_id ''77''), Sess_teardown (conv_conf_id ''77'')]"
    using example_delete_served[of ?sv "(0, 0)"] env(1,2) by auto
  from config_calls_own[OF r(1)] r show ?thesis unfolding env tab by (auto simp: env(2))
qed

text \<open>C13: the process ids of the commands and the descriptions of the configuration sessions are in one directory, and a
  token is not checked to be one. A DELETE of \<open>/rest/op/.vyattamodify_\<close> followed by the token of a configuration
  session, by any account that may use the operational mode, removes the description file of the session,
  whoever owns it, provided the description file has at most 80 bytes and no NUL, and makes the daemon run a shell command that contains the owner's name and the description,
  which the creator of the session chose.\<close>

theorem op_delete_ends_session:
  assumes "parse getenv input (new_session False) = (True, s)"
    and "auth_validate (se_auth e) s (sv_cred sv, w_files (sv_world sv)) = Inr (True, t, cr, fs)"
    and "s_access_level t \<noteq> k_VYATTASERVICE_USER" "op_request t ''DELETE'' (''.vyattamodify_'' @ tok)"
    and "CHR ''/'' \<notin> set tok" "2 \<le> length tok" "msg_text tok" "msg_text (s_user t)" "s_user t \<noteq> []"
    and "length (DELETE_MSG (''.vyattamodify_'' @ tok) (s_user t)) < 1024" "oe_init (se_op e) 0" "l_write (oe_link (se_op e) 0)"
    and "w_files (sv_world sv) (VYATTA_MODIFY_FILE @ tok) = Some (v @ ''/'' @ d)" "NUL \<notin> set (v @ d)" "length (v @ ''/'' @ d) \<le> 80"
  shows "\<exists>out sv'. serve_request e False start getenv input sv = Inr (out, sv') \<and>
    conf_table (w_files (sv_world sv')) tok = None \<and>
    prefix (w_cmds (sv_world sv) @ [''kill -15 -'' @ v @ ''/'' @ d @ c_str (e_junk (l_env (oe_link (se_op e) 0)))]) (w_cmds (sv_world sv'))"
proof -
  let ?k = "''.vyattamodify_'' @ tok" and ?e = "l_env (oe_link (se_op e) 0)" and ?w = "(sv_world sv)\<lparr>w_files := fs\<rparr>"
  have tok: "NUL \<notin> set tok" "CHR ''/'' \<notin> set ?k" "16 \<le> length ?k" "msg_text ?k" using assms(5-7) by (auto simp: msg_text_def)
  have "VYATTA_MODIFY_FILE @ tok \<notin> auth_files"
    by (simp add: auth_files_def session_file_def tmp_file_def lck_file_def rest_consts)
  then have f: "w_files ?w (VYATTA_MODIFY_FILE @ tok) = Some (v @ ''/'' @ d)" using auth_validate_files[OF assms(2)] assms(13) by simp
  have "NUL \<notin> set (v @ ''/'' @ d)" using assms(14) by simp
  from delete_description[OF f _ this assms(15) tok(1), of ?e "sv_mgr sv"] obtain m' w' where
    k: "kill_process ?e ?k (sv_mgr sv) ?w = (m', w')" "conf_table (w_files w') tok = None"
      "prefix (w_cmds (sv_world sv) @ [''kill -15 -'' @ v @ ''/'' @ d @ c_str (e_junk ?e)]) (w_cmds w')" by auto
  obtain u where "op_process (se_op e) t (sv_mgr sv, ?w) = Inr (u, m', w')"
    using op_delete_path[OF assms(4) tok(2,3) assms(11,12) tok(4) assms(8-10), of "sv_mgr sv" ?w] k(1) by auto
  moreover have "req_get t HTTP_REQ_URI = OP_REQ_ROOT @ ''/'' @ ?k" using assms(4) by (simp add: op_request_def)
  ultimately show ?thesis using serve_op[OF assms(1-3), where st = "(m', w')" and start = start] k(2,3) by fastforce
qed

theorem op_delete_ends_session_witness:
  "\<exists>out sv'. serve_request example_server_env False (0, 0) (alice_asks ''DELETE'' ''/rest/op/.vyattamodify_77'') []
      (example_server\<lparr>sv_world := example_world\<lparr>w_files := [VYATTA_MODIFY_FILE @ ''77'' \<mapsto> ''bob/;reboot'']\<rparr>\<rparr>) = Inr (out, sv') \<and>
    conf_table (w_files (sv_world sv')) ''77'' = None \<and> prefix [''kill -15 -bob/;reboot''] (w_cmds (sv_world sv'))"
proof -
  let ?e = example_server_env
  let ?sv = "example_server\<lparr>sv_world := example_world\<lparr>w_files := [VYATTA_MODIFY_FILE @ ''77'' \<mapsto> ''bob/;reboot'']\<rparr>\<rparr>"
  have uri: "NUL \<notin> set ''/rest/op/.vyattamodify_77''" "NUL \<notin> set ''DELETE''" "find_sub ''/rest/service'' ''/rest/op/.vyattamodify_77'' \<noteq> Some 0"
    by simp_all
  obtain s t where p: "parse (alice_asks ''DELETE'' ''/rest/op/.vyattamodify_77'') [] (new_session False) = (True, s)"
    and acc: "\<forall>cr fs. \<exists>cr'. auth_validate example_auth_env s (cr, fs) = Inr (True, t, cr', fs)"
    and t: "s_user t = ''alice''" "s_access_level t = k_VYATTACFG" "auth_type t = AUTH_TYPE_BASIC" "\<not> s_debug t"
      "req_get t HTTP_REQ_URI = ''/rest/op/.vyattamodify_77''" "req_get t HTTP_REQ_METHOD = ''DELETE''" "response t = response (new_session False)"
    by (rule alice_asks_accepted[OF uri])
  have req: "op_request t ''DELETE'' (''.vyattamodify_'' @ ''77'')" using t by (simp add: op_request_def rest_consts)
  have env: "se_auth ?e = example_auth_env" "oe_init (se_op ?e) 0" "l_write (oe_link (se_op ?e) 0)"
    "e_junk (l_env (oe_link (se_op ?e) 0)) = [NUL]" "w_cmds (sv_world ?sv) = []"
    "w_files (sv_world ?sv) (VYATTA_MODIFY_FILE @ ''77'') = Some (''bob'' @ ''/'' @ '';reboot'')"
    by (simp_all add: example_server_env_def example_op_env_def example_link_def example_env_def example_world_def)
  obtain cr where "auth_validate (se_auth ?e) s (sv_cred ?sv, w_files (sv_world ?sv)) = Inr (True, t, cr, w_files (sv_world ?sv))"
    using acc env(1) by fastforce
  from op_delete_ends_session[OF p this _ req _ _ _ _ _ _ env(2,3,6), of "(0, 0)"] show ?thesis
    unfolding env(4,5) using t(1,2) by (auto simp: msg_text_def DELETE_MSG_def)
qed

end
