(* ===== verification/Spec2Isabelle.thy ===== *)
theory Spec2Isabelle
  imports Job_Isolation Wire_Delivery Session_Isolation
begin

text \<open>
  vyatta-rest: a verification of the REST server and the chunker daemon under \<open>src/src/server\<close>.

  \<^bold>\<open>The program.\<close> A FastCGI process answers HTTP requests below \<open>/rest\<close>. For each request it builds a
  \<open>Session\<close> (request and response parameters, user, access level), reads the environment and the body
  (\<open>parse\<close> of \<open>main.cc\<close>), authenticates the user by PAM or by a session key kept in a file
  (\<open>authbasic.cc\<close>, \<open>authsession.cc\<close>), takes on the user's identity, lets one of five modes handle the
  path (\<open>process.cc\<close>), prints the response and takes its own identity back. The operational mode does not run
  commands itself: it talks over a socket (\<open>multirespcmd.cc\<close>) to a second process, the chunker
  (\<open>chunker2_*.cc\<close>), which starts each command as the requesting user, collects its output in a file and
  hands it out piece by piece. The configuration mode drives sessions of the configuration daemon and runs
  shell commands; the application and service modes run scripts.

  \<^bold>\<open>How it is modelled.\<close> Every function of the sources is a HOL function with the same steps and the same
  branches. Strings are character lists; \<open>std::map\<close> is an association list in key order;
  \<open>unsigned long\<close> values that are computed with are 64-bit words. A thrown exception, an overrun buffer, a
  dangling iterator or a loop that never ends is a value of the type \<open>fault\<close>; a function
  that can have one returns \<open>fault + result\<close>. Loops are structural recursion or \<open>function\<close> with a measure;
  the loops that can run forever (\<open>StrProc\<close>, \<open>mass_replace\<close>, \<open>generate_token\<close>, \<open>tokenizeOpCmd\<close>, \<open>service_index\<close>) are
  partial functions with result None for not returning, and it is proved when they return. No fuel is used.
  State is passed explicitly: the files as a map from path to contents, the processes started and the
  shell commands run as traces, the process identity as a record \<open>cred\<close>. What the code calls outside
  the repository is a parameter, collected in one record per component (\<open>auth_env\<close>, \<open>mode_env\<close>,
  \<open>op_env\<close>, \<open>conf_env\<close>, \<open>conf_api\<close>, \<open>manager_env\<close>, \<open>spawn_os\<close>, \<open>link\<close>): PAM, the account database, curl,
  jansson, the configuration and operational daemons, the shell, the outcome of system calls.

  \<^bold>\<open>The theories\<close>, in the order of their dependence:

  \<^item> \<open>Cpp_Prelude\<close>, \<open>Cpp_Map\<close>, \<open>Cpp_Numbers\<close>: the part of C++ the sources use (searching and slicing
    strings, faults, ordered maps behind the locale \<open>std_map\<close>, printing and parsing numbers), the locales
    \<open>invariant_system\<close> and \<open>simulation\<close> for step relations.
  \<^item> \<open>Str_Proc\<close> (\<open>rl_str_proc.cc\<close>): the string splitter; when its constructor returns, its equality with
    replace-then-split, the recovery of joined fields.
  \<^item> \<open>Rest_Common\<close> (\<open>common.cc\<close>, \<open>common.hh\<close>): constants and helpers; tokens, the description
    files of configuration sessions, the translation of a path to a quoted command line.
  \<^item> \<open>Http_Session\<close> (\<open>http.cc\<close>, \<open>http.hh\<close>): the parameters of a request and a response, the printing of a
    response, the JSON builder, the error table; framing of the response, well-formed JSON.
  \<^item> \<open>Chunker_Processor\<close> (\<open>chunker2_processor.cc\<close>): starting a command as a user, tokenising it, collecting
    its output; the identity of the started process, the order of output and end marker.
  \<^item> \<open>Chunker_Manager\<close> (\<open>chunker2_manager.cc\<close>, \<open>chunker2_main.cc\<close>): the table of commands, the message
    handlers, killing, the options and the loop, as the step relation \<open>chunker_step\<close> with its invariant.
  \<^item> \<open>Chunker_Jobs\<close>: an abstract table of jobs, and the refinement of it by the daemon.
  \<^item> \<open>Multi_Resp\<close> (\<open>multirespcmd.cc\<close>): the client side of the socket, composed with the handlers of the daemon.
  \<^item> \<open>Output_Polling\<close>: the locale \<open>chunk_source\<close> states what a source of pieces promises, also while the command goes
    on writing, and delivery of the whole output is proved from it; the daemon and its client are an instance.
  \<^item> \<open>Mode_Base\<close> (\<open>mode.cc\<close>): running a script and turning its output into a response; the locale
    \<open>mode_handler\<close> is the contract of the five modes (an unauthenticated request changes nothing and is
    answered 401, the identity in the session is kept).
  \<^item> \<open>Configuration\<close> (\<open>configuration.cc\<close>): reading templates and node states of both command trees.
  \<^item> \<open>Simple_Modes\<close> (\<open>appmode.cc\<close>, \<open>servicemode.cc\<close>, \<open>permissions.cc\<close>), \<open>Op_Mode\<close> (\<open>opmode.cc\<close>),
    \<open>Conf_Mode\<close> (\<open>confmode.cc\<close>): the five modes, each an instance of \<open>mode_handler\<close>.
  \<^item> \<open>Op_Delivery\<close>: the GET requests of the operational mode as an instance of \<open>chunk_source\<close>, the end of a command.
  \<^item> \<open>Conf_Sessions\<close>: an abstract table of configuration sessions, and the refinement of it by the requests of any
    users; the life of a session from its creation to its owner's DELETE; which sessions the calls to the configuration
    daemon and the shell commands are about.
  \<^item> \<open>Auth\<close> (\<open>authbasic.cc\<close>, \<open>authsession.cc\<close>, \<open>authenticate.cc\<close>): both schemes and the choice between them,
    instances of the locale \<open>auth_scheme\<close> (an accepted session has the identity of its account).
  \<^item> \<open>Server\<close> (\<open>process.cc\<close>, \<open>command.cc\<close>, \<open>interface.cc\<close>, \<open>main.cc\<close>): one request from the wire to the
    response, the request loop, and the step relation \<open>server_step\<close> of the server together with the daemon.
  \<^item> \<open>Wire_Delivery\<close>: the requests for output as the client sends them and reads the answers, through parsing,
    authentication, dispatch and printing, as an instance of \<open>chunk_source\<close>.
  \<^item> \<open>Job_Isolation\<close>: what a request does to the table of jobs, by its method, and what the requests of one user leave of the
    jobs of another, message by message.
  \<^item> \<open>Session_Isolation\<close>: on whose behalf the server talks to the configuration daemon, and how the operational mode
    reaches the description files of the sessions.
  \<^item> this theory: the way of a command from the request to the process that is executed and back to the user
    as its output, what each request does to the table of jobs, the isolation of the users'
    jobs from each other.

  \<^bold>\<open>What is shown.\<close> Safety across the whole server: a request that is not authenticated has no effect; an
  accepted one runs with the number of its account; service users and the others cannot reach each
  other's modes; the configuration mode acts on sessions of the requester only, and the output of a command
  is accessible to its owner only; a posted command is executed as the authenticated user with the decoded arguments; a
  request changes at most one job, and only one of the requester unless it is a DELETE. Liveness: the
  output of a posted command reaches its owner completely and in order in the bodies of the printed answers, with a bound
  on the number of requests, and once if the command does not write while a piece is fetched; a token is produced. Refinement of the
  table of jobs by the daemon and of the table of sessions by the configuration mode, invariants of the daemon and
  the server, round trips of the texts the parts exchange (command lines, process lists, session descriptions,
  JSON output), the exact conditions of non-termination, and error behaviour. Several theorems state
  defects of the code exactly, for example that quoting can be broken by apostrophes and does not cover the first component of a PUT, that double
  quotes in an argument make further arguments, that a statement can
  carry a user name of its own, that a failed lock empties the session file, and that an operational request can
  remove the description of somebody's configuration session and have its text run by a shell.

  \<^bold>\<open>Bounds.\<close> Messages to the daemon shorter than 1024 characters and replies shorter than 8192 (the sizes of the
  buffers), outputs below four gigabytes (the size is cut to 32 bits), outputs without NUL
  characters, at most ten groups per account, account names without slash that fit a line. They appear as hypotheses where a theorem needs them; beyond them the
  model faults or cuts off as the code does.

  \<^bold>\<open>Assumptions of the model.\<close> A message of the client is handled by the daemon before the client reads the
  answer, and other messages come before or after, not in between (one connection is handled at a
  time); background commands change the files between requests and between an answer of the daemon and
  what the client does next (\<open>l_after\<close>), in any way.
  Log output, sleeping, file permissions and umask are left out. \<open>dbg\<close> headers are modelled, trace files of
  the debug mode as well.

  \<^bold>\<open>Not modelled.\<close> The PAM library and OpenSSL's base64 filter are parameters; \<open>debug.h\<close> is a logging macro; the Perl client and message
  libraries, the scripts, the examples, packaging and YANG files are not part of the C++ server. The
  template cache of \<open>configuration.hh\<close> is never read or written by the code.
\<close>

section \<open>From the request to the executed command\<close>

text \<open>An authenticated POST of a command line: what arrives, who it is from, and how the path decodes.\<close>

definition posted_command ::
    "server_env \<Rightarrow> (string \<Rightarrow> string option) \<Rightarrow> string \<Rightarrow> server \<Rightarrow> Session \<Rightarrow> cred \<times> files \<Rightarrow>
     string \<Rightarrow> string list \<Rightarrow> (string \<Rightarrow> string) \<Rightarrow> string \<Rightarrow> string \<Rightarrow> bool" where
  "posted_command e getenv input sv t st w args de cmd tok \<longleftrightarrow>
     (case parse getenv input (new_session False) of (ok, s) \<Rightarrow> ok \<and>
        auth_validate (se_auth e) s (sv_cred sv, w_files (sv_world sv)) = Inr (True, t, st)) \<and>
     \<not> service_user t \<and> s_access_level t \<noteq> k_VYATTASERVICE_USER \<and>
     op_request t ''POST'' (join ''/'' (w # args)) \<and> w \<noteq> [] \<and> args \<noteq> [] \<and>
     slash_free (tl w) \<and> oe_unescape (se_op e) (tl w) \<noteq> None \<and>
     list_all (\<lambda>x. slash_free x \<and> oe_unescape (se_op e) x = Some (de x)) args \<and>
     cmd = w @ concat (map (\<lambda>x. quote_arg (c_str (de x))) args) \<and>
     msg_text cmd \<and> msg_text tok \<and> msg_text (s_user t) \<and> 16 \<le> length tok \<and>
     length (COMMAND_MSG tok cmd (s_user t)) < 1024 \<and>
     oe_token (se_op e) = Some tok \<and> oe_init (se_op e) 0 \<and> l_write (oe_link (se_op e) 0)"

text \<open>The system calls of a start succeed for an account.\<close>

definition spawn_ok :: "spawn_os \<Rightarrow> string \<Rightarrow> nat \<Rightarrow> nat \<Rightarrow> nat list \<Rightarrow> bool" where
  "spawn_ok os user uid gid groups \<longleftrightarrow> os_fork os \<and> os_pipe os \<and> os_fork_writer os \<and> os_getpwnam os user = Some (uid, gid) \<and> os_setloginuid os \<and>
     os_getgrouplist os user gid = Some groups \<and> os_setgroups os \<and> os_setgid os \<and> os_setuid os \<and> os_execve os"

lemma posted_reaches_daemon:
  assumes "posted_command e getenv input sv t (cr, fs) w args de cmd tok"
  shows "\<exists>out sv'. serve_request e False start getenv input sv = Inr (out, sv') \<and>
    (sv_mgr sv', sv_world sv') =
      handle_command (l_env (oe_link (se_op e) 0)) tok cmd (s_user t) (sv_mgr sv) ((sv_world sv)\<lparr>w_files := fs\<rparr>)"
proof -
  obtain c word where w: "w = c # word" using assms by (cases w) (auto simp: posted_command_def)
  note f = assms[unfolded posted_command_def w list_all_iff list.sel]
  from f obtain s where p: "parse getenv input (new_session False) = (True, s)"
    "auth_validate (se_auth e) s (sv_cred sv, w_files (sv_world sv)) = Inr (True, t, cr, fs)"
    by (auto split: prod.splits)
  have "\<exists>out sv'. serve_request e False start getenv input sv = Inr (out, sv') \<and>
      (sv_mgr sv', sv_world sv') =
        handle_command (l_env (oe_link (se_op e) 0)) tok cmd (s_user t) (sv_mgr sv) ((sv_world sv)\<lparr>w_files := fs\<rparr>) \<and>
      c_uid (sv_cred sv') = fst start"
    by (rule serve_op_post[where c = c and word = word and args = args and de = de, THEN conjunct2, OF p])
      (use f in auto)
  then show ?thesis by blast
qed

lemma start_new_runs:
  assumes "spawn_ok os (c_str user) uid gid groups" and "cmd \<noteq> []" and "token \<noteq> []" and "user \<noteq> []"
  shows "\<exists>fs'. start_new os fs cr pid_path token cmd user =
    (True, fs', [Exit 0, Exec_opc (cr\<lparr>c_loginuid := uid, c_groups := groups, c_gid := gid, c_uid := uid\<rparr>) (writer_env user cmd)])"
  using assms by (simp add: start_new_def spawn_ok_def writer_proc_def writer_def Let_def)

lemma command_submits:
  assumes "spawn_ok (e_os e) (c_str user) uid gid groups" and "cmd \<noteq> []" and "token \<noteq> []" and "user \<noteq> []"
    and "job_table m token = None"
  shows "\<exists>m' w'. handle_command e token cmd user m w = (m', w') \<and>
    job_table m' = (job_table m)(token \<mapsto> \<lparr>j_owner = user, j_statement = cmd, j_finished = False\<rparr>) \<and>
    w_procs w' = w_procs w @ [Exit 0,
      Exec_opc ((e_cred e)\<lparr>c_loginuid := uid, c_groups := groups, c_gid := gid, c_uid := uid\<rparr>) (writer_env user cmd)]"
proof -
  from start_new_runs[OF assms(1-4)] obtain fs' where
    s: "start_new (e_os e) (w_files w) (e_cred e) (m_pid m) token cmd user = (True, fs', [Exit 0,
      Exec_opc ((e_cred e)\<lparr>c_loginuid := uid, c_groups := groups, c_gid := gid, c_uid := uid\<rparr>) (writer_env user cmd)])"
    by blast
  have "map_of (proc_coll m) token = None" using assms(5) by (simp add: job_table_def)
  then show ?thesis using s assms(5) by (simp add: handle_command_def job_of_def ProcessData_new_def)
qed

text \<open>C2: what a POST does in the end. An authenticated POST of \<open>/rest/op/word/arg/...\<close>, with at least one argument, by an account that is not a service
  user, under a fresh token of at least sixteen characters, with the daemon reachable and the system calls of the start succeeding, starts one process, which runs \<open>opc\<close> with the login,
  user and group number and the groups of the account that was authenticated, and with an environment in which a JSON reader finds
  exactly the word and the decoded arguments, less surrounding double quotes, as the argument list; the daemon's table has
  one job more, owned by that account. The message to the daemon fits its 1024 bytes and has no opening angle bracket in
  its fields; the word has no blank, apostrophe, double quote, backslash or control character; the arguments are not empty, also
  without their surrounding double quotes, and have no apostrophe, and what is inside those quotes has no double quote, backslash or
  control character.\<close>

theorem post_runs_command:
  assumes "posted_command e getenv input sv t st w args de cmd tok"
    and "spawn_ok (e_os (l_env (oe_link (se_op e) 0))) (s_user t) uid gid groups" and "s_user t \<noteq> []"
    and "set w \<inter> {CHR '' '', APOS, NUL} = {}" and "\<forall>x \<in> set args. clean_arg (c_str (de x))"
    and "\<forall>x \<in> set (w # map (\<lambda>x. arg_value (c_str (de x))) args). json_plain x"
    and "job_table (sv_mgr sv) tok = None"
  shows "\<exists>out sv' opcargs. serve_request e False start getenv input sv = Inr (out, sv') \<and>
    job_table (sv_mgr sv') = (job_table (sv_mgr sv))(tok \<mapsto> \<lparr>j_owner = s_user t, j_statement = cmd, j_finished = False\<rparr>) \<and>
    w_procs (sv_world sv') = w_procs (sv_world sv) @ [Exit 0,
      Exec_opc \<lparr>c_loginuid = uid, c_uid = uid, c_gid = gid, c_groups = groups\<rparr>
        (Some [''EFFECTIVE_USER='' @ s_user t, ''VYATTA_PROCESS_CLIENT=gui2_rest'', opcargs])] \<and>
    opc_arguments opcargs = Some (w # map (\<lambda>x. arg_value (c_str (de x))) args)"
proof -
  let ?e = "l_env (oe_link (se_op e) 0)"
  obtain cr fs where st: "st = (cr, fs)" by (cases st)
  from posted_reaches_daemon[OF assms(1)[unfolded st], of start] obtain out sv' where
    r: "serve_request e False start getenv input sv = Inr (out, sv')"
      "(sv_mgr sv', sv_world sv') = handle_command ?e tok cmd (s_user t) (sv_mgr sv) ((sv_world sv)\<lparr>w_files := fs\<rparr>)"
    by blast
  have facts: "cmd \<noteq> []" "tok \<noteq> []" "c_str (s_user t) = s_user t" "w \<noteq> []"
    "cmd = w @ concat (map quote_arg (map (\<lambda>x. c_str (de x)) args))"
    using assms(1) by (auto simp: posted_command_def msg_textD comp_def)
  let ?ts = "w # map (\<lambda>x. arg_value (c_str (de x))) args"
  have "tokenizeOpCmd cmd = Some (w # map arg_value (map (\<lambda>x. c_str (de x)) args))"
    unfolding facts(5) using assms(4,5) facts(4) by (intro tokenize_cli) auto
  moreover have "c_str (opc_args ?ts) = opc_args ?ts"
    using assms(6) json_plain_no_NUL by (intro c_str_id opc_args_no_NUL) blast
  moreover have "c_str (''EFFECTIVE_USER='' @ s_user t) = ''EFFECTIVE_USER='' @ s_user t" using facts(3) by simp
  moreover have "c_str ''VYATTA_PROCESS_CLIENT=gui2_rest'' = ''VYATTA_PROCESS_CLIENT=gui2_rest''" by (simp add: c_str_id)
  ultimately have env: "writer_env (s_user t) cmd =
      Some [''EFFECTIVE_USER='' @ s_user t, ''VYATTA_PROCESS_CLIENT=gui2_rest'', opc_args ?ts]"
    unfolding writer_env_def by (simp only: option.case list.map comp_def map_map)
  have ops: "opc_arguments (opc_args ?ts) = Some ?ts" by (rule opc_arguments_args) (use assms(6) in auto)
  have cred: "(e_cred ?e)\<lparr>c_loginuid := uid, c_groups := groups, c_gid := gid, c_uid := uid\<rparr> =
      \<lparr>c_loginuid = uid, c_uid = uid, c_gid = gid, c_groups = groups\<rparr>" by simp
  obtain m' w' where h: "handle_command ?e tok cmd (s_user t) (sv_mgr sv) ((sv_world sv)\<lparr>w_files := fs\<rparr>) = (m', w')"
      "job_table m' = (job_table (sv_mgr sv))(tok \<mapsto> \<lparr>j_owner = s_user t, j_statement = cmd, j_finished = False\<rparr>)"
      "w_procs w' = w_procs ((sv_world sv)\<lparr>w_files := fs\<rparr>) @ [Exit 0,
        Exec_opc ((e_cred ?e)\<lparr>c_loginuid := uid, c_groups := groups, c_gid := gid, c_uid := uid\<rparr>) (writer_env (s_user t) cmd)]"
    using command_submits[where e = ?e and uid = uid and gid = gid and groups = groups
        and w = "(sv_world sv)\<lparr>w_files := fs\<rparr>", OF _ facts(1,2) assms(3,7)] assms(2) unfolding facts(3) by blast
  then have "sv_mgr sv' = m'" "sv_world sv' = w'" using r(2) by simp_all
  then show ?thesis using r(1) h(2,3) ops unfolding env cred by auto
qed

definition example_command_env :: server_env where
  "example_command_env = example_server_env\<lparr>se_op := example_op_env\<lparr>oe_link := (\<lambda>n. example_link\<lparr>l_env :=
     example_env\<lparr>e_os := example_os\<lparr>os_getpwnam := (\<lambda>u. Some (1000, 100))\<rparr>\<rparr>\<rparr>)\<rparr>\<rparr>"

lemma example_posted:
  assumes "sv_cred sv = example_root"
  shows "\<exists>t st. s_user t = ''alice'' \<and>
     posted_command example_command_env alice_getenv [] sv t st ''show'' [''version''] (\<lambda>x. x)
       (''show '' @ [APOS] @ ''version'' @ [APOS]) ''0123456789ABCDEF''"
proof -
  let ?e = example_command_env
  have p: "parse alice_getenv [] (new_session False) = (True, alice_session)"
    using alice_request(4) by (simp add: parse_def Let_def alice_session_def)
  have env: "se_auth ?e = example_auth_env" "sv_cred sv = example_root"
    "oe_unescape (se_op ?e) = Some" "oe_token (se_op ?e) = Some ''0123456789ABCDEF''" "oe_init (se_op ?e) 0"
    "l_write (oe_link (se_op ?e) 0)"
    by (simp_all add: assms example_command_env_def example_server_env_def example_op_env_def example_link_def)
  obtain t cr fs where a: "auth_validate example_auth_env alice_session (example_root, w_files (sv_world sv)) =
      Inr (True, t, cr, fs)" "s_user t = ''alice''" "\<not> service_user t" "s_access_level t = k_VYATTACFG"
      "auth_type t = AUTH_TYPE_BASIC" "request t = request alice_session"
    using alice_accepted[of "w_files (sv_world sv)"] by blast
  have op: "op_request t ''POST'' (join ''/'' [''show'', ''version''])"
    using a(5,6) alice_request(1,2) by (simp add: op_request_def rest_consts)
  then have "posted_command ?e alice_getenv [] sv t (cr, fs) ''show'' [''version''] (\<lambda>x. x)
       (''show '' @ [APOS] @ ''version'' @ [APOS]) ''0123456789ABCDEF''"
    using a by (simp add: posted_command_def p env slash_free_def quote_arg_def msg_text_def COMMAND_MSG_def c_str_def)
  then show ?thesis using a(2) by blast
qed

theorem post_runs_command_witness:
  "\<exists>out sv' opcargs. serve_request example_command_env False (0, 0) alice_getenv [] example_server = Inr (out, sv') \<and>
    w_procs (sv_world sv') = [Exit 0, Exec_opc \<lparr>c_loginuid = 1000, c_uid = 1000, c_gid = 100, c_groups = [100, 110]\<rparr>
      (Some [''EFFECTIVE_USER=alice'', ''VYATTA_PROCESS_CLIENT=gui2_rest'', opcargs])] \<and>
    opc_arguments opcargs = Some [''show'', ''version'']"
proof -
  obtain t st where t: "s_user t = ''alice''"
    "posted_command example_command_env alice_getenv [] example_server t st ''show'' [''version''] (\<lambda>x. x)
       (''show '' @ [APOS] @ ''version'' @ [APOS]) ''0123456789ABCDEF''"
    using example_posted[of example_server] by (auto simp: example_server_def)
  have env: "e_os (l_env (oe_link (se_op example_command_env) 0)) = example_os\<lparr>os_getpwnam := (\<lambda>u. Some (1000, 100))\<rparr>"
    "w_procs (sv_world example_server) = []" "job_table (sv_mgr example_server) ''0123456789ABCDEF'' = None"
    by (simp_all add: example_command_env_def example_op_env_def example_server_def example_world_def
        example_manager_def job_table_def)
  show ?thesis
    using post_runs_command[where uid = 1000 and gid = 100 and groups = "[100, 110]" and start = "(0, 0)", OF t(2)]
    by (auto simp: t(1) env spawn_ok_def example_os_def clean_arg_def arg_value_def json_plain_def c_str_def)
qed

section \<open>From the request to the output\<close>

text \<open>A command that was just started can be polled by its owner, from the start of its output.\<close>

lemma command_pollable:
  assumes "mgr_ok m" "map_of (proc_coll m) token = None" "chunk_size m = of_nat CHUNKER_READ_SIZE"
    and "reply_text cmd" "reply_text token" "reply_text user" "msg_text token" "msg_text user"
    and "length token \<le> 1024" "length cmd \<le> 1024" "length user \<le> 1024"
    and "length (NEXT_MSG token user) < 1024" "link_ok l"
    and "handle_command e token cmd user m w = (m', w')"
  shows "poll_state l user token K_RUNNING m' \<and> poll_off token m' = 0"
proof -
  have ne: "cmd \<noteq> []" "token \<noteq> []" "user \<noteq> []" using assms(4-6) by (auto simp: reply_text_def clean_field_def)
  define pd where "pd = ProcessData_new\<lparr>start_time := e_time e, last_update := e_time e, pd_token := token,
      pd_command := cmd, pd_user := user, pd_status := K_RUNNING\<rparr>"
  have "fst (start_new (e_os e) (w_files w) (e_cred e) (m_pid m) token cmd user)"
    using ne by (auto simp: start_new_def split: option.splits prod.splits)
  then have m': "m' = m\<lparr>proc_coll := map_insert token pd (proc_coll m)\<rparr>"
    using assms(2,14) ne by (auto simp: handle_command_def pd_def split: prod.splits)
  have get: "map_of (proc_coll m') token = Some pd" using assms(1,2) m' by (simp add: mgr_ok_def map_insert_get)
  have "mgr_ok m'" using handle_command_ok[OF assms(1), of token cmd user e w] assms(9-11,14) by simp
  then have "pollable m' token pd"
    using get assms(4-8,12) by (simp add: pollable_def clean_entry_def pd_def)
  then show ?thesis using get assms(3,13) m' by (auto simp: poll_state_def poll_off_def pd_def ProcessData_new_def)
qed

text \<open>C4: from the request to the output, on the wire. After an authenticated POST of a command under a fresh token, the
  user who keeps sending requests for the token, each parsed, authenticated, dispatched and answered by the server,
  finds in the bodies of the answers 200 the whole output of the command in order, within a bounded
  number of requests after the command has finished; when the command writes nothing within a request, the bodies
  are exactly the output. The next request is answered 410, the output files are gone, the command is out of the daemon's
  table if its process id is known, and the server has its own identity. The daemon hands out pieces of its default size, the requests carry
  credentials whose check leaves the files as they are, the command line has none of the characters that
  separate the fields of the daemon's answers, the output does not contain the word \<open>END\<close>, and no other message for
  the token comes in between.\<close>

theorem post_output_returned:
  assumes "posted_command e getenv input sv t st w args de cmd tok"
    and "mgr_ok (sv_mgr sv)" "job_table (sv_mgr sv) tok = None" "chunk_size (sv_mgr sv) = of_nat CHUNKER_READ_SIZE"
    and "reply_text cmd" "reply_text tok" "reply_text (s_user t)"
    and "wire_polling pe penv s tok" "s_user s = s_user t" "link_ok (oe_link (se_op pe) 1)"
    and "\<forall>g \<in> set gs. appended tok g \<and> \<not> out_done tok (fst g) \<and> prefix (out_text tok (snd g)) (out_text tok f)"
    and "sorted_wrt prefix (map (\<lambda>g. out_text tok (fst g)) gs)"
    and "out_good tok f" "out_done tok f" "\<not> contains (out_text tok f) ''END''"
  shows "\<exists>out sv'. serve_request e False start getenv input sv = Inr (out, sv') \<and>
    (\<exists>k \<le> length (out_text tok f) div CHUNKER_READ_SIZE + 1.
      case run_polls (wire_answer pe start penv) (gs @ replicate k (f, f)) sv' of (bodies, sv1) \<Rightarrow>
        (\<exists>ps. list_all2 prefix ps bodies \<and> concat ps = out_text tok f \<and>
           ((\<forall>g \<in> set gs. out_text tok (snd g) = out_text tok (fst g)) \<longrightarrow> ps = bodies)) \<and>
        (\<exists>out2 sv2. wire_request pe start penv (f, f) sv1 = Inr (out2, sv2) \<and> answers ''410'' out2 \<and>
           w_files (sv_world sv2) (chunk_file tok) = None \<and> w_files (sv_world sv2) (end_file tok) = None \<and>
           (has_pid_file ((sv_world sv1)\<lparr>w_files := f\<rparr>) tok \<longrightarrow> map_of (proc_coll (sv_mgr sv2)) tok = None) \<and>
           c_uid (sv_cred sv2) = fst start \<and> c_gid (sv_cred sv2) = snd start))"
proof -
  obtain cr fs where st: "st = (cr, fs)" by (cases st)
  let ?e = "l_env (oe_link (se_op e) 0)"
  from posted_reaches_daemon[OF assms(1)[unfolded st], of start] obtain out sv' where
    r: "serve_request e False start getenv input sv = Inr (out, sv')"
      "handle_command ?e tok cmd (s_user t) (sv_mgr sv) ((sv_world sv)\<lparr>w_files := fs\<rparr>) = (sv_mgr sv', sv_world sv')"
    by metis
  have l: "length (COMMAND_MSG tok cmd (s_user t)) < 1024" "msg_text tok" "msg_text (s_user t)"
    using assms(1) by (auto simp: posted_command_def)
  then have len: "length tok \<le> 1024" "length cmd \<le> 1024" "length (s_user t) \<le> 1024" "length (NEXT_MSG tok (s_user t)) < 1024"
    by (simp_all add: COMMAND_MSG_def NEXT_MSG_def)
  have "map_of (proc_coll (sv_mgr sv)) tok = None" using assms(3) by (simp add: job_table_def)
  from command_pollable[OF assms(2) this assms(4-7) l(2,3) len assms(10) r(2)]
  have live: "poll_state (oe_link (se_op pe) 1) (s_user s) tok K_RUNNING (sv_mgr sv')" "poll_off tok (sv_mgr sv') = 0"
    using assms(9) by simp_all
  let ?run = "\<lambda>k. run_polls (wire_answer pe start penv) (gs @ replicate k (f, f)) sv'"
  from wire_run[OF assms(8) live assms(11-15), of start] obtain k ps where
    k: "k \<le> length (out_text tok f) div CHUNKER_READ_SIZE + 1"
      "list_all2 prefix ps (fst (?run k))" "concat ps = out_text tok f"
      "(\<forall>g \<in> set gs. out_text tok (snd g) = out_text tok (fst g)) \<longrightarrow> ps = fst (?run k)"
      "poll_state (oe_link (se_op pe) 1) (s_user s) tok K_DEAD (sv_mgr (snd (?run k)))" by blast
  from wire_end[OF assms(8) k(5) assms(14), of start] k(1-4) r(1) show ?thesis
    by (intro exI[of _ out] exI[of _ sv'] conjI exI[of _ k]) (auto split: prod.splits)
qed

lemma example_wire_polling:
  "\<exists>s. s_user s = ''alice'' \<and> wire_polling example_command_env (alice_asks ''GET'' ''/rest/op/0123456789ABCDEF'') s ''0123456789ABCDEF''"
proof -
  have uri: "NUL \<notin> set ''/rest/op/0123456789ABCDEF''" "NUL \<notin> set ''GET''" "find_sub ''/rest/service'' ''/rest/op/0123456789ABCDEF'' \<noteq> Some 0"
    by simp_all
  obtain s t where p: "parse (alice_asks ''GET'' ''/rest/op/0123456789ABCDEF'') [] (new_session False) = (True, s)"
    and acc: "\<forall>cr fs. \<exists>cr'. auth_validate example_auth_env s (cr, fs) = Inr (True, t, cr', fs)"
    and t: "s_user t = ''alice''" "s_access_level t = k_VYATTACFG" "auth_type t = AUTH_TYPE_BASIC" "\<not> s_debug t"
      "req_get t HTTP_REQ_URI = ''/rest/op/0123456789ABCDEF''" "req_get t HTTP_REQ_METHOD = ''GET''" "response t = response (new_session False)"
    by (rule alice_asks_accepted[OF uri])
  have "op_request t ''GET'' ''0123456789ABCDEF''" using t by (simp add: op_request_def rest_consts)
  then have "op_polling (se_op example_command_env) t ''0123456789ABCDEF''"
    using t(1) by (simp add: op_polling_def example_command_env_def example_op_env_def example_link_def link_ok_def DETAILS_MSG_def)
  moreover have "se_auth example_command_env = example_auth_env" by (simp add: example_command_env_def example_server_env_def)
  ultimately show ?thesis using p t acc by (intro exI[of _ t]) (simp add: wire_polling_def)
qed

theorem post_output_returned_witness:
  "\<exists>out sv'. serve_request example_command_env False (0, 0) alice_getenv [] example_server = Inr (out, sv') \<and>
    (\<exists>k \<le> 1. \<exists>bodies sv1. run_polls (wire_answer example_command_env (0, 0) (alice_asks ''GET'' ''/rest/op/0123456789ABCDEF''))
        ([([chunk_file ''0123456789ABCDEF'' \<mapsto> ''he''], [chunk_file ''0123456789ABCDEF'' \<mapsto> ''hel''])] @
          replicate k ([chunk_file ''0123456789ABCDEF'' \<mapsto> ''hello'', end_file ''0123456789ABCDEF'' \<mapsto> ''end''],
            [chunk_file ''0123456789ABCDEF'' \<mapsto> ''hello'', end_file ''0123456789ABCDEF'' \<mapsto> ''end''])) sv' = (bodies, sv1) \<and>
      (\<exists>ps. list_all2 prefix ps bodies \<and> concat ps = ''hello''))"
proof -
  let ?k = "''0123456789ABCDEF''" and ?c = "''show '' @ [APOS] @ ''version'' @ [APOS]"
  obtain t st where t: "s_user t = ''alice''"
    "posted_command example_command_env alice_getenv [] example_server t st ''show'' [''version''] (\<lambda>x. x) ?c ?k"
    using example_posted[of example_server] by (auto simp: example_server_def)
  obtain s where s: "s_user s = ''alice''" "wire_polling example_command_env (alice_asks ''GET'' ''/rest/op/0123456789ABCDEF'') s ?k" using example_wire_polling by blast
  have m: "mgr_ok (sv_mgr example_server)" "job_table (sv_mgr example_server) ?k = None"
    "chunk_size (sv_mgr example_server) = of_nat CHUNKER_READ_SIZE"
    by (simp_all add: example_server_def example_manager_def mgr_ok_def sorted_map_def job_table_def rest_consts)
  have rt: "reply_text ?c" "reply_text ?k" "reply_text (s_user t)"
    by (simp_all add: t(1) reply_text_def clean_field_def)
  have l: "s_user s = s_user t" "link_ok (oe_link (se_op example_command_env) 1)"
    by (simp_all add: s(1) t(1) example_command_env_def example_op_env_def example_link_def link_ok_def)
  show ?thesis
    using post_output_returned[OF t(2) m rt s(2) l, of "[([chunk_file ?k \<mapsto> ''he''], [chunk_file ?k \<mapsto> ''hel''])]"
      "[chunk_file ?k \<mapsto> ''hello'', end_file ?k \<mapsto> ''end'']" "(0, 0)"] end_file_neq[of ?k]
    by (fastforce simp: out_good_def out_done_def out_text_def appended_def file_text_def rest_consts contains_def split: prod.splits)
qed

section \<open>The server and the table of jobs\<close>

text \<open>C10: what a request does to the daemon's table, by its method. Outside debug mode an authenticated request, whatever its path and its mode,
  changes at most one entry: a POST enters the decoded command line under the token made for it, if that token is
  free, as an unfinished job of the authenticated account; a GET marks the job that the last component of its path names as finished, or
  removes it, and only if the job belongs to that account; a DELETE removes the job its last component names;
  no other method changes the table. No job that stays ever changes its owner or its statement, and nothing is put in place of
  another job. The path, the user name, the token and the decoded command line are free of the character that opens a tag
  in the messages to the daemon, and of NUL.\<close>

theorem request_changes_one_job:
  assumes "serve_request e False start getenv input sv = Inr (out, sv')" and "mgr_ok (sv_mgr sv)"
    and "parse getenv input (new_session False) = (True, s)"
    and "auth_validate (se_auth e) s (sv_cred sv, w_files (sv_world sv)) = Inr (True, t, cr, fs)"
    and "msg_text (req_get s HTTP_REQ_URI)" and "msg_text (s_user t)"
    and "\<forall>x. oe_token (se_op e) = Some x \<longrightarrow> msg_text x" and "\<forall>cmd. posted_text (se_op e) s = Inr cmd \<longrightarrow> msg_text cmd"
  shows "let J = job_table (sv_mgr sv); J' = job_table (sv_mgr sv'); meth = req_get s HTTP_REQ_METHOD;
      tok = last_component (req_get s HTTP_REQ_URI) in
    J' = J \<or>
    meth = ''POST'' \<and> (\<exists>new cmd. oe_token (se_op e) = Some new \<and> posted_text (se_op e) s = Inr cmd \<and> J new = None \<and> new \<noteq> [] \<and> cmd \<noteq> [] \<and>
      J' = J(new \<mapsto> \<lparr>j_owner = s_user t, j_statement = cmd, j_finished = False\<rparr>)) \<or>
    meth = ''GET'' \<and> (\<exists>j. J tok = Some j \<and> j_owner j = s_user t \<and> J' \<in> {J(tok \<mapsto> j\<lparr>j_finished := True\<rparr>), J(tok := None)}) \<or>
    meth = ''DELETE'' \<and> J' = J(tok := None)"
proof -
  have k: "request t = request s" using validate.kept[OF assms(4)] by simp
  obtain u sv2 where d: "dispatch e t (sv\<lparr>sv_cred := cr, sv_world := (sv_world sv)\<lparr>w_files := fs\<rparr>\<rparr>) = Inr (u, sv2)"
    "sv' = done_request e start sv2"
    by (rule serve_accepted[OF assms(1,3,4)])
  have "posted_text (se_op e) t = posted_text (se_op e) s" using k by (simp add: posted_text_def)
  then have "job_effect (se_op e) t (s_user t) (job_table (sv_mgr sv)) (job_table (sv_mgr sv'))"
    using dispatch_effect[OF d(1)] assms(2,5-8) k d(2) by simp
  then have "job_effect (se_op e) s (s_user t) (job_table (sv_mgr sv)) (job_table (sv_mgr sv'))" using job_effect_cong[OF k] by simp
  then show ?thesis unfolding job_effect_def deletes_def last_component_def[symmetric] Let_def by blast
qed

theorem request_changes_one_job_witness:
  "\<exists>out sv'. serve_request example_command_env False (0, 0) alice_getenv [] example_server = Inr (out, sv') \<and>
     (\<forall>tok. tok = ''0123456789ABCDEF'' \<or> job_table (sv_mgr sv') tok = job_table (sv_mgr example_server) tok)"
proof -
  obtain t cr fs where t: "s_user t = ''alice''" and
    post: "posted_command example_command_env alice_getenv [] example_server t (cr, fs) ''show'' [''version'']
      (\<lambda>x. x) (''show '' @ [APOS] @ ''version'' @ [APOS]) ''0123456789ABCDEF''"
    using example_posted[of example_server] by (auto simp: example_server_def)
  from posted_reaches_daemon[OF post, of "(0, 0)"] obtain out sv' where
    r: "serve_request example_command_env False (0, 0) alice_getenv [] example_server = Inr (out, sv')" by blast
  from post obtain s where p: "parse alice_getenv [] (new_session False) = (True, s)"
    "auth_validate (se_auth example_command_env) s (sv_cred example_server, w_files (sv_world example_server)) = Inr (True, t, cr, fs)"
    by (auto simp: posted_command_def split: prod.splits)
  then have s: "s = alice_session" using alice_request(4) by (simp add: parse_def Let_def alice_session_def)
  have ok: "mgr_ok (sv_mgr example_server)" by (simp add: example_server_def example_manager_def mgr_ok_def sorted_map_def)
  have tok: "oe_token (se_op example_command_env) = Some ''0123456789ABCDEF''" "oe_unescape (se_op example_command_env) = Some"
    by (simp_all add: example_command_env_def example_op_env_def)
  have "drop (length OP_REQ_ROOT + 1) (req_get s HTTP_REQ_URI) = join ''/'' (''show'' # [''version''])"
    using s alice_request(1) by (simp add: rest_consts)
  moreover have "translate_rest_to_cli Some (join ''/'' (''show'' # [''version''])) = Inr (''show'' @ concat (map (\<lambda>x. quote_arg (c_str x)) [''version'']))"
    by (rule translate_words) (simp_all add: slash_free_def)
  ultimately have cmd: "posted_text (se_op example_command_env) s = Inr (''show '' @ [APOS] @ ''version'' @ [APOS])"
    by (simp add: posted_text_def tok(2) quote_arg_def c_str_def)
  have "req_get s HTTP_REQ_METHOD = ''POST''" "msg_text (req_get s HTTP_REQ_URI)" using s alice_request(1,2) by (simp_all add: msg_text_def)
  then have "\<forall>tok. tok = ''0123456789ABCDEF'' \<or> job_table (sv_mgr sv') tok = job_table (sv_mgr example_server) tok"
    using request_changes_one_job[OF r ok p] t tok(1) cmd by (auto simp: Let_def msg_text_def split: if_splits)
  then show ?thesis using r by blast
qed

section \<open>Isolation of the users\<close>

text \<open>C3: the jobs of the others are out of reach. An authenticated request, whatever its method, path and
  mode, leaves every job that somebody else owns in the daemon's table, with its owner, its statement
  and its state, unless it is a DELETE that names the token of the job as the last component of its
  path. The path and the user name are free of the character that opens a tag in the messages to the
  daemon.\<close>

theorem foreign_jobs_untouched:
  assumes "serve_request e False start getenv input sv = Inr (out, sv')" and "mgr_ok (sv_mgr sv)"
    and "parse getenv input (new_session False) = (True, s)"
    and "auth_validate (se_auth e) s (sv_cred sv, w_files (sv_world sv)) = Inr (True, t, cr, fs)"
    and "\<not> deletes s tok" and "msg_text (req_get s HTTP_REQ_URI)" and "msg_text (s_user t)"
    and "job_table (sv_mgr sv) tok = Some j" and "j_owner j \<noteq> s_user t"
  shows "job_table (sv_mgr sv') tok = Some j"
proof -
  have k: "request t = request s" using validate.kept[OF assms(4)] by simp
  obtain u sv2 where d: "dispatch e t (sv\<lparr>sv_cred := cr, sv_world := (sv_world sv)\<lparr>w_files := fs\<rparr>\<rparr>) = Inr (u, sv2)"
    "sv' = done_request e start sv2"
    by (rule serve_accepted[OF assms(1,3,4)])
  have "\<not> deletes t tok" using assms(5) deletes_cong[OF k] by simp
  then show ?thesis using dispatch_keeps_job[OF d(1), of tok j] assms(2,6-9) k d(2) by simp
qed

theorem foreign_jobs_untouched_witness:
  "\<exists>out sv'. serve_request example_command_env False (0, 0) alice_getenv []
       (example_server\<lparr>sv_mgr := example_manager [example_entry ''1'' ''eve'']\<rparr>) = Inr (out, sv') \<and>
     job_table (sv_mgr sv') ''1'' = Some \<lparr>j_owner = ''eve'', j_statement = ''show version'', j_finished = False\<rparr>"
proof -
  let ?sv = "example_server\<lparr>sv_mgr := example_manager [example_entry ''1'' ''eve'']\<rparr>"
  have ok: "mgr_ok (sv_mgr ?sv)"
    "job_table (sv_mgr ?sv) ''1'' = Some \<lparr>j_owner = ''eve'', j_statement = ''show version'', j_finished = False\<rparr>"
    by (simp_all add: example_manager_def example_entry_def mgr_ok_def sorted_map_def entry_ok_def job_table_def job_of_def)
  obtain t cr fs where t: "s_user t = ''alice''" and
    post: "posted_command example_command_env alice_getenv [] ?sv t (cr, fs) ''show'' [''version'']
      (\<lambda>x. x) (''show '' @ [APOS] @ ''version'' @ [APOS]) ''0123456789ABCDEF''"
    using example_posted[of ?sv] by (auto simp: example_server_def)
  from posted_reaches_daemon[OF post, of "(0, 0)"] obtain out sv' where
    r: "serve_request example_command_env False (0, 0) alice_getenv [] ?sv = Inr (out, sv')" by blast
  from post obtain s where p: "parse alice_getenv [] (new_session False) = (True, s)"
    "auth_validate (se_auth example_command_env) s (sv_cred ?sv, w_files (sv_world ?sv)) = Inr (True, t, cr, fs)"
    by (auto simp: posted_command_def split: prod.splits)
  then have "s = alice_session" using alice_request(4) by (simp add: parse_def Let_def alice_session_def)
  then have "job_table (sv_mgr sv') ''1'' = Some \<lparr>j_owner = ''eve'', j_statement = ''show version'', j_finished = False\<rparr>"
    using foreign_jobs_untouched[OF r ok(1) p _ _ _ ok(2)] t alice_request(1,2) by (simp add: msg_text_def deletes_def)
  then show ?thesis using r by blast
qed

end
